(* ===== verification/Prelude.thy ===== *)
theory Prelude
  imports Main "HOL-Library.Word"
begin

text \<open>
  Shared vocabulary of the development: the machine types of the C sources, the octal constants of
  \<^verbatim>\<open><sys/stat.h>\<close>, the error numbers the code returns, the parts of the C string library the
  sources call (\<^verbatim>\<open>strtol\<close>, \<^verbatim>\<open>strtok\<close>, \<^verbatim>\<open>strpbrk\<close>, \<^verbatim>\<open>strncmp\<close>, \<^verbatim>\<open>strstr\<close>), and the generic lemmas
  on lists and words that the component theories use.  A C string is the list of its characters
  before the terminating NUL.  The locale \<open>invariant_system\<close> is for the step relations of concurrent parts.
\<close>

unbundle bit_operations_syntax

named_theorems mode_simps \<open>bit-level facts about permission masks\<close>
named_theorems cstr_simps \<open>facts about the C string functions\<close>

section \<open>Machine types and constants\<close>

type_synonym mode_t = "32 word"
type_synonym uid_t = "32 word"
type_synonym gid_t = "32 word"
type_synonym size_t = "64 word"
type_synonym byte = "8 word"

text \<open>Octal literals of the source, named by their octal spelling.\<close>

abbreviation o777 :: mode_t where "o777 \<equiv> 0x1FF"
abbreviation o700 :: mode_t where "o700 \<equiv> 0x1C0"
abbreviation o070 :: mode_t where "o070 \<equiv> 0x38"
abbreviation o007 :: mode_t where "o007 \<equiv> 0x7"
abbreviation o444 :: mode_t where "o444 \<equiv> 0x124"
abbreviation o222 :: mode_t where "o222 \<equiv> 0x92"
abbreviation o111 :: mode_t where "o111 \<equiv> 0x49"
abbreviation o7777 :: mode_t where "o7777 \<equiv> 0xFFF"
abbreviation o7666 :: mode_t where "o7666 \<equiv> 0xFB6"

abbreviation S_IFMT :: mode_t where "S_IFMT \<equiv> 0xF000"
abbreviation S_IFSOCK :: mode_t where "S_IFSOCK \<equiv> 0xC000"
abbreviation S_IFLNK :: mode_t where "S_IFLNK \<equiv> 0xA000"
abbreviation S_IFREG :: mode_t where "S_IFREG \<equiv> 0x8000"
abbreviation S_IFBLK :: mode_t where "S_IFBLK \<equiv> 0x6000"
abbreviation S_IFDIR :: mode_t where "S_IFDIR \<equiv> 0x4000"
abbreviation S_IFCHR :: mode_t where "S_IFCHR \<equiv> 0x2000"
abbreviation S_IFIFO :: mode_t where "S_IFIFO \<equiv> 0x1000"
abbreviation S_ISGID :: mode_t where "S_ISGID \<equiv> 0x400"

text \<open>The file-type tests of \<^verbatim>\<open><sys/stat.h>\<close>.\<close>

definition S_ISDIR :: "mode_t \<Rightarrow> bool" where "S_ISDIR m \<longleftrightarrow> m AND S_IFMT = S_IFDIR"
definition S_ISREG :: "mode_t \<Rightarrow> bool" where "S_ISREG m \<longleftrightarrow> m AND S_IFMT = S_IFREG"
definition S_ISLNK :: "mode_t \<Rightarrow> bool" where "S_ISLNK m \<longleftrightarrow> m AND S_IFMT = S_IFLNK"
definition S_ISBLK :: "mode_t \<Rightarrow> bool" where "S_ISBLK m \<longleftrightarrow> m AND S_IFMT = S_IFBLK"
definition S_ISFIFO :: "mode_t \<Rightarrow> bool" where "S_ISFIFO m \<longleftrightarrow> m AND S_IFMT = S_IFIFO"

text \<open>\<^verbatim>\<open>(uid_t)-1\<close> and \<^verbatim>\<open>(gid_t)-1\<close>: "no user" and "no group".\<close>

abbreviation no_id :: "32 word" where "no_id \<equiv> -1"

datatype errno =
    EPERM | ENOENT | EIO | EACCES | EINVAL | ENOMEM | EOVERFLOW | ERANGE | ENAMETOOLONG
  | EOTHER nat  \<comment> \<open>any other error number the kernel reports\<close>

section \<open>The C string functions the sources use\<close>

abbreviation NUL :: char where "NUL \<equiv> CHR 0x00"
abbreviation newline :: char where "newline \<equiv> CHR 0x0A"
abbreviation slash :: char where "slash \<equiv> CHR ''/''"

definition isspace :: "char \<Rightarrow> bool" where
  "isspace c \<longleftrightarrow> c \<in> {CHR '' '', CHR 0x09, CHR 0x0A, CHR 0x0B, CHR 0x0C, CHR 0x0D}"

definition char_code :: "char \<Rightarrow> nat" where
  "char_code c = of_char c"

definition isdigit :: "char \<Rightarrow> bool" where
  "isdigit c \<longleftrightarrow> 48 \<le> char_code c \<and> char_code c \<le> 57"

definition digit_of :: "nat \<Rightarrow> char \<Rightarrow> bool" where
  "digit_of base c \<longleftrightarrow> 48 \<le> char_code c \<and> char_code c < 48 + base"

definition digits_val :: "nat \<Rightarrow> string \<Rightarrow> nat" where
  "digits_val base ds = foldl (\<lambda>a c. a * base + (char_code c - 48)) 0 ds"

abbreviation LONG_MAX :: int where "LONG_MAX \<equiv> 2 ^ 63 - 1"
abbreviation LONG_MIN :: int where "LONG_MIN \<equiv> - (2 ^ 63)"

fun strip_sign :: "string \<Rightarrow> bool \<times> string" where
  "strip_sign [] = (False, [])"
| "strip_sign (c # cs) =
     (if c = CHR ''-'' then (True, cs) else if c = CHR ''+'' then (False, cs) else (False, c # cs))"

text \<open>
  \<^verbatim>\<open>strtol(s, &end, base)\<close> (and \<^verbatim>\<open>strtoll\<close>, of the same width) for a base of at most ten: the value,
  clamped to the range of \<^verbatim>\<open>long\<close>, and the text at \<^verbatim>\<open>end\<close>.  With no digit to read the value is 0
  and \<^verbatim>\<open>end\<close> is the whole argument.
\<close>

definition strtol :: "nat \<Rightarrow> string \<Rightarrow> int \<times> string" where
  "strtol base s =
     (let (neg, u) = strip_sign (dropWhile isspace s);
          ds = takeWhile (digit_of base) u;
          v = int (digits_val base ds)
      in if ds = [] then (0, s)
         else (max LONG_MIN (min LONG_MAX (if neg then - v else v)), drop (length ds) u))"

text \<open>\<^verbatim>\<open>strtoul\<close>: a minus sign negates in the unsigned type, an overflow gives \<^verbatim>\<open>ULONG_MAX\<close>.\<close>

definition strtoul :: "nat \<Rightarrow> string \<Rightarrow> size_t \<times> string" where
  "strtoul base s =
     (let (neg, u) = strip_sign (dropWhile isspace s);
          ds = takeWhile (digit_of base) u;
          v = digits_val base ds
      in if ds = [] then (0, s)
         else (if v \<ge> 2 ^ 64 then - 1 else if neg then - of_nat v else of_nat v,
               drop (length ds) u))"

text \<open>\<^verbatim>\<open>strtok\<close> repeated to exhaustion on one string: the maximal runs of non-delimiters.\<close>

function strtok_all :: "(char \<Rightarrow> bool) \<Rightarrow> string \<Rightarrow> string list" where
  "strtok_all d s =
     (let t = dropWhile d s
      in if t = [] then []
         else takeWhile (\<lambda>c. \<not> d c) t # strtok_all d (dropWhile (\<lambda>c. \<not> d c) t))"
  by pat_completeness auto
termination
proof (relation "measure (\<lambda>(d, s). length s)")
  fix d :: "char \<Rightarrow> bool" and s t
  assume t: "t = dropWhile d s" and ne: "t \<noteq> []"
  have "\<not> d (hd t)" using ne unfolding t by (rule hd_dropWhile)
  then have "length (dropWhile (\<lambda>c. \<not> d c) t) < length t"
    using ne by (cases t) (auto simp: le_imp_less_Suc length_dropWhile_le)
  also have "length t \<le> length s" by (simp add: t length_dropWhile_le)
  finally show "((d, dropWhile (\<lambda>c. \<not> d c) t), d, s) \<in> measure (\<lambda>(d, s). length s)" by simp
qed simp

declare strtok_all.simps [simp del]

text \<open>\<^verbatim>\<open>strncmp(a, b, n) == 0\<close> for strings without embedded NULs.\<close>

definition strncmp_eq :: "string \<Rightarrow> string \<Rightarrow> nat \<Rightarrow> bool" where
  "strncmp_eq a b n \<longleftrightarrow> take n a = take n b"

text \<open>\<^verbatim>\<open>strstr(s, sub)\<close>: the text before the first occurrence and the text after it.\<close>

fun strstr_split :: "string \<Rightarrow> string \<Rightarrow> (string \<times> string) option" where
  "strstr_split sub [] = (if sub = [] then Some ([], []) else None)"
| "strstr_split sub (c # cs) =
     (if take (length sub) (c # cs) = sub then Some ([], drop (length sub) (c # cs))
      else map_option (\<lambda>(a, b). (c # a, b)) (strstr_split sub cs))"

section \<open>Generic lemmas\<close>

lemma digit_of_isdigit: "digit_of 10 c \<longleftrightarrow> isdigit c"
  by (auto simp: digit_of_def isdigit_def)

lemma takeWhile_all [cstr_simps]: "\<forall>c \<in> set s. P c \<Longrightarrow> takeWhile P s = s"
  by (induction s) auto

lemma takeWhile_append_stop [cstr_simps]:
  "\<forall>c \<in> set s. P c \<Longrightarrow> \<not> P d \<Longrightarrow> takeWhile P (s @ d # t) = s"
  by (induction s) auto

lemma dropWhile_append_stop [cstr_simps]:
  "\<forall>c \<in> set s. P c \<Longrightarrow> \<not> P d \<Longrightarrow> dropWhile P (s @ d # t) = d # t"
  by (induction s) auto

lemma length_tl_dropWhile: "s \<noteq> [] \<Longrightarrow> length (tl (dropWhile P s)) < length s"
  using length_dropWhile_le [of P s] by (cases s) (auto simp del: dropWhile.simps)

lemma map_of_snoc_new: "k \<notin> fst ` set xs \<Longrightarrow> map_of (xs @ [(k, v)]) = (map_of xs)(k \<mapsto> v)"
  by (induction xs) (auto simp: fun_upd_twist)

lemma strstr_split_Some:
  "strstr_split sub s = Some (a, b) \<Longrightarrow> s = a @ sub @ b"
proof (induction sub s arbitrary: a b rule: strstr_split.induct)
  case (1 sub)
  then show ?case by (auto split: if_splits)
next
  case (2 sub c cs)
  then show ?case
    by (auto split: if_splits) (metis append_take_drop_id)
qed

lemma strtok_all_tokens:
  "t \<in> set (strtok_all d s) \<Longrightarrow> t \<noteq> [] \<and> (\<forall>c \<in> set t. \<not> d c)"
proof (induction d s rule: strtok_all.induct)
  case (1 d s)
  show ?case
  proof (cases "dropWhile d s = []")
    case True
    with "1.prems" show ?thesis by (simp add: strtok_all.simps [of d s])
  next
    case False
    let ?u = "dropWhile d s"
    have "\<not> d (hd ?u)" using False by (rule hd_dropWhile)
    with False have ne: "takeWhile (\<lambda>c. \<not> d c) ?u \<noteq> []" by (cases ?u) auto
    from "1.prems" False have "t = takeWhile (\<lambda>c. \<not> d c) ?u
        \<or> t \<in> set (strtok_all d (dropWhile (\<lambda>c. \<not> d c) ?u))"
      by (auto simp: strtok_all.simps [of d s] Let_def split: if_splits)
    then show ?thesis
    proof
      assume t: "t = takeWhile (\<lambda>c. \<not> d c) ?u"
      show ?thesis unfolding t using ne by (blast dest: set_takeWhileD)
    next
      assume "t \<in> set (strtok_all d (dropWhile (\<lambda>c. \<not> d c) ?u))"
      then show ?thesis by (rule "1.IH" [OF refl False])
    qed
  qed
qed

text \<open>The tokens and a separator after each fit in the string and its terminating NUL.\<close>

lemma strtok_all_size:
  "sum_list (map (\<lambda>t. Suc (length t)) (strtok_all d s)) \<le> (if dropWhile d s = [] then 0 else Suc (length (dropWhile d s)))"
proof (induction d s rule: strtok_all.induct)
  case (1 d s)
  let ?t = "dropWhile d s"
  let ?u = "dropWhile (\<lambda>c. \<not> d c) ?t"
  show ?case
  proof (cases "?t = []")
    case True
    then show ?thesis by (simp add: strtok_all.simps [of d s])
  next
    case False
    have "sum_list (map (\<lambda>t. Suc (length t)) (strtok_all d ?u)) \<le> length ?u"
    proof (cases ?u)
      case (Cons c cs)
      then have "d c" using hd_dropWhile [of "\<lambda>c. \<not> d c" ?t] by simp
      then have "length (dropWhile d ?u) < length ?u" using Cons length_dropWhile_le [of d cs] by simp
      moreover note "1.IH" [OF refl False]
      ultimately show ?thesis by (simp only: split: if_splits)
    next
      case Nil
      have "strtok_all d [] = []" by (simp add: strtok_all.simps [of d "[]"])
      then show ?thesis unfolding Nil by simp
    qed
    moreover have "length (takeWhile (\<lambda>c. \<not> d c) ?t) + length ?u = length ?t"
      by (metis length_append takeWhile_dropWhile_id)
    moreover have "strtok_all d s = takeWhile (\<lambda>c. \<not> d c) ?t # strtok_all d ?u"
      using False by (subst strtok_all.simps) (simp add: Let_def)
    ultimately show ?thesis using False by simp
  qed
qed

lemma bit_o777 [mode_simps]: "bit o777 n \<longleftrightarrow> n < 9"
proof -
  have "o777 = mask 9" by (simp add: mask_eq_exp_minus_1)
  then have "bit o777 n \<longleftrightarrow> bit (mask 9 :: mode_t) n" by (rule arg_cong)
  also have "\<dots> \<longleftrightarrow> n < 9" by (auto simp: bit_mask_iff simp del: mask_numeral)
  finally show ?thesis .
qed

section \<open>Transition systems\<close>

text \<open>An invariant of a transition system holds in every state it reaches.\<close>

locale invariant_system =
  fixes init :: "'s \<Rightarrow> bool" and step :: "'s \<Rightarrow> 's \<Rightarrow> bool" and inv :: "'s \<Rightarrow> bool"
  assumes inv_init: "init s \<Longrightarrow> inv s" and inv_step: "step s s' \<Longrightarrow> inv s \<Longrightarrow> inv s'"
begin

lemma reachable_inv: "init s \<Longrightarrow> step\<^sup>*\<^sup>* s s' \<Longrightarrow> inv s'"
  by (rotate_tac, induction rule: rtranclp_induct) (auto intro: inv_init inv_step)

end

end
