(* ===== verification/Permchain.thy ===== *)
theory Permchain
  imports Prelude
begin

text \<open>
  \<^verbatim>\<open>src/permchain.c\<close>: parsing of chmod-like rules into a linked list of \<^verbatim>\<open>struct permchain\<close> nodes and
  their application to a file mode.  A chain is the list of its nodes in \<^verbatim>\<open>next\<close> order.
\<close>

section \<open>Data\<close>

text \<open>The union \<^verbatim>\<open>mode\<close> of a node, tagged by the member last written.\<close>

datatype pc_mode = As_operands string | As_octal mode_t

record permchain =
  pc_op :: char
  pc_flags :: byte
  pc_mask :: mode_t
  pc_mode :: pc_mode

type_synonym chain = "permchain list"

definition PC_APPLY_FILES :: byte where "PC_APPLY_FILES = 1"
definition PC_APPLY_DIRS :: byte where "PC_APPLY_DIRS = 2"
definition PC_FLAGS_DEFAULT :: byte where "PC_FLAGS_DEFAULT = PC_APPLY_FILES OR PC_APPLY_DIRS"

lemmas pc_flag_defs = PC_APPLY_FILES_def PC_APPLY_DIRS_def PC_FLAGS_DEFAULT_def

definition permchain_node :: permchain where
  "permchain_node = \<lparr>pc_op = NUL, pc_flags = PC_FLAGS_DEFAULT, pc_mask = 0, pc_mode = As_operands []\<rparr>"

definition permchain_create :: chain where
  "permchain_create = [permchain_node]"

fun permchain_cat :: "chain \<Rightarrow> chain \<Rightarrow> chain" where
  "permchain_cat [] right = right"
| "permchain_cat (l # left) right = l # permchain_cat left right"

text \<open>Destroying a chain frees every node once; what is left is the empty list.\<close>

fun permchain_destroy :: "chain \<Rightarrow> chain" where
  "permchain_destroy [] = []"
| "permchain_destroy (pc # next) = permchain_destroy next"

section \<open>Parsing\<close>

datatype rule_state = LHS | RHS

definition operands_of :: "permchain \<Rightarrow> string" where
  "operands_of pc = (case pc_mode pc of As_operands s \<Rightarrow> s | As_octal _ \<Rightarrow> [])"

text \<open>One character left of the operator; \<open>first\<close> is the test \<^verbatim>\<open>p == buf\<close>.\<close>

definition lhs_char :: "bool \<Rightarrow> char \<Rightarrow> permchain \<Rightarrow> (rule_state \<times> permchain) option" where
  "lhs_char first c pc =
     (if c = CHR ''u'' then Some (LHS, pc\<lparr>pc_mask := pc_mask pc OR o700\<rparr>)
      else if c = CHR ''g'' then Some (LHS, pc\<lparr>pc_mask := pc_mask pc OR o070\<rparr>)
      else if c = CHR ''o'' then Some (LHS, pc\<lparr>pc_mask := pc_mask pc OR o007\<rparr>)
      else if c = CHR ''a'' then Some (LHS, pc\<lparr>pc_mask := o777\<rparr>)
      else if c = CHR ''f'' then Some (LHS, pc\<lparr>pc_flags := pc_flags pc OR PC_APPLY_FILES\<rparr>)
      else if c = CHR ''d'' then Some (LHS, pc\<lparr>pc_flags := pc_flags pc OR PC_APPLY_DIRS\<rparr>)
      else if c \<in> {CHR ''='', CHR ''+'', CHR ''-''} then
        Some (RHS, (if first then pc\<lparr>pc_mask := o777\<rparr> else pc)\<lparr>pc_op := c\<rparr>)
      else None)"

definition rhs_chars :: string where
  "rhs_chars = ''rwxXDstugo''"

definition rhs_char :: "char \<Rightarrow> permchain \<Rightarrow> permchain option" where
  "rhs_char c pc =
     (if c \<in> set rhs_chars then
        Some (if c \<notin> set (operands_of pc)
              then pc\<lparr>pc_mode := As_operands (operands_of pc @ [c])\<rparr> else pc)
      else None)"

fun chmod_rule_loop :: "bool \<Rightarrow> rule_state \<Rightarrow> string \<Rightarrow> permchain \<Rightarrow> permchain option" where
  "chmod_rule_loop first st [] pc = Some pc"
| "chmod_rule_loop first LHS (c # p) pc =
     (case lhs_char first c pc of None \<Rightarrow> None | Some (st, pc') \<Rightarrow> chmod_rule_loop False st p pc')"
| "chmod_rule_loop first RHS (c # p) pc =
     (case rhs_char c pc of None \<Rightarrow> None | Some pc' \<Rightarrow> chmod_rule_loop False RHS p pc')"

text \<open>The result is the C return value together with the chain \<^verbatim>\<open>pc\<close> afterwards.\<close>

definition add_chmod_rule_to_permchain :: "string \<Rightarrow> chain \<Rightarrow> int \<times> chain" where
  "add_chmod_rule_to_permchain buf pc =
     (case chmod_rule_loop True LHS buf (permchain_node\<lparr>pc_flags := 0\<rparr>) of
        None \<Rightarrow> (- 1, pc)
      | Some newpc \<Rightarrow>
          (0, permchain_cat pc
                [if pc_flags newpc = 0 then newpc\<lparr>pc_flags := PC_FLAGS_DEFAULT\<rparr> else newpc]))"

definition add_octal_rule_to_permchain :: "string \<Rightarrow> chain \<Rightarrow> int \<times> chain" where
  "add_octal_rule_to_permchain buf pc =
     (let mode = fst (strtol 8 buf)
      in if mode < 0 \<or> mode > 0x1FF then (- 1, pc)
         else (0, permchain_cat pc
                    [permchain_node\<lparr>pc_mask := o777, pc_op := CHR ''o'',
                                    pc_mode := As_octal (word_of_int mode)\<rparr>]))"

definition rule_delim :: "char \<Rightarrow> bool" where
  "rule_delim c \<longleftrightarrow> c = CHR '','' \<or> c = CHR '':''"

function chmod_rules_loop :: "string \<Rightarrow> chain \<Rightarrow> int \<times> chain" where
  "chmod_rules_loop start newpc =
     (if start = [] then (0, newpc)
      else let tok = takeWhile (\<lambda>c. \<not> rule_delim c) start;
               endp = dropWhile (\<lambda>c. \<not> rule_delim c) start
           in if tok = [] then (- 1, newpc)
              else let (r, newpc') =
                         (if isdigit (hd tok) then add_octal_rule_to_permchain tok newpc
                          else add_chmod_rule_to_permchain tok newpc)
                   in if r \<noteq> 0 then (- 1, newpc')
                      else if endp = [] then (0, newpc')
                      else chmod_rules_loop (tl endp) newpc')"
  by pat_completeness auto
termination
  by (relation "measure (\<lambda>(s, pc). length s)") (auto intro: length_tl_dropWhile simp del: length_tl)

declare chmod_rules_loop.simps [simp del]

definition add_chmod_rules_to_permchain :: "string \<Rightarrow> chain \<Rightarrow> int \<times> chain" where
  "add_chmod_rules_to_permchain rule pc =
     (let (ret, newpc) = chmod_rules_loop rule permchain_create
      in if ret = 0 then (0, permchain_cat pc newpc) else (ret, pc))"

section \<open>Application\<close>

definition modebits_to_all :: "mode_t \<Rightarrow> mode_t" where
  "modebits_to_all perms = perms OR push_bit 3 perms OR push_bit 6 perms"

text \<open>The bits one operand contributes; \<open>None\<close> is the failed assertion of the \<^verbatim>\<open>default\<close> case.\<close>

definition operand_bits :: "mode_t \<Rightarrow> char \<Rightarrow> mode_t option" where
  "operand_bits original_mode p =
     (if p = CHR ''r'' then Some o444
      else if p = CHR ''w'' then Some o222
      else if p = CHR ''x'' then Some o111
      else if p = CHR ''X'' then
        Some (if S_ISDIR original_mode \<or> original_mode AND o111 \<noteq> 0 then o111 else 0)
      else if p = CHR ''D'' then Some (if S_ISDIR original_mode then o111 else 0)
      else if p = CHR ''s'' \<or> p = CHR ''t'' then Some 0
      else if p = CHR ''u'' then Some (modebits_to_all (drop_bit 6 (original_mode AND o700)))
      else if p = CHR ''g'' then Some (modebits_to_all (drop_bit 3 (original_mode AND o070)))
      else if p = CHR ''o'' then Some (modebits_to_all (original_mode AND o007))
      else None)"

fun operands_loop :: "mode_t \<Rightarrow> string \<Rightarrow> mode_t \<Rightarrow> mode_t option" where
  "operands_loop original_mode [] mode = Some mode"
| "operands_loop original_mode (p # ps) mode =
     (case operand_bits original_mode p of
        None \<Rightarrow> None
      | Some b \<Rightarrow> operands_loop original_mode ps (mode OR b))"

text \<open>One node that is not skipped.\<close>

definition apply_node :: "permchain \<Rightarrow> mode_t \<Rightarrow> mode_t \<Rightarrow> mode_t option" where
  "apply_node pc original_mode tgtmode =
     (if pc_op pc \<in> {CHR ''='', CHR ''+'', CHR ''-''} then
        (case operands_loop original_mode (operands_of pc) 0 of
           None \<Rightarrow> None
         | Some mode0 \<Rightarrow>
             (let mode = mode0 AND pc_mask pc
              in Some (if pc_op pc = CHR ''='' then (tgtmode AND NOT (pc_mask pc)) OR mode
                       else if pc_op pc = CHR ''+'' then tgtmode OR mode
                       else tgtmode AND (NOT o777 OR NOT mode))))
      else if pc_op pc = CHR ''o'' then
        (case pc_mode pc of
           As_octal m \<Rightarrow> Some ((tgtmode AND NOT o777) OR m)
         | As_operands _ \<Rightarrow> None)
      else None)"

fun permchain_apply_loop :: "mode_t \<Rightarrow> chain \<Rightarrow> mode_t \<Rightarrow> mode_t option" where
  "permchain_apply_loop original_mode [] tgtmode = Some tgtmode"
| "permchain_apply_loop original_mode (pc # next) tgtmode =
     (if pc_op pc = NUL then permchain_apply_loop original_mode next tgtmode
      else if S_ISDIR tgtmode \<and> pc_flags pc AND PC_APPLY_DIRS = 0
              \<or> \<not> S_ISDIR tgtmode \<and> pc_flags pc AND PC_APPLY_FILES = 0
      then permchain_apply_loop original_mode next tgtmode
      else (case apply_node pc original_mode tgtmode of
              None \<Rightarrow> None
            | Some m \<Rightarrow> permchain_apply_loop original_mode next m))"

text \<open>\<open>None\<close> means that an assertion failed and the process aborted.\<close>

definition permchain_apply :: "chain \<Rightarrow> mode_t \<Rightarrow> mode_t option" where
  "permchain_apply pc tgtmode = permchain_apply_loop tgtmode pc tgtmode"

section \<open>Specification: chmod on sets of permissions\<close>

text \<open>
  The abstract view of a mode: who may do what.  The permission bit of a pair is bit
  \<open>who_ix + perm_ix\<close> of the mode.
\<close>

datatype who = User | Group | Others
datatype perm = Read | Write | Exec

type_synonym perms = "(who \<times> perm) set"

fun who_ix :: "who \<Rightarrow> nat" where
  "who_ix User = 6" | "who_ix Group = 3" | "who_ix Others = 0"

fun perm_ix :: "perm \<Rightarrow> nat" where
  "perm_ix Read = 2" | "perm_ix Write = 1" | "perm_ix Exec = 0"

definition perms_of :: "mode_t \<Rightarrow> perms" where
  "perms_of m = {(w, p). bit m (who_ix w + perm_ix p)}"

text \<open>What one operand stands for, given the file's kind and its original permissions.\<close>

definition operand_perms :: "bool \<Rightarrow> perms \<Rightarrow> char \<Rightarrow> perms" where
  "operand_perms dir P c =
     (if c = CHR ''r'' then UNIV \<times> {Read}
      else if c = CHR ''w'' then UNIV \<times> {Write}
      else if c = CHR ''x'' then UNIV \<times> {Exec}
      else if c = CHR ''X'' then (if dir \<or> (\<exists>w. (w, Exec) \<in> P) then UNIV \<times> {Exec} else {})
      else if c = CHR ''D'' then (if dir then UNIV \<times> {Exec} else {})
      else if c = CHR ''u'' then {(w, p). (User, p) \<in> P}
      else if c = CHR ''g'' then {(w, p). (Group, p) \<in> P}
      else if c = CHR ''o'' then {(w, p). (Others, p) \<in> P}
      else {})"

definition rule_perms :: "bool \<Rightarrow> perms \<Rightarrow> permchain \<Rightarrow> perms" where
  "rule_perms dir P pc = (\<Union>c \<in> set (operands_of pc). operand_perms dir P c) \<inter> perms_of (pc_mask pc)"

definition chmod_spec_node :: "bool \<Rightarrow> perms \<Rightarrow> permchain \<Rightarrow> perms \<Rightarrow> perms" where
  "chmod_spec_node dir P pc S =
     (if pc_op pc = NUL
         \<or> pc_flags pc AND (if dir then PC_APPLY_DIRS else PC_APPLY_FILES) = 0 then S
      else if pc_op pc = CHR ''='' then (S - perms_of (pc_mask pc)) \<union> rule_perms dir P pc
      else if pc_op pc = CHR ''+'' then S \<union> rule_perms dir P pc
      else if pc_op pc = CHR ''-'' then S - rule_perms dir P pc
      else (case pc_mode pc of As_octal m \<Rightarrow> perms_of m | As_operands _ \<Rightarrow> S))"

definition chmod_spec :: "bool \<Rightarrow> perms \<Rightarrow> chain \<Rightarrow> perms" where
  "chmod_spec dir P pcs = fold (chmod_spec_node dir P) pcs P"

section \<open>Well-formed chains\<close>

text \<open>The part of a mode outside the permission bits: file type, setuid, setgid, sticky.\<close>

definition non_perm :: "mode_t \<Rightarrow> mode_t" where
  "non_perm m = m AND NOT o777"

definition sym_node :: "permchain \<Rightarrow> bool" where
  "sym_node pc \<longleftrightarrow>
     pc_op pc \<in> {NUL, CHR ''='', CHR ''+'', CHR ''-''}
     \<and> (\<exists>s. pc_mode pc = As_operands s \<and> distinct s \<and> set s \<subseteq> set rhs_chars)
     \<and> non_perm (pc_mask pc) = 0"

definition octal_node :: "permchain \<Rightarrow> bool" where
  "octal_node pc \<longleftrightarrow>
     pc_op pc = CHR ''o'' \<and> pc_mask pc = o777
     \<and> (\<exists>m. pc_mode pc = As_octal m \<and> non_perm m = 0)"

definition wf_chain :: "chain \<Rightarrow> bool" where
  "wf_chain pcs \<longleftrightarrow> (\<forall>pc \<in> set pcs. sym_node pc \<or> octal_node pc)"

subsection \<open>Permission sets and bit masks\<close>

lemma ix_less: "who_ix w + perm_ix p < 9"
  by (cases w; cases p) simp_all

lemma perms_of_OR [mode_simps]: "perms_of (a OR b) = perms_of a \<union> perms_of b"
  by (auto simp: perms_of_def bit_or_iff)

lemma perms_of_AND [mode_simps]: "perms_of (a AND b) = perms_of a \<inter> perms_of b"
  by (auto simp: perms_of_def bit_and_iff)

lemma perms_of_NOT [mode_simps]: "perms_of (NOT a) = - perms_of a"
proof -
  have "bit (NOT a) (who_ix w + perm_ix p) \<longleftrightarrow> \<not> bit a (who_ix w + perm_ix p)" for w p
    using ix_less [of w p] by (simp add: bit_not_iff)
  then show ?thesis by (auto simp: perms_of_def)
qed

lemma perms_of_0 [mode_simps]: "perms_of 0 = {}"
  by (simp add: perms_of_def)

lemma perms_of_o777 [mode_simps]: "perms_of o777 = UNIV"
  by (simp only: perms_of_def bit_o777 ix_less) auto

lemma perms_of_o444 [mode_simps]: "perms_of o444 = UNIV \<times> {Read}"
proof -
  have "bit o444 (who_ix w + perm_ix p) \<longleftrightarrow> p = Read" for w p by (cases w; cases p) simp_all
  then show ?thesis by (auto simp: perms_of_def)
qed

lemma perms_of_o222 [mode_simps]: "perms_of o222 = UNIV \<times> {Write}"
proof -
  have "bit o222 (who_ix w + perm_ix p) \<longleftrightarrow> p = Write" for w p by (cases w; cases p) simp_all
  then show ?thesis by (auto simp: perms_of_def)
qed

lemma perms_of_o111 [mode_simps]: "perms_of o111 = UNIV \<times> {Exec}"
proof -
  have "bit o111 (who_ix w + perm_ix p) \<longleftrightarrow> p = Exec" for w p by (cases w; cases p) simp_all
  then show ?thesis by (auto simp: perms_of_def)
qed

lemma perms_of_modebits [mode_simps]:
  "perms_of (modebits_to_all (drop_bit 6 (m AND o700))) = {(w, p). (User, p) \<in> perms_of m}"
  "perms_of (modebits_to_all (drop_bit 3 (m AND o070))) = {(w, p). (Group, p) \<in> perms_of m}"
  "perms_of (modebits_to_all (m AND o007)) = {(w, p). (Others, p) \<in> perms_of m}"
proof -
  note bits = numeral_2_eq_2 [symmetric] modebits_to_all_def bit_or_iff bit_and_iff bit_push_bit_iff bit_drop_bit_eq
  have "bit (modebits_to_all (drop_bit 6 (m AND o700))) (who_ix w + perm_ix p)
        \<longleftrightarrow> bit m (who_ix User + perm_ix p)" for w p
    by (cases w; cases p) (simp_all add: bits)
  then show "perms_of (modebits_to_all (drop_bit 6 (m AND o700))) = {(w, p). (User, p) \<in> perms_of m}"
    by (simp add: perms_of_def)
  have "bit (modebits_to_all (drop_bit 3 (m AND o070))) (who_ix w + perm_ix p)
        \<longleftrightarrow> bit m (who_ix Group + perm_ix p)" for w p
    by (cases w; cases p) (simp_all add: bits)
  then show "perms_of (modebits_to_all (drop_bit 3 (m AND o070))) = {(w, p). (Group, p) \<in> perms_of m}"
    by (simp add: perms_of_def)
  have "bit (modebits_to_all (m AND o007)) (who_ix w + perm_ix p)
        \<longleftrightarrow> bit m (who_ix Others + perm_ix p)" for w p
    by (cases w; cases p) (simp_all add: bits)
  then show "perms_of (modebits_to_all (m AND o007)) = {(w, p). (Others, p) \<in> perms_of m}"
    by (simp add: perms_of_def)
qed

lemma who_ix_surj: "k < 3 \<Longrightarrow> \<exists>w. who_ix w = 3 * k"
proof -
  assume "k < 3"
  then consider "k = 0" | "k = 1" | "k = 2" by linarith
  then show ?thesis
  proof cases
    case 1 then show ?thesis by (intro exI [of _ Others]) simp
  next
    case 2 then show ?thesis by (intro exI [of _ Group]) simp
  next
    case 3 then show ?thesis by (intro exI [of _ User]) simp
  qed
qed

lemma perm_ix_surj: "k < 3 \<Longrightarrow> \<exists>p. perm_ix p = k"
proof -
  assume "k < 3"
  then consider "k = 0" | "k = 1" | "k = 2" by linarith
  then show ?thesis
  proof cases
    case 1 then show ?thesis by (intro exI [of _ Exec]) simp
  next
    case 2 then show ?thesis by (intro exI [of _ Write]) simp
  next
    case 3 then show ?thesis by (intro exI [of _ Read]) simp
  qed
qed

lemma bit_less9_split:
  assumes "n < 9" obtains w p where "n = who_ix w + perm_ix p"
proof -
  have "n div 3 < 3" using assms by linarith
  then obtain w where w: "who_ix w = 3 * (n div 3)" using who_ix_surj by blast
  obtain p where p: "perm_ix p = n mod 3" using perm_ix_surj [of "n mod 3"] by auto
  have "n = who_ix w + perm_ix p" unfolding w p by simp
  then show thesis by (rule that)
qed

text \<open>A mode is its permission set together with the bits above \<^verbatim>\<open>0777\<close>.\<close>

lemma bit_non_perm: "bit (non_perm m) n \<longleftrightarrow> bit m n \<and> \<not> n < 9"
  using bit_imp_le_length [of m n]
  by (auto simp only: non_perm_def bit_and_iff bit_not_iff bit_o777) simp

lemma mode_eqI:
  assumes "perms_of a = perms_of b" and "non_perm a = non_perm b"
  shows "a = b"
proof (rule bit_word_eqI)
  fix n assume "n < LENGTH(32)"
  show "bit a n = bit b n"
  proof (cases "n < 9")
    case True
    then obtain w p where "n = who_ix w + perm_ix p" by (rule bit_less9_split)
    then show ?thesis using assms(1) by (auto simp: perms_of_def set_eq_iff)
  next
    case False
    have "bit (non_perm a) n = bit (non_perm b) n" by (simp only: assms(2))
    then show ?thesis using False by (simp only: bit_non_perm) simp
  qed
qed

lemma non_perm_zero_bit: "non_perm m = 0 \<Longrightarrow> bit m n \<Longrightarrow> n < 9"
  using bit_non_perm [of m n] by auto

lemma non_perm_OR [mode_simps]: "non_perm m = 0 \<Longrightarrow> non_perm (a OR m) = non_perm a"
  by (rule bit_word_eqI) (auto simp: bit_non_perm bit_or_iff dest: non_perm_zero_bit)

lemma non_perm_AND_NOT [mode_simps]: "non_perm m = 0 \<Longrightarrow> non_perm (a AND NOT m) = non_perm a"
  by (rule bit_word_eqI) (auto simp: bit_non_perm bit_and_iff bit_not_iff dest: non_perm_zero_bit)

lemma non_perm_AND [mode_simps]: "non_perm m = 0 \<Longrightarrow> non_perm (a AND m) = 0"
  by (rule bit_word_eqI) (auto simp: bit_non_perm bit_and_iff dest: non_perm_zero_bit)

lemma non_perm_idem [mode_simps]: "non_perm (non_perm m) = non_perm m"
  by (rule bit_word_eqI) (auto simp: bit_non_perm)

subsection \<open>Application refines the specification\<close>

lemma permchain_cat_append [simp]: "permchain_cat a b = a @ b"
  by (induction a) simp_all

lemma exec_bits_nonzero: "m AND o111 \<noteq> 0 \<longleftrightarrow> (\<exists>w. (w, Exec) \<in> perms_of m)"
proof -
  have "non_perm (m AND o111) = 0" by (rule non_perm_AND) (simp add: non_perm_def)
  then have "m AND o111 = 0 \<longleftrightarrow> perms_of (m AND o111) = {}"
    using mode_eqI [of "m AND o111" 0] by (auto simp: perms_of_0 non_perm_def)
  also have "\<dots> \<longleftrightarrow> (\<forall>w. (w, Exec) \<notin> perms_of m)"
    by (simp only: perms_of_AND perms_of_o111) auto
  finally show ?thesis by blast
qed

lemma operand_bits_total: "c \<in> set rhs_chars \<Longrightarrow> operand_bits m c \<noteq> None"
  by (auto simp: rhs_chars_def operand_bits_def)

lemma operand_bits_perms:
  "operand_bits m c = Some b \<Longrightarrow> perms_of b = operand_perms (S_ISDIR m) (perms_of m) c"
  unfolding operand_bits_def operand_perms_def
  by (simp only: exec_bits_nonzero split: if_split_asm)
     (auto simp: mode_simps simp del: drop_bit_and)

lemma operands_loop_perms:
  assumes "set ps \<subseteq> set rhs_chars"
  shows "\<exists>b. operands_loop m ps acc = Some b
    \<and> perms_of b = perms_of acc \<union> (\<Union>c \<in> set ps. operand_perms (S_ISDIR m) (perms_of m) c)"
  using assms
proof (induction ps arbitrary: acc)
  case Nil
  then show ?case by simp
next
  case (Cons p ps)
  from Cons.prems have p: "p \<in> set rhs_chars" and ps: "set ps \<subseteq> set rhs_chars" by simp_all
  obtain b where b: "operand_bits m p = Some b" using operand_bits_total [OF p] by auto
  from Cons.IH [OF ps, of "acc OR b"] operand_bits_perms [OF b] show ?case
    by (auto simp: b perms_of_OR)
qed

lemma NOT_mode_minus: "tgt AND (NOT o777 OR NOT m) = tgt AND NOT (m AND o777)"
  by (simp only: and_eq_not_not_or bit.de_Morgan_conj bit.double_compl) (simp add: or.commute)

lemma apply_sym_node:
  assumes sym: "sym_node pc" and op: "pc_op pc \<noteq> NUL"
  shows "\<exists>m'. apply_node pc m tgt = Some m'
    \<and> non_perm m' = non_perm tgt
    \<and> perms_of m' =
        (if pc_op pc = CHR ''='' then (perms_of tgt - perms_of (pc_mask pc)) \<union> rule_perms (S_ISDIR m) (perms_of m) pc
         else if pc_op pc = CHR ''+'' then perms_of tgt \<union> rule_perms (S_ISDIR m) (perms_of m) pc
         else perms_of tgt - rule_perms (S_ISDIR m) (perms_of m) pc)"
proof -
  have mask: "non_perm (pc_mask pc) = 0" and ops: "set (operands_of pc) \<subseteq> set rhs_chars"
    and opc: "pc_op pc \<in> {CHR ''='', CHR ''+'', CHR ''-''}"
    using sym op by (auto simp: sym_node_def operands_of_def)
  obtain b where b: "operands_loop m (operands_of pc) 0 = Some b"
    and pb: "perms_of b = (\<Union>c \<in> set (operands_of pc). operand_perms (S_ISDIR m) (perms_of m) c)"
    using operands_loop_perms [OF ops, of m 0] by (auto simp: perms_of_0)
  let ?mode = "b AND pc_mask pc"
  have low: "non_perm ?mode = 0" by (rule non_perm_AND [OF mask])
  have pm: "perms_of ?mode = rule_perms (S_ISDIR m) (perms_of m) pc"
    by (simp only: perms_of_AND pb rule_perms_def)
  have an: "apply_node pc m tgt =
      Some (if pc_op pc = CHR ''='' then (tgt AND NOT (pc_mask pc)) OR ?mode
            else if pc_op pc = CHR ''+'' then tgt OR ?mode
            else tgt AND (NOT o777 OR NOT ?mode))"
    using opc by (simp add: apply_node_def b Let_def)
  have low': "non_perm (?mode AND o777) = 0" by (rule non_perm_AND) (simp add: non_perm_def)
  consider "pc_op pc = CHR ''=''" | "pc_op pc = CHR ''+''" | "pc_op pc = CHR ''-''"
    using opc by auto
  then show ?thesis
  proof cases
    case 1
    then show ?thesis
      by (simp add: an non_perm_OR [OF low] non_perm_AND_NOT [OF mask]
          perms_of_OR perms_of_AND [of tgt] perms_of_NOT pm Diff_eq)
  next
    case 2
    then show ?thesis by (simp add: an non_perm_OR [OF low] perms_of_OR [of tgt] pm)
  next
    case 3
    have "perms_of (tgt AND (NOT o777 OR NOT ?mode)) = perms_of tgt - perms_of ?mode"
      by (simp only: perms_of_AND [of tgt] perms_of_OR perms_of_NOT perms_of_o777) auto
    moreover have "non_perm (tgt AND (NOT o777 OR NOT ?mode)) = non_perm tgt"
      by (simp only: NOT_mode_minus non_perm_AND_NOT [OF low'])
    ultimately show ?thesis using 3 by (simp add: an pm)
  qed
qed

lemma S_ISDIR_non_perm: "non_perm a = non_perm b \<Longrightarrow> S_ISDIR a = S_ISDIR b"
proof -
  have "m AND S_IFMT = non_perm m AND S_IFMT" for m
    by (simp add: non_perm_def and.assoc)
  then show "non_perm a = non_perm b \<Longrightarrow> S_ISDIR a = S_ISDIR b"
    by (metis S_ISDIR_def)
qed

text \<open>One node: what the chain does with it is one step of the specification.\<close>

lemma apply_loop_node:
  assumes wf: "sym_node pc \<or> octal_node pc"
    and dir: "non_perm tgt = non_perm m"
  shows "\<exists>m'. permchain_apply_loop m (pc # pcs) tgt = permchain_apply_loop m pcs m'
    \<and> non_perm m' = non_perm m
    \<and> perms_of m' = chmod_spec_node (S_ISDIR m) (perms_of m) pc (perms_of tgt)"
proof -
  let ?skip = "pc_op pc = NUL \<or> pc_flags pc AND (if S_ISDIR m then PC_APPLY_DIRS else PC_APPLY_FILES) = 0"
  have d: "S_ISDIR tgt = S_ISDIR m" by (rule S_ISDIR_non_perm [OF dir])
  show ?thesis
  proof (cases ?skip)
    case True
    then show ?thesis using dir by (auto simp: d chmod_spec_node_def split: if_splits)
  next
    case noskip: False
    then have unf: "permchain_apply_loop m (pc # pcs) tgt =
        (case apply_node pc m tgt of None \<Rightarrow> None | Some m' \<Rightarrow> permchain_apply_loop m pcs m')"
      by (simp add: d split: if_splits)
    from wf show ?thesis
    proof
      assume "sym_node pc"
      with noskip apply_sym_node [of pc m tgt] show ?thesis
        by (auto simp: unf dir chmod_spec_node_def sym_node_def simp del: permchain_apply_loop.simps)
    next
      assume "octal_node pc"
      then obtain k where op: "pc_op pc = CHR ''o''" and k: "pc_mode pc = As_octal k" "non_perm k = 0"
        by (auto simp: octal_node_def)
      have "apply_node pc m tgt = Some (non_perm tgt OR k)"
        by (simp add: apply_node_def op k non_perm_def)
      moreover have "non_perm (non_perm tgt OR k) = non_perm m"
        by (simp only: non_perm_OR [OF k(2)] non_perm_idem dir)
      moreover have "perms_of (non_perm tgt OR k) = perms_of k"
        by (simp only: non_perm_def perms_of_OR perms_of_AND [of tgt] perms_of_NOT perms_of_o777) auto
      ultimately show ?thesis using noskip
        by (auto simp: unf op k chmod_spec_node_def simp del: permchain_apply_loop.simps)
    qed
  qed
qed

lemma permchain_apply_loop_refines:
  assumes "wf_chain pcs" and "non_perm tgt = non_perm m"
  shows "\<exists>m'. permchain_apply_loop m pcs tgt = Some m' \<and> non_perm m' = non_perm m
    \<and> perms_of m' = fold (chmod_spec_node (S_ISDIR m) (perms_of m)) pcs (perms_of tgt)"
  using assms
proof (induction pcs arbitrary: tgt)
  case Nil
  then show ?case by simp
next
  case (Cons pc pcs)
  from Cons.prems have wf: "sym_node pc \<or> octal_node pc" "wf_chain pcs" by (auto simp: wf_chain_def)
  obtain t where t: "permchain_apply_loop m (pc # pcs) tgt = permchain_apply_loop m pcs t"
      "non_perm t = non_perm m"
      "perms_of t = chmod_spec_node (S_ISDIR m) (perms_of m) pc (perms_of tgt)"
    using apply_loop_node [OF wf(1) Cons.prems(2)] by blast
  from Cons.IH [OF wf(2) t(2)] show ?case
    by (simp add: t(1,3) del: permchain_apply_loop.simps)
qed

subsection \<open>The parser builds well-formed chains\<close>

lemma permchain_apply_spec:
  "wf_chain pcs \<Longrightarrow> \<exists>m'. permchain_apply pcs m = Some m' \<and> non_perm m' = non_perm m
     \<and> perms_of m' = chmod_spec (S_ISDIR m) (perms_of m) pcs"
  using permchain_apply_loop_refines [of pcs m m] by (auto simp: permchain_apply_def chmod_spec_def)

lemma permchain_apply_total:
  "wf_chain pcs \<Longrightarrow> \<exists>m'. permchain_apply pcs m = Some m' \<and> non_perm m' = non_perm m"
  using permchain_apply_spec by blast

lemma non_perm_consts [simp]:
  "non_perm 0 = 0" "non_perm o777 = 0" "non_perm o700 = 0" "non_perm o070 = 0" "non_perm o007 = 0"
  by (simp_all add: non_perm_def)

lemma sym_node_upd:
  "sym_node pc \<Longrightarrow> non_perm k = 0 \<Longrightarrow> sym_node (pc\<lparr>pc_mask := k\<rparr>)"
  "sym_node pc \<Longrightarrow> c \<in> {CHR ''='', CHR ''+'', CHR ''-''} \<Longrightarrow> sym_node (pc\<lparr>pc_op := c\<rparr>)"
  "sym_node (pc\<lparr>pc_flags := f\<rparr>) = sym_node pc"
  by (simp_all add: sym_node_def)

lemma sym_node_mask: "sym_node pc \<Longrightarrow> non_perm (pc_mask pc) = 0"
  by (simp add: sym_node_def)

lemma lhs_char_sym: "sym_node pc \<Longrightarrow> lhs_char first c pc = Some (st, pc') \<Longrightarrow> sym_node pc'"
  unfolding lhs_char_def
  by (simp only: option.inject prod.inject option.distinct split: if_split_asm)
     (elim conjE, hypsubst, simp add: sym_node_upd sym_node_mask non_perm_OR)+

lemma rhs_char_sym: "sym_node pc \<Longrightarrow> rhs_char c pc = Some pc' \<Longrightarrow> sym_node pc'"
  by (auto simp: rhs_char_def sym_node_def operands_of_def split: if_splits)

lemma chmod_rule_loop_sym:
  "chmod_rule_loop first st s pc = Some pc' \<Longrightarrow> sym_node pc \<Longrightarrow> sym_node pc'"
proof (induction first st s pc rule: chmod_rule_loop.induct)
  case (2 first c p pc)
  then show ?case by (auto split: option.splits dest: lhs_char_sym)
next
  case (3 first c p pc)
  then show ?case by (auto split: option.splits dest: rhs_char_sym)
qed simp

lemma sym_node_new [simp]: "sym_node permchain_node"
  by (simp add: sym_node_def permchain_node_def)

lemma add_chmod_rule_wf:
  "add_chmod_rule_to_permchain s pcs = (r, pcs') \<Longrightarrow> wf_chain pcs \<Longrightarrow> wf_chain pcs'"
  by (auto simp: add_chmod_rule_to_permchain_def wf_chain_def sym_node_upd
      split: option.splits if_splits dest!: chmod_rule_loop_sym)

lemma non_perm_small: "k < 512 \<Longrightarrow> non_perm (word_of_nat k) = 0"
proof (rule bit_word_eqI)
  fix n assume k: "k < 512"
  then have "take_bit 9 k = k" by (simp add: take_bit_nat_eq_self_iff)
  then have "take_bit 9 (word_of_nat k :: mode_t) = word_of_nat k" by (simp add: take_bit_of_nat)
  then have "bit (word_of_nat k :: mode_t) n \<Longrightarrow> n < 9" by (metis bit_take_bit_iff)
  then show "bit (non_perm (word_of_nat k)) n = bit 0 n" by (auto simp: bit_non_perm)
qed

lemma add_octal_rule_wf:
  "add_octal_rule_to_permchain s pcs = (r, pcs') \<Longrightarrow> wf_chain pcs \<Longrightarrow> wf_chain pcs'"
proof -
  assume a: "add_octal_rule_to_permchain s pcs = (r, pcs')" and wf: "wf_chain pcs"
  define v where "v = fst (strtol 8 s)"
  have "octal_node (permchain_node\<lparr>pc_mask := o777, pc_op := CHR ''o'', pc_mode := As_octal (word_of_int v)\<rparr>)"
    if "0 \<le> v" "v \<le> 0x1FF"
  proof -
    from that have "non_perm (word_of_nat (nat v)) = 0" by (intro non_perm_small) auto
    then show ?thesis using that by (simp add: octal_node_def)
  qed
  then show ?thesis using a wf
    by (auto simp: add_octal_rule_to_permchain_def Let_def v_def wf_chain_def split: if_splits)
qed


lemma add_rule_extends:
  "add_chmod_rule_to_permchain s pcs = (r, pcs') \<Longrightarrow> \<exists>new. pcs' = pcs @ new"
  "add_octal_rule_to_permchain s pcs = (r, pcs') \<Longrightarrow> \<exists>new. pcs' = pcs @ new"
  by (auto simp: add_chmod_rule_to_permchain_def add_octal_rule_to_permchain_def Let_def
      split: option.splits if_splits)

text \<open>Both facts about the rule loop follow the same recursion: a predicate kept by each rule.\<close>

lemma chmod_rules_loop_invariant:
  assumes step: "\<And>t pcs r pcs'. P pcs \<Longrightarrow> add_chmod_rule_to_permchain t pcs = (r, pcs') \<Longrightarrow> P pcs'"
    "\<And>t pcs r pcs'. P pcs \<Longrightarrow> add_octal_rule_to_permchain t pcs = (r, pcs') \<Longrightarrow> P pcs'"
    and "chmod_rules_loop s pcs = (r, pcs')" and "P pcs"
  shows "P pcs'"
  using assms(3,4)
proof (induction s pcs arbitrary: r pcs' rule: chmod_rules_loop.induct)
  case (1 start newpc)
  let ?tok = "takeWhile (\<lambda>c. \<not> rule_delim c) start"
  let ?endp = "dropWhile (\<lambda>c. \<not> rule_delim c) start"
  show ?case
  proof (cases "start = [] \<or> ?tok = []")
    case True
    with "1.prems" show ?thesis 
      by (auto simp: chmod_rules_loop.simps [of start newpc] Let_def split: if_splits)
  next
    case False
    obtain q newpc' where q: "(if isdigit (hd ?tok) then add_octal_rule_to_permchain ?tok newpc
        else add_chmod_rule_to_permchain ?tok newpc) = (q, newpc')" by (cases "if isdigit (hd ?tok)
        then add_octal_rule_to_permchain ?tok newpc else add_chmod_rule_to_permchain ?tok newpc") auto
    have wf: "P newpc'"
    proof (cases "isdigit (hd ?tok)")
      case True
      with q have "add_octal_rule_to_permchain ?tok newpc = (q, newpc')" by simp
      then show ?thesis by (rule step(2) [OF "1.prems"(2)])
    next
      case False
      with q have "add_chmod_rule_to_permchain ?tok newpc = (q, newpc')" by simp
      then show ?thesis by (rule step(1) [OF "1.prems"(2)])
    qed
    from False q "1.prems"(1) have "(r, pcs') = (if q \<noteq> 0 then (- 1, newpc')
        else if ?endp = [] then (0, newpc') else chmod_rules_loop (tl ?endp) newpc')"
      by (simp add: chmod_rules_loop.simps [of start newpc] Let_def)
    then show ?thesis
      using "1.IH" [OF _ refl refl _ q [symmetric] refl, of r pcs'] False wf
      by (auto split: if_splits)
  qed
qed

lemma chmod_rules_loop_wf:
  "chmod_rules_loop s pcs = (r, pcs') \<Longrightarrow> wf_chain pcs \<Longrightarrow> wf_chain pcs'"
  by (rule chmod_rules_loop_invariant [of wf_chain]) (auto intro: add_chmod_rule_wf add_octal_rule_wf)

lemma chmod_rules_loop_extends:
  "chmod_rules_loop s pcs = (r, pcs') \<Longrightarrow> \<exists>new. pcs' = pcs @ new"
  by (rule chmod_rules_loop_invariant [of "\<lambda>q. \<exists>new. q = pcs @ new"])
     (force dest: add_rule_extends)+

subsection \<open>Which symbolic rules are accepted\<close>

definition lhs_letter :: "char \<Rightarrow> bool" where
  "lhs_letter c \<longleftrightarrow> c \<in> set ''ugoafd''"

definition op_letter :: "char \<Rightarrow> bool" where
  "op_letter c \<longleftrightarrow> c \<in> set ''=+-''"

text \<open>The language of symbolic rules: letters, then possibly an operator and operands.\<close>

definition rule_syntax :: "string \<Rightarrow> bool" where
  "rule_syntax s \<longleftrightarrow>
     (case dropWhile lhs_letter s of
        [] \<Rightarrow> True
      | c # ops \<Rightarrow> op_letter c \<and> set ops \<subseteq> set rhs_chars)"

lemma lhs_char_state:
  "lhs_char first c pc = None \<longleftrightarrow> \<not> lhs_letter c \<and> \<not> op_letter c"
  "lhs_char first c pc = Some (st, pc') \<Longrightarrow> st = (if lhs_letter c then LHS else RHS)"
  "lhs_char first c pc = Some (st, pc') \<Longrightarrow> lhs_letter c \<or> op_letter c"
  by (auto simp: lhs_char_def lhs_letter_def op_letter_def split: if_splits)

lemma op_not_lhs: "op_letter c \<Longrightarrow> \<not> lhs_letter c"
  by (auto simp: op_letter_def lhs_letter_def)

lemma chmod_rule_loop_RHS:
  "chmod_rule_loop first RHS s pc \<noteq> None \<longleftrightarrow> set s \<subseteq> set rhs_chars"
  by (induction s arbitrary: first pc) (auto simp: rhs_char_def)

lemma chmod_rule_loop_LHS: "chmod_rule_loop first LHS s pc \<noteq> None \<longleftrightarrow> rule_syntax s"
proof (induction s arbitrary: first pc)
  case Nil
  then show ?case by (simp add: rule_syntax_def)
next
  case (Cons c s)
  show ?case
  proof (cases "lhs_char first c pc")
    case None
    with lhs_char_state(1) [of first c pc] show ?thesis by (simp add: rule_syntax_def)
  next
    case (Some r)
    obtain st pc' where r: "r = (st, pc')" by (cases r)
    note some = Some [unfolded r]
    show ?thesis
    proof (cases "lhs_letter c")
      case True
      with some lhs_char_state(2) [OF some] Cons.IH show ?thesis by (simp add: rule_syntax_def)
    next
      case False
      with lhs_char_state(3) [OF some] have "op_letter c" by blast
      with some False lhs_char_state(2) [OF some] chmod_rule_loop_RHS [of False s pc'] show ?thesis
        by (simp add: rule_syntax_def)
    qed
  qed
qed

subsection \<open>Printing rules\<close>

text \<open>An abstract syntax of rules, its concrete syntax, and the node each rule stands for.\<close>

datatype rule_target = Both | Files_only | Dirs_only
datatype rule_ast = Symbolic "who list" rule_target char string | Octal nat

fun who_char :: "who \<Rightarrow> char" where
  "who_char User = CHR ''u''" | "who_char Group = CHR ''g''" | "who_char Others = CHR ''o''"

fun who_mask :: "who \<Rightarrow> mode_t" where
  "who_mask User = o700" | "who_mask Group = o070" | "who_mask Others = o007"

fun target_chars :: "rule_target \<Rightarrow> string" where
  "target_chars Both = []" | "target_chars Files_only = ''f''" | "target_chars Dirs_only = ''d''"

fun target_flags :: "rule_target \<Rightarrow> byte" where
  "target_flags Both = PC_FLAGS_DEFAULT"
| "target_flags Files_only = PC_APPLY_FILES"
| "target_flags Dirs_only = PC_APPLY_DIRS"

definition octal_digit :: "nat \<Rightarrow> char" where
  "octal_digit k = char_of (48 + k)"

fun print_rule :: "rule_ast \<Rightarrow> string" where
  "print_rule (Symbolic ws t op ops) = map who_char ws @ target_chars t @ op # ops"
| "print_rule (Octal n) = map octal_digit [0, n div 64, n div 8 mod 8, n mod 8]"

fun valid_rule :: "rule_ast \<Rightarrow> bool" where
  "valid_rule (Symbolic ws t op ops) \<longleftrightarrow>
     op_letter op \<and> distinct ops \<and> set ops \<subseteq> set rhs_chars \<and> (ws = [] \<longrightarrow> t = Both)"
| "valid_rule (Octal n) \<longleftrightarrow> n < 512"

definition who_masks :: "who list \<Rightarrow> mode_t \<Rightarrow> mode_t" where
  "who_masks ws m = fold (\<lambda>w m. m OR who_mask w) ws m"

fun rule_node :: "rule_ast \<Rightarrow> permchain" where
  "rule_node (Symbolic ws t op ops) =
     \<lparr>pc_op = op, pc_flags = target_flags t, pc_mask = (if ws = [] then o777 else who_masks ws 0),
      pc_mode = As_operands ops\<rparr>"
| "rule_node (Octal n) =
     \<lparr>pc_op = CHR ''o'', pc_flags = PC_FLAGS_DEFAULT, pc_mask = o777, pc_mode = As_octal (of_nat n)\<rparr>"

fun print_rule_list :: "rule_ast list \<Rightarrow> string" where
  "print_rule_list [] = []"
| "print_rule_list [r] = print_rule r"
| "print_rule_list (r # rs) = print_rule r @ CHR '','' # print_rule_list rs"

lemma loop_who_chars:
  "chmod_rule_loop first LHS (map who_char ws @ s) pc =
   chmod_rule_loop (first \<and> ws = []) LHS s (pc\<lparr>pc_mask := who_masks ws (pc_mask pc)\<rparr>)"
proof (induction ws arbitrary: first pc)
  case Nil
  then show ?case by (simp add: who_masks_def)
next
  case (Cons w ws)
  have "lhs_char first (who_char w) pc = Some (LHS, pc\<lparr>pc_mask := pc_mask pc OR who_mask w\<rparr>)"
    by (cases w) (simp_all add: lhs_char_def)
  then show ?case by (simp add: Cons.IH who_masks_def)
qed

lemma loop_operands:
  "distinct (operands_of pc @ ops) \<Longrightarrow> set ops \<subseteq> set rhs_chars \<Longrightarrow> pc_mode pc = As_operands s \<Longrightarrow>
   chmod_rule_loop first RHS ops pc = Some (pc\<lparr>pc_mode := As_operands (s @ ops)\<rparr>)"
proof (induction ops arbitrary: first pc s)
  case Nil
  then show ?case by simp
next
  case (Cons a ops)
  from Cons.prems have "rhs_char a pc = Some (pc\<lparr>pc_mode := As_operands (s @ [a])\<rparr>)"
    by (simp add: rhs_char_def operands_of_def)
  then show ?case
    using Cons.IH [of "pc\<lparr>pc_mode := As_operands (s @ [a])\<rparr>" "s @ [a]" False] Cons.prems
    by (simp add: operands_of_def)
qed

lemma loop_target:
  "chmod_rule_loop first LHS (target_chars t @ s) pc =
   chmod_rule_loop (first \<and> t = Both) LHS s
     (pc\<lparr>pc_flags := pc_flags pc OR (if t = Both then 0 else target_flags t)\<rparr>)"
  by (cases t) (simp_all add: lhs_char_def)

lemma op_letter_lhs_char:
  "op_letter c \<Longrightarrow>
   lhs_char first c pc = Some (RHS, (if first then pc\<lparr>pc_mask := o777\<rparr> else pc)\<lparr>pc_op := c\<rparr>)"
  by (auto simp: op_letter_def lhs_char_def)

lemma parse_symbolic:
  assumes "valid_rule (Symbolic ws t op ops)"
  shows "add_chmod_rule_to_permchain (print_rule (Symbolic ws t op ops)) pcs =
    (0, pcs @ [rule_node (Symbolic ws t op ops)])"
proof -
  have "chmod_rule_loop True LHS (print_rule (Symbolic ws t op ops)) (permchain_node\<lparr>pc_flags := 0\<rparr>) =
    Some \<lparr>pc_op = op, pc_flags = (if t = Both then 0 else target_flags t),
      pc_mask = (if ws = [] then o777 else who_masks ws 0), pc_mode = As_operands ops\<rparr>"
    using assms
    by (auto simp: loop_who_chars loop_target op_letter_lhs_char permchain_node_def operands_of_def
        loop_operands who_masks_def)
  then show ?thesis
    by (cases t) (simp_all add: add_chmod_rule_to_permchain_def pc_flag_defs)
qed

lemma char_code_octal_digit: "k < 8 \<Longrightarrow> char_code (octal_digit k) = 48 + k"
  by (simp add: char_code_def octal_digit_def)

lemma octal_digit_0: "octal_digit 0 = CHR ''0''"
  by (simp add: octal_digit_def char_of_def bit_0)

lemma strtol_octal:
  assumes "n < 512"
  shows "strtol 8 (print_rule (Octal n)) = (int n, [])"
proof -
  have d: "char_code (octal_digit k) = 48 + k" if "k < 8" for k
    using that by (rule char_code_octal_digit)
  have digs: "n div 64 < 8" "n div 8 mod 8 < 8" "n mod 8 < 8" using assms by auto
  have nsp: "\<not> isspace (octal_digit 0)" by (simp add: octal_digit_0 isspace_def)
  have sgn: "octal_digit 0 \<noteq> CHR ''-''" "octal_digit 0 \<noteq> CHR ''+''" by (simp_all add: octal_digit_0)
  have "n div 64 = n div 8 div 8" using div_mult2_eq [of n 8 8] by simp
  moreover have "8 * (n div 8) + n mod 8 = n" "8 * (n div 8 div 8) + n div 8 mod 8 = n div 8"
    by simp_all
  ultimately have "64 * (n div 64) + n div 8 mod 8 * 8 + n mod 8 = n" by linarith
  then have "digits_val 8 (print_rule (Octal n)) = n"
    by (simp add: digits_val_def d digs)
  moreover have "takeWhile (digit_of 8) (print_rule (Octal n)) = print_rule (Octal n)"
    by (rule takeWhile_all) (use digs in \<open>auto simp: digit_of_def d\<close>)
  ultimately show ?thesis
    using assms by (simp add: strtol_def nsp sgn)
qed

lemma range_who_char: "range who_char = {CHR ''u'', CHR ''g'', CHR ''o''}"
proof -
  have all: "(UNIV :: who set) = {User, Group, Others}" using who.exhaust by auto
  show ?thesis unfolding all by simp
qed

lemma rule_token_props:
  assumes "valid_rule r"
  shows "print_rule r \<noteq> []" and "\<forall>c \<in> set (print_rule r). \<not> rule_delim c"
    and "isdigit (hd (print_rule r)) \<longleftrightarrow> (\<exists>n. r = Octal n)"
proof -
  have nd: "\<not> rule_delim c" if "c \<in> set rhs_chars \<or> op_letter c \<or> c \<in> range who_char \<or> c \<in> set (target_chars t)" for c t
    using that unfolding range_who_char
    by (cases t) (auto simp: rhs_chars_def op_letter_def rule_delim_def)
  have od: "\<not> rule_delim (octal_digit k)" if "k < 8" for k
    using char_code_octal_digit [OF that] that by (auto simp: rule_delim_def char_code_def)
  have wd: "\<not> isdigit c" if "op_letter c \<or> c \<in> range who_char" for c
    using that unfolding range_who_char by (auto simp: op_letter_def isdigit_def char_code_def)
  show "print_rule r \<noteq> []" by (cases r) simp_all
  show "\<forall>c \<in> set (print_rule r). \<not> rule_delim c"
    using assms nd od by (cases r) auto
  show "isdigit (hd (print_rule r)) \<longleftrightarrow> (\<exists>n. r = Octal n)"
  proof (cases r)
    case (Symbolic ws t op ops)
    then show ?thesis using assms wd by (cases ws) auto
  next
    case (Octal n)
    then show ?thesis by (simp add: octal_digit_0 isdigit_def char_code_def)
  qed
qed

lemma parse_rule:
  assumes "valid_rule r"
  shows "(if isdigit (hd (print_rule r)) then add_octal_rule_to_permchain (print_rule r) pcs
          else add_chmod_rule_to_permchain (print_rule r) pcs) = (0, pcs @ [rule_node r])"
proof (cases r)
  case (Symbolic ws t op ops)
  with assms rule_token_props(3) [OF assms] parse_symbolic show ?thesis by simp
next
  case (Octal n)
  with assms rule_token_props(3) [OF assms] strtol_octal [of n] show ?thesis
    by (simp add: add_octal_rule_to_permchain_def permchain_node_def del: print_rule.simps)
qed

lemma chmod_rules_loop_print:
  "list_all valid_rule rs \<Longrightarrow> chmod_rules_loop (print_rule_list rs) pcs = (0, pcs @ map rule_node rs)"
proof (induction rs arbitrary: pcs rule: print_rule_list.induct)
  case 1
  then show ?case by (simp add: chmod_rules_loop.simps)
next
  case (2 r)
  then have v: "valid_rule r" by simp
  note props = rule_token_props [OF v]
  show ?case
    using props parse_rule [OF v, of pcs]
    by (simp add: chmod_rules_loop.simps [of "print_rule r"] takeWhile_all Let_def)
next
  case (3 r r' rs)
  then have v: "valid_rule r" and vs: "list_all valid_rule (r' # rs)" by simp_all
  note props = rule_token_props [OF v]
  let ?rest = "print_rule_list (r' # rs)"
  have d: "rule_delim (CHR '','')" by (simp add: rule_delim_def)
  have tw: "takeWhile (\<lambda>c. \<not> rule_delim c) (print_rule r @ CHR '','' # ?rest) = print_rule r"
    and dw: "dropWhile (\<lambda>c. \<not> rule_delim c) (print_rule r @ CHR '','' # ?rest) = CHR '','' # ?rest"
    using props(2) d by (simp_all add: takeWhile_append_stop dropWhile_append_stop)
  have "chmod_rules_loop (print_rule_list (r # r' # rs)) pcs = chmod_rules_loop ?rest (pcs @ [rule_node r])"
    using props(1) parse_rule [OF v, of pcs]
    by (subst chmod_rules_loop.simps) (simp add: tw dw Let_def)
  with "3.IH" [OF vs] show ?case by simp
qed

lemma wf_chain_append [simp]: "wf_chain (a @ b) \<longleftrightarrow> wf_chain a \<and> wf_chain b"
  by (auto simp: wf_chain_def)

lemma wf_chain_create [simp]: "wf_chain permchain_create"
  by (simp add: wf_chain_def permchain_create_def)

text \<open>The sixteen bytes of \<^verbatim>\<open>as_operands\<close> always hold the operands and their terminating NUL.\<close>

lemma operands_fit: "sym_node pc \<or> octal_node pc \<Longrightarrow> length (operands_of pc) \<le> 10"
proof -
  assume wf: "sym_node pc \<or> octal_node pc"
  have "length s \<le> 10" if "distinct s" "set s \<subseteq> set rhs_chars" for s
  proof -
    have "length s = card (set s)" using that(1) by (simp add: distinct_card)
    also have "\<dots> \<le> card (set rhs_chars)" using that(2) by (intro card_mono) auto
    also have "\<dots> = 10" by (simp add: rhs_chars_def)
    finally show ?thesis .
  qed
  with wf show ?thesis by (auto simp: sym_node_def octal_node_def operands_of_def)
qed

lemma maskless_node_noop:
  assumes "sym_node pc" "pc_mask pc = 0"
  shows "permchain_apply_loop m [pc] m = Some m"
proof -
  obtain m' where m': "permchain_apply_loop m [pc] m = permchain_apply_loop m [] m'"
      "non_perm m' = non_perm m"
      "perms_of m' = chmod_spec_node (S_ISDIR m) (perms_of m) pc (perms_of m)"
    using apply_loop_node [of pc m m "[]"] assms(1) by blast
  have "perms_of m' = perms_of m"
    using assms by (auto simp: m'(3) chmod_spec_node_def rule_perms_def perms_of_0 sym_node_def)
  then have "m' = m" by (rule mode_eqI) (rule m'(2))
  with m'(1) show ?thesis by simp
qed

lemma rhs_loop_mask: "chmod_rule_loop first RHS ops pc = Some pc' \<Longrightarrow> pc_mask pc' = pc_mask pc"
  by (induction ops arbitrary: first pc) (auto simp: rhs_char_def split: if_splits)

section \<open>Properties\<close>

text \<open>
  C10. Applying a well-formed chain to a mode never trips an assertion; it changes only the
  permission bits, and the new permissions are those of the abstract chmod specification, in
  which the operands \<open>X\<close>, \<open>u\<close>, \<open>g\<close> and \<open>o\<close> refer to the permissions the file had before the
  first rule.
\<close>

theorem permchain_apply_refines_chmod:
  assumes "wf_chain pcs"
  shows "\<exists>m'. permchain_apply pcs m = Some m'
    \<and> non_perm m' = non_perm m
    \<and> perms_of m' = chmod_spec (S_ISDIR m) (perms_of m) pcs"
  using permchain_apply_loop_refines [OF assms, of m m]
  by (simp add: permchain_apply_def chmod_spec_def)

text \<open>The chain of \<^verbatim>\<open>0644,a+X\<close> on a directory of mode \<^verbatim>\<open>040700\<close> gives \<^verbatim>\<open>040755\<close>.\<close>

definition example_chain :: chain where
  "example_chain = [rule_node (Octal 0x1A4), rule_node (Symbolic [] Both (CHR ''+'') ''X'')]"

lemma example_chain_wf: "wf_chain example_chain"
  by (simp add: example_chain_def wf_chain_def sym_node_def octal_node_def rhs_chars_def non_perm_def)

theorem permchain_apply_refines_chmod_witness:
  "wf_chain example_chain \<and> permchain_apply example_chain 0x41C0 = Some 0x41ED \<and>
   perms_of 0x41ED = chmod_spec (S_ISDIR 0x41C0) (perms_of 0x41C0) example_chain"
proof -
  have run: "permchain_apply example_chain 0x41C0 = Some 0x41ED" by code_simp
  show ?thesis using permchain_apply_refines_chmod [OF example_chain_wf, of "0x41C0"] run example_chain_wf
    by auto
qed

lemma add_chmod_rules_result:
  assumes "wf_chain pc" and "add_chmod_rules_to_permchain rule pc = (r, pc')"
  shows "wf_chain pc' \<and> (if r = 0 then (\<exists>new. new \<noteq> [] \<and> pc' = pc @ new) else pc' = pc)"
proof -
  obtain q new where loop: "chmod_rules_loop rule permchain_create = (q, new)"
    by (cases "chmod_rules_loop rule permchain_create") auto
  have wf: "wf_chain new" using chmod_rules_loop_wf [OF loop] by simp
  have ne: "new \<noteq> []"
    using chmod_rules_loop_extends [OF loop] by (auto simp: permchain_create_def)
  show ?thesis using assms wf ne by (auto simp: add_chmod_rules_to_permchain_def loop split: if_splits)
qed

text \<open>
  C14. The rule parser is all-or-nothing: on a syntax error the chain is returned unmodified, on
  success the parsed rules are appended to it.  Either way a well-formed chain stays well-formed,
  and the operands of every node fit the sixteen-byte array with its terminator.
\<close>

theorem add_chmod_rules_sound:
  assumes "wf_chain pc" and "add_chmod_rules_to_permchain rule pc = (r, pc')"
  shows "wf_chain pc' \<and> (if r = 0 then (\<exists>new. new \<noteq> [] \<and> pc' = pc @ new) else pc' = pc)
    \<and> list_all (\<lambda>n. length (operands_of n) + 1 < 16) pc'"
  using add_chmod_rules_result [OF assms] operands_fit by (fastforce simp: wf_chain_def list_all_iff)

theorem add_chmod_rules_sound_witness:
  "wf_chain example_chain \<and> add_chmod_rules_to_permchain ''u=rwX,8z'' example_chain = (0, example_chain @
     [permchain_node, rule_node (Symbolic [User] Both (CHR ''='') ''rwX''), rule_node (Octal 0)])
   \<and> add_chmod_rules_to_permchain ''u=rwX,z'' example_chain = (- 1, example_chain)
   \<and> list_all (\<lambda>n. length (operands_of n) + 1 < 16) example_chain"
proof -
  have ok: "add_chmod_rules_to_permchain ''u=rwX,8z'' example_chain = (0, example_chain @
     [permchain_node, rule_node (Symbolic [User] Both (CHR ''='') ''rwX''), rule_node (Octal 0)])"
    by code_simp
  have err: "add_chmod_rules_to_permchain ''u=rwX,z'' example_chain = (- 1, example_chain)"
    by code_simp
  show ?thesis using ok err example_chain_wf add_chmod_rules_sound [OF example_chain_wf err] by blast
qed

text \<open>
  C16. Printing a list of rules and parsing the text gives back exactly the nodes of those rules,
  in order, appended to the chain behind the neutral head node of the new sub-chain.
\<close>

theorem parse_print_rules:
  assumes "list_all valid_rule rs"
  shows "add_chmod_rules_to_permchain (print_rule_list rs) pc = (0, pc @ permchain_create @ map rule_node rs)"
  using chmod_rules_loop_print [OF assms, of permchain_create]
  by (simp add: add_chmod_rules_to_permchain_def)

theorem parse_print_rules_witness:
  "list_all valid_rule [Octal 0x1A4, Symbolic [Group, Others] Dirs_only (CHR ''-'') ''w''] \<and>
   print_rule_list [Octal 0x1A4, Symbolic [Group, Others] Dirs_only (CHR ''-'') ''w''] = ''0644,god-w'' \<and>
   add_chmod_rules_to_permchain ''0644,god-w'' permchain_create =
     (0, [permchain_node, permchain_node, rule_node (Octal 0x1A4),
          rule_node (Symbolic [Group, Others] Dirs_only (CHR ''-'') ''w'')])"
proof -
  let ?rs = "[Octal 0x1A4, Symbolic [Group, Others] Dirs_only (CHR ''-'') ''w'']"
  have v: "list_all valid_rule ?rs" by (simp add: op_letter_def rhs_chars_def)
  have p: "print_rule_list ?rs = ''0644,god-w''" by code_simp
  show ?thesis
    using v p parse_print_rules [OF v, of permchain_create] by (simp add: permchain_create_def)
qed

text \<open>
  C34. A symbolic rule is accepted exactly when it consists of letters of \<^verbatim>\<open>ugoafd\<close>, optionally followed
  by one of \<^verbatim>\<open>=+-\<close> and operands of \<^verbatim>\<open>rwxXDstugo\<close>; otherwise the chain is unchanged.  In particular a
  rule with no operator at all is accepted.
\<close>

theorem add_chmod_rule_language:
  "fst (add_chmod_rule_to_permchain s pc) = (if rule_syntax s then 0 else - 1)
   \<and> (rule_syntax s \<or> snd (add_chmod_rule_to_permchain s pc) = pc)"
  using chmod_rule_loop_LHS [of True s "permchain_node\<lparr>pc_flags := 0\<rparr>"]
  by (auto simp: add_chmod_rule_to_permchain_def split: option.splits)

text \<open>
  A rule that names only a file kind (\<^verbatim>\<open>d+x\<close>, \<^verbatim>\<open>f=rw\<close>) has an empty mask: it is accepted, and
  applying it changes no mode.  (A rule that starts with the operator defaults to all users.)
\<close>

lemma kind_only_rule_is_noop:
  assumes "t \<noteq> Both" and "op_letter op" and "set ops \<subseteq> set rhs_chars"
  shows "\<exists>node. add_chmod_rule_to_permchain (target_chars t @ op # ops) [] = (0, [node])
    \<and> permchain_apply [node] m = Some m"
proof -
  let ?s = "target_chars t @ op # ops"
  let ?pc = "permchain_node\<lparr>pc_flags := if t = Both then 0 else target_flags t, pc_op := op\<rparr>"
  have loop: "chmod_rule_loop True LHS ?s (permchain_node\<lparr>pc_flags := 0\<rparr>) = chmod_rule_loop False RHS ops ?pc"
    using assms by (simp add: loop_target op_letter_lhs_char permchain_node_def)
  obtain pc' where pc': "chmod_rule_loop False RHS ops ?pc = Some pc'"
    using chmod_rule_loop_RHS [of False ops ?pc] assms(3) by auto
  have "sym_node pc'" using chmod_rule_loop_sym [OF loop [unfolded pc']] by (simp add: sym_node_upd)
  moreover have "pc_mask pc' = 0"
    using rhs_loop_mask [OF pc'] by (simp add: permchain_node_def)
  ultimately have "permchain_apply [pc'\<lparr>pc_flags := f\<rparr>] m = Some m" for f
    unfolding permchain_apply_def by (intro maskless_node_noop) (simp_all add: sym_node_upd)
  moreover from this [of "pc_flags pc'"] have "permchain_apply [pc'] m = Some m" by simp
  ultimately show ?thesis by (simp add: add_chmod_rule_to_permchain_def loop pc')
qed

lemma kind_only_rule_is_noop_example:
  "Dirs_only \<noteq> Both \<and> add_chmod_rule_to_permchain ''d+x'' [] =
     (0, [permchain_node\<lparr>pc_flags := PC_APPLY_DIRS, pc_op := CHR ''+'', pc_mode := As_operands ''x''\<rparr>])
   \<and> permchain_apply [permchain_node\<lparr>pc_flags := PC_APPLY_DIRS, pc_op := CHR ''+'', pc_mode := As_operands ''x''\<rparr>]
       0x41A4 = Some 0x41A4"
proof -
  have run: "add_chmod_rule_to_permchain ''d+x'' [] =
     (0, [permchain_node\<lparr>pc_flags := PC_APPLY_DIRS, pc_op := CHR ''+'', pc_mode := As_operands ''x''\<rparr>])"
    by code_simp
  show ?thesis
    using kind_only_rule_is_noop [of Dirs_only "CHR ''+''" "''x''" "0x41A4"] run
    by (auto simp: op_letter_def rhs_chars_def)
qed

end
