(* ===== verification/Permheap.thy ===== *)
theory Permheap
  imports Permchain
begin

text \<open>
  \<^verbatim>\<open>src/permchain.c\<close> in memory: nodes at addresses linked by \<^verbatim>\<open>next\<close> pointers, with \<^verbatim>\<open>malloc\<close> and \<^verbatim>\<open>free\<close>.  A read or write
  outside allocated memory, a double free and a loop that does not end are all the result \<open>None\<close>; theory
  \<open>Permchain\<close> is the abstraction of this one to lists of nodes.
\<close>

section \<open>Memory\<close>

type_synonym addr = nat

text \<open>
  What is allocated at an address: a node of a permission chain, a record of other pointers, or bytes whose
  contents do not matter here.  Addresses are handed out in order and never again, so that every use of
  freed memory shows.
\<close>

datatype cell = Node permchain "addr option" | Pointers "addr option list" | Bytes

record memory =
  blocks :: "addr \<rightharpoonup> cell"
  unused :: addr

definition memory_ok :: "memory \<Rightarrow> bool" where
  "memory_ok m \<longleftrightarrow> (\<forall>a \<ge> unused m. blocks m a = None)"

definition malloc :: "cell \<Rightarrow> memory \<Rightarrow> addr \<times> memory" where
  "malloc b m = (unused m, \<lparr>blocks = (blocks m)(unused m \<mapsto> b), unused = Suc (unused m)\<rparr>)"

definition free :: "addr option \<Rightarrow> memory \<Rightarrow> memory option" where
  "free p m =
     (case p of
        None \<Rightarrow> Some m
      | Some a \<Rightarrow> if blocks m a = None then None else Some (m\<lparr>blocks := (blocks m)(a := None)\<rparr>))"

definition read_node :: "addr \<Rightarrow> memory \<Rightarrow> (permchain \<times> addr option) option" where
  "read_node a m = (case blocks m a of Some (Node n next) \<Rightarrow> Some (n, next) | _ \<Rightarrow> None)"

definition store :: "addr \<Rightarrow> cell \<Rightarrow> memory \<Rightarrow> memory option" where
  "store a b m = (if blocks m a = None then None else Some (m\<lparr>blocks := (blocks m)(a \<mapsto> b)\<rparr>))"

section \<open>The operations on linked nodes\<close>

definition heap_permchain_create :: "memory \<Rightarrow> addr \<times> memory" where
  "heap_permchain_create m = malloc (Node permchain_node None) m"

partial_function (option) heap_permchain_cat :: "addr \<Rightarrow> addr \<Rightarrow> memory \<Rightarrow> memory option" where
  "heap_permchain_cat left right m =
     (case read_node left m of
        None \<Rightarrow> None
      | Some (n, Some next) \<Rightarrow> heap_permchain_cat next right m
      | Some (n, None) \<Rightarrow> store left (Node n (Some right)) m)"

partial_function (option) heap_permchain_destroy :: "addr option \<Rightarrow> memory \<Rightarrow> memory option" where
  "heap_permchain_destroy pc m =
     (case pc of
        None \<Rightarrow> Some m
      | Some a \<Rightarrow>
          (case read_node a m of
             None \<Rightarrow> None
           | Some (n, next) \<Rightarrow> Option.bind (free (Some a) m) (heap_permchain_destroy next)))"

text \<open>One rule: the buffer for the rule's text, the new node, and the buffer freed again.\<close>

definition heap_add_chmod_rule :: "string \<Rightarrow> addr \<Rightarrow> memory \<Rightarrow> (int \<times> memory) option" where
  "heap_add_chmod_rule rule pc m =
     (let (buf, m) = malloc Bytes m;
          (newpc, m) = heap_permchain_create m
      in case chmod_rule_loop True LHS rule (permchain_node\<lparr>pc_flags := 0\<rparr>) of
           None \<Rightarrow>
             Option.bind (heap_permchain_destroy (Some newpc) m) (\<lambda>m.
             Option.bind (free (Some buf) m) (\<lambda>m. Some (- 1, m)))
         | Some n \<Rightarrow>
             Option.bind (store newpc (Node (if pc_flags n = 0 then n\<lparr>pc_flags := PC_FLAGS_DEFAULT\<rparr> else n) None) m) (\<lambda>m.
             Option.bind (heap_permchain_cat pc newpc m) (\<lambda>m.
             Option.bind (free (Some buf) m) (\<lambda>m. Some (0, m)))))"

definition heap_add_octal_rule :: "string \<Rightarrow> addr \<Rightarrow> memory \<Rightarrow> (int \<times> memory) option" where
  "heap_add_octal_rule rule pc m =
     (let (buf, m) = malloc Bytes m;
          (newpc, m) = heap_permchain_create m;
          mode = fst (strtol 8 rule)
      in Option.bind (free (Some buf) m) (\<lambda>m.
           if mode < 0 \<or> mode > 0x1FF then
             Option.bind (heap_permchain_destroy (Some newpc) m) (\<lambda>m. Some (- 1, m))
           else
             Option.bind (store newpc (Node (permchain_node\<lparr>pc_mask := o777, pc_op := CHR ''o'',
                                               pc_mode := As_octal (word_of_int mode)\<rparr>) None) m) (\<lambda>m.
             Option.bind (heap_permchain_cat pc newpc m) (\<lambda>m. Some (0, m)))))"

function heap_rules_loop :: "string \<Rightarrow> addr \<Rightarrow> memory \<Rightarrow> (int \<times> memory) option" where
  "heap_rules_loop start newpc m =
     (if start = [] then Some (0, m)
      else let tok = takeWhile (\<lambda>c. \<not> rule_delim c) start;
               endp = dropWhile (\<lambda>c. \<not> rule_delim c) start
           in if tok = [] then Some (- 1, m)
              else (case (if isdigit (hd tok) then heap_add_octal_rule tok newpc m
                          else heap_add_chmod_rule tok newpc m) of
                      None \<Rightarrow> None
                    | Some (r, m) \<Rightarrow>
                        if r \<noteq> 0 then Some (- 1, m)
                        else if endp = [] then Some (0, m)
                        else heap_rules_loop (tl endp) newpc m))"
  by pat_completeness auto
termination
  by (relation "measure (\<lambda>(s, pc, m). length s)") (auto intro: length_tl_dropWhile simp del: length_tl)

declare heap_rules_loop.simps [simp del]

definition heap_add_chmod_rules :: "string \<Rightarrow> addr \<Rightarrow> memory \<Rightarrow> (int \<times> memory) option" where
  "heap_add_chmod_rules rule pc m =
     (let (newpc, m) = heap_permchain_create m
      in Option.bind (heap_rules_loop rule newpc m) (\<lambda>(ret, m).
           if ret = 0 then Option.bind (heap_permchain_cat pc newpc m) (\<lambda>m. Some (0, m))
           else Option.bind (heap_permchain_destroy (Some newpc) m) (\<lambda>m. Some (ret, m))))"

partial_function (option) heap_apply_loop :: "mode_t \<Rightarrow> addr option \<Rightarrow> mode_t \<Rightarrow> memory \<Rightarrow> mode_t option" where
  "heap_apply_loop original_mode pc tgtmode m =
     (case pc of
        None \<Rightarrow> Some tgtmode
      | Some a \<Rightarrow>
          (case read_node a m of
             None \<Rightarrow> None
           | Some (n, next) \<Rightarrow>
               if pc_op n = NUL then heap_apply_loop original_mode next tgtmode m
               else if S_ISDIR tgtmode \<and> pc_flags n AND PC_APPLY_DIRS = 0
                       \<or> \<not> S_ISDIR tgtmode \<and> pc_flags n AND PC_APPLY_FILES = 0
               then heap_apply_loop original_mode next tgtmode m
               else (case apply_node n original_mode tgtmode of
                       None \<Rightarrow> None
                     | Some tgtmode \<Rightarrow> heap_apply_loop original_mode next tgtmode m)))"

definition heap_permchain_apply :: "addr option \<Rightarrow> mode_t \<Rightarrow> memory \<Rightarrow> mode_t option" where
  "heap_permchain_apply pc tgtmode m = heap_apply_loop tgtmode pc tgtmode m"

section \<open>Chains in memory\<close>

text \<open>From \<open>p\<close> there is a chain of nodes \<open>ns\<close> at the distinct addresses \<open>as\<close>, ended by a null pointer.\<close>

fun chain_at :: "(addr \<rightharpoonup> cell) \<Rightarrow> addr option \<Rightarrow> addr list \<Rightarrow> chain \<Rightarrow> bool" where
  "chain_at h p [] ns \<longleftrightarrow> p = None \<and> ns = []"
| "chain_at h p (a # as) ns \<longleftrightarrow>
     p = Some a \<and> a \<notin> set as \<and> (\<exists>n next ns'. h a = Some (Node n next) \<and> ns = n # ns' \<and> chain_at h next as ns')"

lemma chain_at_None [simp]: "chain_at h None as ns \<longleftrightarrow> as = [] \<and> ns = []"
  by (cases as) auto

lemma chain_at_Some:
  "chain_at h (Some a) as ns \<longleftrightarrow>
   (\<exists>bs n next ns'. as = a # bs \<and> a \<notin> set bs \<and> h a = Some (Node n next) \<and> ns = n # ns' \<and> chain_at h next bs ns')"
  by (cases as) auto

lemma chain_at_cong: "(\<And>a. a \<in> set as \<Longrightarrow> h a = h' a) \<Longrightarrow> chain_at h p as ns \<longleftrightarrow> chain_at h' p as ns"
  by (induction as arbitrary: p ns) auto

lemma chain_at_dom: "chain_at h p as ns \<Longrightarrow> set as \<subseteq> dom h"
  by (induction as arbitrary: p ns) auto

lemma chain_at_length: "chain_at h p as ns \<Longrightarrow> length as = length ns"
  by (induction as arbitrary: p ns) auto

lemma chain_at_upd:
  "a \<notin> set as \<Longrightarrow> chain_at (h(a := b)) p as ns \<longleftrightarrow> chain_at h p as ns"
  "a \<notin> set as \<Longrightarrow> chain_at (\<lambda>x. if x = a then b else h x) p as ns \<longleftrightarrow> chain_at h p as ns"
  by (rule chain_at_cong; auto)+

lemma chain_at_blocks:
  "chain_at h p as ns \<Longrightarrow> chain_at h' p as ns \<Longrightarrow> a \<in> set as \<Longrightarrow> h a = h' a"
proof (induction as arbitrary: p ns)
  case (Cons b bs)
  then obtain n q ns' q' where
    h: "h b = Some (Node n q)" "h' b = Some (Node n q')" "chain_at h q bs ns'" "chain_at h' q' bs ns'"
    by auto
  then have "q = q'" by (cases bs) auto
  then show ?case using Cons h by auto
qed simp

lemma chain_at_append:
  "chain_at h p as ns \<Longrightarrow> as \<noteq> [] \<Longrightarrow> chain_at h (Some r) bs ms \<Longrightarrow> set as \<inter> set bs = {} \<Longrightarrow>
   h (last as) = Some (Node (last ns) None) \<and>
   chain_at (h(last as \<mapsto> Node (last ns) (Some r))) p (as @ bs) (ns @ ms)"
proof (induction as arbitrary: p ns)
  case (Cons a as)
  then obtain n q ns' where a: "p = Some a" "a \<notin> set as" "h a = Some (Node n q)" "ns = n # ns'" "chain_at h q as ns'"
    by auto
  show ?case
  proof (cases as)
    case Nil
    then show ?thesis using a Cons.prems by (auto simp: chain_at_upd)
  next
    case (Cons b cs)
    then have l: "last as \<in> set as" "ns' \<noteq> []" using a by auto
    then have "last as \<noteq> a" using a by metis
    with Cons.IH [OF a(5)] Cons.prems a l show ?thesis by (auto simp: Cons)
  qed
qed simp

text \<open>The chain is all of the memory apart from \<open>F\<close>.\<close>

definition chain_in :: "memory \<Rightarrow> addr \<Rightarrow> addr list \<Rightarrow> chain \<Rightarrow> (addr \<rightharpoonup> cell) \<Rightarrow> bool" where
  "chain_in m p as ns F \<longleftrightarrow> memory_ok m \<and> chain_at (blocks m) (Some p) as ns \<and> F = blocks m |` (- set as)"

lemma chain_inD:
  assumes "chain_in m p as ns F"
  shows "memory_ok m" "chain_at (blocks m) (Some p) as ns" "blocks m |` (- set as) = F" "set as \<inter> dom F = {}" "as \<noteq> []"
    "\<And>a. a \<notin> set as \<Longrightarrow> blocks m a = F a" "F (unused m) = None"
  using assms by (auto simp: chain_in_def memory_ok_def restrict_map_def)

text \<open>A chain with its addresses and its surroundings is the whole memory.\<close>

lemma chain_in_unique: "chain_in m p as ns F \<Longrightarrow> chain_in m' p as ns F \<Longrightarrow> blocks m = blocks m'"
  using chain_at_blocks [of "blocks m" "Some p" as ns "blocks m'"] chain_inD
  by (intro ext) metis

lemma create_chain:
  "memory_ok m \<Longrightarrow> heap_permchain_create m = (a, m') \<Longrightarrow> chain_in m' a [a] permchain_create (blocks m)"
  by (auto simp: heap_permchain_create_def malloc_def chain_in_def memory_ok_def permchain_create_def restrict_map_def fun_eq_iff)

lemma malloc_frame:
  assumes "chain_in m p as ns F" and "malloc b m = (a, m')"
  shows "chain_in m' p as ns (F(a \<mapsto> b))" "F a = None" "memory_ok m'"
proof -
  have a: "a = unused m" "blocks m' = (blocks m)(a \<mapsto> b)" "unused m' = Suc a" using assms(2) by (auto simp: malloc_def)
  have "a \<notin> set as" using chain_at_dom [OF chain_inD(2) [OF assms(1)]] chain_inD(1) [OF assms(1)] a(1) by (auto simp: memory_ok_def)
  then have "chain_at (blocks m') (Some p) as ns" "F(a \<mapsto> b) = blocks m' |` (- set as)"
    using assms(1) by (auto simp: a(2) chain_in_def chain_at_upd restrict_map_def fun_eq_iff)
  moreover show "memory_ok m'" "F a = None"
    using chain_inD(1,7) [OF assms(1)] a by (auto simp: memory_ok_def)
  ultimately show "chain_in m' p as ns (F(a \<mapsto> b))" by (simp add: chain_in_def)
qed

lemma free_frame:
  assumes "chain_in m p as ns F" and "F a \<noteq> None"
  shows "\<exists>m'. free (Some a) m = Some m' \<and> chain_in m' p as ns (F(a := None))"
proof -
  have a: "a \<notin> set as" using assms chain_inD(4) by blast
  then have "blocks m a \<noteq> None" using assms chain_inD(6) by metis
  then show ?thesis
    using assms(1) a by (auto simp: free_def chain_in_def memory_ok_def chain_at_upd restrict_map_def fun_eq_iff)
qed

lemma store_node:
  assumes "chain_in m p [p] [n] F"
  shows "\<exists>m'. store p (Node n' None) m = Some m' \<and> chain_in m' p [p] [n'] F"
  using assms by (auto simp: store_def chain_in_def memory_ok_def restrict_map_def fun_eq_iff)

lemma heap_cat_steps:
  "chain_at (blocks m) (Some l) as ns \<Longrightarrow> heap_permchain_cat l r m = store (last as) (Node (last ns) (Some r)) m"
proof (induction as arbitrary: l ns)
  case (Cons a as)
  then obtain n q ns' where a: "a = l" "blocks m l = Some (Node n q)" "ns = n # ns'" "chain_at (blocks m) q as ns'" by auto
  show ?case
  proof (cases q)
    case None
    then show ?thesis using a by (simp add: heap_permchain_cat.simps [of l] read_node_def)
  next
    case (Some b)
    then have "as \<noteq> []" "ns' \<noteq> []" using a(4) by (auto simp: chain_at_Some)
    then show ?thesis using a Some Cons.IH [of b ns'] by (simp add: heap_permchain_cat.simps [of l] read_node_def)
  qed
qed simp

lemma cat_chains:
  assumes "chain_in m r bs ms F" and "chain_at F (Some l) as ns"
  shows "\<exists>m'. heap_permchain_cat l r m = Some m' \<and> chain_in m' l (as @ bs) (ns @ ms) (F |` (- set as))"
proof -
  note m = chain_inD [OF assms(1)]
  have disj: "set as \<inter> set bs = {}" using chain_at_dom [OF assms(2)] m(4) by blast
  have l: "chain_at (blocks m) (Some l) as ns"
    using assms(2) disj m(6) by (subst chain_at_cong [of _ _ F]) auto
  have ne: "as \<noteq> []" using assms(2) by auto
  from chain_at_append [OF l ne m(2) disj] have last: "blocks m (last as) \<noteq> None"
    and chain: "chain_at ((blocks m)(last as \<mapsto> Node (last ns) (Some r))) (Some l) (as @ bs) (ns @ ms)" by simp_all
  have "last as \<in> set as" using ne by simp
  then have "((blocks m)(last as \<mapsto> Node (last ns) (Some r))) |` (- set (as @ bs)) = F |` (- set as)"
    using m(3) [symmetric] by (auto simp: restrict_map_def fun_eq_iff)
  then show ?thesis
    using heap_cat_steps [OF l] last chain m(1) by (auto simp: store_def chain_in_def memory_ok_def)
qed

lemma destroy_steps:
  "chain_at (blocks m) p as ns \<Longrightarrow> heap_permchain_destroy p m = Some (m\<lparr>blocks := blocks m |` (- set as)\<rparr>)"
proof (induction as arbitrary: p ns m)
  case Nil
  then show ?case by (simp add: heap_permchain_destroy.simps restrict_map_def)
next
  case (Cons a as)
  then obtain n q ns' where a: "p = Some a" "a \<notin> set as" "blocks m a = Some (Node n q)" "chain_at (blocks m) q as ns'" by auto
  let ?m = "m\<lparr>blocks := (blocks m)(a := None)\<rparr>"
  have "heap_permchain_destroy q ?m = Some (?m\<lparr>blocks := blocks ?m |` (- set as)\<rparr>)"
    using a by (intro Cons.IH [of ?m q ns']) (simp add: chain_at_upd)
  moreover have "blocks ?m |` (- set as) = blocks m |` (- set (a # as))" by (auto simp: restrict_map_def fun_eq_iff)
  ultimately show ?case
    using a by (simp add: heap_permchain_destroy.simps [of "Some a"] read_node_def free_def)
qed

lemma destroy_chain:
  "chain_in m p as ns F \<Longrightarrow> \<exists>m'. heap_permchain_destroy (Some p) m = Some m' \<and> blocks m' = F \<and> memory_ok m'"
  using destroy_steps [of m "Some p" as ns] by (auto simp: chain_in_def memory_ok_def restrict_map_def)

section \<open>The operations refine those on lists\<close>

text \<open>
  What it means for an operation that extends a chain and returns a status to behave like the operation \<open>f\<close>
  on the list of nodes: it succeeds, the new nodes are the only thing allocated, and nothing else changed.
\<close>

definition extends_chain :: "(addr \<Rightarrow> memory \<Rightarrow> (int \<times> memory) option) \<Rightarrow> (chain \<Rightarrow> int \<times> chain) \<Rightarrow> bool" where
  "extends_chain op f \<longleftrightarrow>
     (\<forall>m p as ns F. chain_in m p as ns F \<longrightarrow>
        (\<exists>m' bs. op p m = Some (fst (f ns), m') \<and> chain_in m' p (as @ bs) (snd (f ns)) F))"

lemma extends_chainI:
  "(\<And>m p as ns F. chain_in m p as ns F \<Longrightarrow>
      \<exists>m' bs. op p m = Some (fst (f ns), m') \<and> chain_in m' p (as @ bs) (snd (f ns)) F) \<Longrightarrow> extends_chain op f"
  by (simp add: extends_chain_def)

lemma extends_chainE:
  assumes "extends_chain op f" and "chain_in m p as ns F"
  obtains m' bs where "op p m = Some (fst (f ns), m')" "chain_in m' p (as @ bs) (snd (f ns)) F"
  using assms unfolding extends_chain_def by blast

lemma chain_in_same_blocks: "chain_in m p as ns F \<Longrightarrow> memory_ok m' \<Longrightarrow> blocks m' = blocks m \<Longrightarrow> chain_in m' p as ns F"
  by (simp add: chain_in_def)

lemma add_node:
  assumes m: "chain_in m p as ns F" and new: "chain_in m' r bs ms (blocks m)"
  shows "\<exists>m''. heap_permchain_cat p r m' = Some m'' \<and> chain_in m'' p (as @ bs) (ns @ ms) F"
  using cat_chains [OF new chain_inD(2) [OF m]] chain_inD(3) [OF m] by simp

text \<open>The steps both kinds of rules share: a buffer, a new node, which is dropped or linked in.\<close>

lemma new_node:
  assumes "chain_in m p as ns F" and "malloc Bytes m = (buf, m1)" and "heap_permchain_create m1 = (r, m2)"
  shows "chain_in m1 p as ns (F(buf \<mapsto> Bytes))" "F(buf := None) = F" "chain_in m2 r [r] [permchain_node] (blocks m1)"
  using malloc_frame [OF assms(1,2)] create_chain [OF _ assms(3)] by (auto simp: permchain_create_def fun_eq_iff)

lemma free_buffer:
  "chain_in m p as ns (F(buf \<mapsto> Bytes)) \<Longrightarrow> F(buf := None) = F \<Longrightarrow> \<exists>m'. free (Some buf) m = Some m' \<and> chain_in m' p as ns F"
  using free_frame [of m p as ns "F(buf \<mapsto> Bytes)" buf] by simp

lemma heap_add_chmod_rule_refines: "extends_chain (heap_add_chmod_rule rule) (add_chmod_rule_to_permchain rule)"
proof (rule extends_chainI)
  fix m p as ns F
  assume m: "chain_in m p as ns F"
  obtain buf m1 where m1: "malloc Bytes m = (buf, m1)" by fastforce
  obtain r m2 where m2: "heap_permchain_create m1 = (r, m2)" by fastforce
  note new = new_node [OF m m1 m2]
  show "\<exists>m' bs. heap_add_chmod_rule rule p m = Some (fst (add_chmod_rule_to_permchain rule ns), m')
      \<and> chain_in m' p (as @ bs) (snd (add_chmod_rule_to_permchain rule ns)) F"
  proof (cases "chmod_rule_loop True LHS rule (permchain_node\<lparr>pc_flags := 0\<rparr>)")
    case None
    obtain m3 where m3: "heap_permchain_destroy (Some r) m2 = Some m3" "blocks m3 = blocks m1" "memory_ok m3"
      using destroy_chain [OF new(3)] by blast
    from free_buffer [OF chain_in_same_blocks [OF new(1) m3(3,2)] new(2)] show ?thesis
      using None m1 m2 m3 by (auto simp: heap_add_chmod_rule_def add_chmod_rule_to_permchain_def intro!: exI [of _ "[]"])
  next
    case (Some n)
    let ?n = "if pc_flags n = 0 then n\<lparr>pc_flags := PC_FLAGS_DEFAULT\<rparr> else n"
    obtain m3 where m3: "store r (Node ?n None) m2 = Some m3" "chain_in m3 r [r] [?n] (blocks m1)"
      using store_node [OF new(3)] by blast
    obtain m4 where m4: "heap_permchain_cat p r m3 = Some m4" "chain_in m4 p (as @ [r]) (ns @ [?n]) (F(buf \<mapsto> Bytes))"
      using add_node [OF new(1) m3(2)] by blast
    from free_buffer [OF m4(2) new(2)] show ?thesis
      using Some m1 m2 m3 m4 by (auto simp: heap_add_chmod_rule_def add_chmod_rule_to_permchain_def intro!: exI [of _ "[r]"])
  qed
qed

lemma heap_add_octal_rule_refines: "extends_chain (heap_add_octal_rule rule) (add_octal_rule_to_permchain rule)"
proof (rule extends_chainI)
  fix m p as ns F
  assume m: "chain_in m p as ns F"
  obtain buf m1 where m1: "malloc Bytes m = (buf, m1)" by fastforce
  obtain r m2 where m2: "heap_permchain_create m1 = (r, m2)" by fastforce
  note new = new_node [OF m m1 m2]
  let ?mode = "fst (strtol 8 rule)"
  have "blocks m1 buf = Some Bytes" using m1 by (auto simp: malloc_def)
  then obtain m3 where m3: "free (Some buf) m2 = Some m3" "chain_in m3 r [r] [permchain_node] ((blocks m1)(buf := None))"
    using free_frame [OF new(3), of buf] by auto
  have b: "(blocks m1)(buf := None) = blocks m"
    using m1 chain_inD(1) [OF m] by (auto simp: malloc_def memory_ok_def fun_eq_iff)
  show "\<exists>m' bs. heap_add_octal_rule rule p m = Some (fst (add_octal_rule_to_permchain rule ns), m')
      \<and> chain_in m' p (as @ bs) (snd (add_octal_rule_to_permchain rule ns)) F"
  proof (cases "?mode < 0 \<or> ?mode > 0x1FF")
    case True
    obtain m4 where m4: "heap_permchain_destroy (Some r) m3 = Some m4" "blocks m4 = blocks m" "memory_ok m4"
      using destroy_chain [OF m3(2)] b by auto
    show ?thesis
      using True m1 m2 m3 m4 chain_in_same_blocks [OF m m4(3,2)]
      by (auto simp: heap_add_octal_rule_def add_octal_rule_to_permchain_def intro!: exI [of _ "[]"])
  next
    case False
    let ?n = "permchain_node\<lparr>pc_mask := o777, pc_op := CHR ''o'', pc_mode := As_octal (word_of_int ?mode)\<rparr>"
    obtain m4 where m4: "store r (Node ?n None) m3 = Some m4" "chain_in m4 r [r] [?n] (blocks m)"
      using store_node [OF m3(2)] b by metis
    from add_node [OF m m4(2)] show ?thesis
      using False m1 m2 m3 m4 by (auto simp: heap_add_octal_rule_def add_octal_rule_to_permchain_def intro!: exI [of _ "[r]"])
  qed
qed

lemma heap_rules_loop_refines: "extends_chain (heap_rules_loop rules) (chmod_rules_loop rules)"
proof (induction rules rule: length_induct)
  case (1 rules)
  let ?tok = "takeWhile (\<lambda>c. \<not> rule_delim c) rules" and ?endp = "dropWhile (\<lambda>c. \<not> rule_delim c) rules"
  have one: "extends_chain (\<lambda>p m. if isdigit (hd ?tok) then heap_add_octal_rule ?tok p m else heap_add_chmod_rule ?tok p m)
      (\<lambda>ns. if isdigit (hd ?tok) then add_octal_rule_to_permchain ?tok ns else add_chmod_rule_to_permchain ?tok ns)"
    using heap_add_octal_rule_refines heap_add_chmod_rule_refines by (cases "isdigit (hd ?tok)") simp_all
  show ?case
  proof (rule extends_chainI)
    fix m p as ns F
    assume m: "chain_in m p as ns F"
    show "\<exists>m' bs. heap_rules_loop rules p m = Some (fst (chmod_rules_loop rules ns), m')
        \<and> chain_in m' p (as @ bs) (snd (chmod_rules_loop rules ns)) F"
    proof (cases "rules = [] \<or> ?tok = []")
      case True
      then show ?thesis
        using m by (intro exI [of _ m] exI [of _ "[]"]) (auto simp: heap_rules_loop.simps chmod_rules_loop.simps)
    next
      case False
      let ?f = "if isdigit (hd ?tok) then add_octal_rule_to_permchain ?tok ns else add_chmod_rule_to_permchain ?tok ns"
      obtain m1 bs where m1: "(if isdigit (hd ?tok) then heap_add_octal_rule ?tok p m else heap_add_chmod_rule ?tok p m)
            = Some (fst ?f, m1)" "chain_in m1 p (as @ bs) (snd ?f) F"
        by (rule extends_chainE [OF one m])
      show ?thesis
      proof (cases "fst ?f \<noteq> 0 \<or> ?endp = []")
        case True
        then show ?thesis
          using False m1 by (intro exI [of _ m1] exI [of _ bs])
            (auto simp: heap_rules_loop.simps [of rules] chmod_rules_loop.simps [of rules] Let_def split_beta simp del: dropWhile_eq_Nil_conv)
      next
        case more: False
        have "length (tl ?endp) < length rules" using False by (auto intro: length_tl_dropWhile simp del: length_tl)
        with "1.IH" have "extends_chain (heap_rules_loop (tl ?endp)) (chmod_rules_loop (tl ?endp))" by blast
        from this m1(2) obtain m2 cs where m2: "heap_rules_loop (tl ?endp) p m1 = Some (fst (chmod_rules_loop (tl ?endp) (snd ?f)), m2)"
            "chain_in m2 p ((as @ bs) @ cs) (snd (chmod_rules_loop (tl ?endp) (snd ?f))) F"
          by (rule extends_chainE)
        then show ?thesis
          using False more m1 by (intro exI [of _ m2] exI [of _ "bs @ cs"])
            (auto simp: heap_rules_loop.simps [of rules] chmod_rules_loop.simps [of rules] Let_def split_beta simp del: dropWhile_eq_Nil_conv)
      qed
    qed
  qed
qed

lemma heap_add_chmod_rules_refines: "extends_chain (heap_add_chmod_rules rules) (add_chmod_rules_to_permchain rules)"
proof (rule extends_chainI)
  fix m p as ns F
  assume m: "chain_in m p as ns F"
  obtain r m1 where m1: "heap_permchain_create m = (r, m1)" by fastforce
  have new: "chain_in m1 r [r] permchain_create (blocks m)" using create_chain [OF chain_inD(1) [OF m] m1] .
  let ?f = "chmod_rules_loop rules permchain_create"
  obtain m2 bs where m2: "heap_rules_loop rules r m1 = Some (fst ?f, m2)" "chain_in m2 r ([r] @ bs) (snd ?f) (blocks m)"
    by (rule extends_chainE [OF heap_rules_loop_refines new])
  show "\<exists>m' bs. heap_add_chmod_rules rules p m = Some (fst (add_chmod_rules_to_permchain rules ns), m')
      \<and> chain_in m' p (as @ bs) (snd (add_chmod_rules_to_permchain rules ns)) F"
  proof (cases "fst ?f = 0")
    case True
    from add_node [OF m m2(2)] show ?thesis
      using True m1 m2 by (auto simp: heap_add_chmod_rules_def add_chmod_rules_to_permchain_def split_beta intro!: exI [of _ "[r] @ bs"])
  next
    case False
    obtain m3 where m3: "heap_permchain_destroy (Some r) m2 = Some m3" "blocks m3 = blocks m" "memory_ok m3"
      using destroy_chain [OF m2(2)] by auto
    show ?thesis
      using False m1 m2 m3 chain_in_same_blocks [OF m m3(3,2)]
      by (auto simp: heap_add_chmod_rules_def add_chmod_rules_to_permchain_def split_beta intro!: exI [of _ "[]"])
  qed
qed

lemma heap_apply_steps:
  "chain_at (blocks m) pc as ns \<Longrightarrow> heap_apply_loop original_mode pc tgtmode m = permchain_apply_loop original_mode ns tgtmode"
proof (induction as arbitrary: pc ns tgtmode)
  case Nil
  then show ?case by (simp add: heap_apply_loop.simps)
next
  case (Cons a as)
  then obtain n q ns' where a: "pc = Some a" "blocks m a = Some (Node n q)" "ns = n # ns'" "chain_at (blocks m) q as ns'" by auto
  then show ?case
    using Cons.IH [OF a(4)] by (auto simp: heap_apply_loop.simps [of _ "Some a"] read_node_def split: option.split)
qed

section \<open>Properties\<close>

text \<open>
  C15. The permission rules in memory.  On a chain of linked nodes, \<^verbatim>\<open>add_chmod_rules_to_permchain\<close> ends without a
  bad memory access or double free, returns what the operation on lists returns, and leaves that list linked in
  memory; the nodes it has added to the chain are the only memory it leaves allocated and the rest of memory
  is as before, all of it when the rules are rejected.  \<^verbatim>\<open>permchain_apply\<close> follows the links to the same result
  as on lists, and \<^verbatim>\<open>permchain_destroy\<close> frees the chain and nothing else.
\<close>

theorem permchain_memory:
  assumes "memory_ok m" and "chain_at (blocks m) (Some p) as ns"
  shows "\<exists>m' bs m''. heap_add_chmod_rules rules p m = Some (fst (add_chmod_rules_to_permchain rules ns), m')
    \<and> memory_ok m' \<and> chain_at (blocks m') (Some p) (as @ bs) (snd (add_chmod_rules_to_permchain rules ns))
    \<and> blocks m' |` (- set (as @ bs)) = blocks m |` (- set as)
    \<and> (fst (add_chmod_rules_to_permchain rules ns) \<noteq> 0 \<longrightarrow> blocks m' = blocks m)
    \<and> heap_permchain_apply (Some p) mode m' = permchain_apply (snd (add_chmod_rules_to_permchain rules ns)) mode
    \<and> heap_permchain_destroy (Some p) m' = Some m'' \<and> blocks m'' = blocks m |` (- set as)"
proof -
  let ?f = "add_chmod_rules_to_permchain rules ns" and ?F = "blocks m |` (- set as)"
  have m: "chain_in m p as ns ?F" using assms by (simp add: chain_in_def)
  obtain m' bs where m': "heap_add_chmod_rules rules p m = Some (fst ?f, m')" "chain_in m' p (as @ bs) (snd ?f) ?F"
    by (rule extends_chainE [OF heap_add_chmod_rules_refines m])
  note c = chain_inD [OF m'(2)]
  have "blocks m' = blocks m" if "fst ?f \<noteq> 0"
  proof -
    have "snd ?f = ns" using that by (auto simp: add_chmod_rules_to_permchain_def split_beta)
    moreover have "length (as @ bs) = length (snd ?f)" "length as = length ns" using chain_at_length c(2) assms(2) by blast+
    ultimately have "bs = []" by simp
    then show ?thesis using chain_in_unique [of m' p as ns ?F m] m m'(2) \<open>snd ?f = ns\<close> by simp
  qed
  moreover have "heap_permchain_apply (Some p) mode m' = permchain_apply (snd ?f) mode"
    using heap_apply_steps [OF c(2)] by (simp add: heap_permchain_apply_def permchain_apply_def)
  moreover obtain m'' where "heap_permchain_destroy (Some p) m' = Some m''" "blocks m'' = ?F"
    using destroy_chain [OF m'(2)] by blast
  ultimately show ?thesis using m'(1) c(1-3) by blast
qed

text \<open>The example: a chain just created, in a memory with one other block.\<close>

definition example_memory :: memory where
  "example_memory = snd (heap_permchain_create (snd (malloc Bytes \<lparr>blocks = Map.empty, unused = 0\<rparr>)))"

theorem permchain_memory_witness:
  "\<exists>m' m''. heap_add_chmod_rules ''u+x,0640'' 1 example_memory = Some (0, m')
     \<and> heap_permchain_apply (Some 1) 0x1A4 m' = Some 0x1A0
     \<and> heap_permchain_destroy (Some 1) m' = Some m'' \<and> blocks m'' = [0 \<mapsto> Bytes]"
proof -
  have ok: "memory_ok example_memory" "chain_at (blocks example_memory) (Some 1) [1] permchain_create"
    by (simp_all add: example_memory_def heap_permchain_create_def malloc_def memory_ok_def permchain_create_def)
  have r: "fst (add_chmod_rules_to_permchain ''u+x,0640'' permchain_create) = 0"
    "permchain_apply (snd (add_chmod_rules_to_permchain ''u+x,0640'' permchain_create)) 0x1A4 = Some 0x1A0" by code_simp+
  have "blocks example_memory |` (- set [1]) = [0 \<mapsto> Bytes]"
    by (auto simp: example_memory_def heap_permchain_create_def malloc_def restrict_map_def fun_eq_iff)
  with permchain_memory [OF ok, of "''u+x,0640''" "0x1A4"] r show ?thesis by (metis (no_types))
qed

end
