(* ===== verification/Usermap.thy ===== *)
theory Usermap
  imports Prelude
begin

text \<open>
  \<^verbatim>\<open>src/usermap.c\<close>: the growable parallel arrays behind \<^verbatim>\<open>--map\<close>, one pair for users and one for
  groups.  The interface locale \<open>id_map\<close> states what the option parsers and the file handlers rely
  on; it is interpreted on the user half and on the group half of the record.
\<close>

section \<open>Model\<close>

text \<open>
  Sizes and capacities are \<^verbatim>\<open>int\<close> in C; they are naturals here, since the doubled capacity stays within \<^verbatim>\<open>int\<close> below 2^30 pairs.
\<close>

record UserMap =
  user_from :: "uid_t list"
  user_to :: "uid_t list"
  group_from :: "gid_t list"
  group_to :: "gid_t list"
  user_capacity :: nat
  group_capacity :: nat
  user_size :: nat
  group_size :: nat

datatype UsermapStatus = usermap_status_ok | usermap_status_duplicate_key

definition usermap_create :: UserMap where
  "usermap_create =
     \<lparr>user_from = [], user_to = [], group_from = [], group_to = [],
      user_capacity = 0, group_capacity = 0, user_size = 0, group_size = 0\<rparr>"

text \<open>
  \<^verbatim>\<open>realloc\<close> of an array to \<open>n\<close> cells.  The cells it adds are indeterminate in C; they are filled
  with 0 here, and no operation reads a cell at or above the size.
\<close>

definition realloc_ids :: "nat \<Rightarrow> 32 word list \<Rightarrow> 32 word list" where
  "realloc_ids n xs = take n xs @ replicate (n - length xs) 0"

function get_loop :: "32 word list \<Rightarrow> 32 word list \<Rightarrow> nat \<Rightarrow> nat \<Rightarrow> 32 word \<Rightarrow> 32 word \<Rightarrow> 32 word" where
  "get_loop from to n i u deflt =
     (if i < n then (if from ! i = u then to ! i else get_loop from to n (Suc i) u deflt)
      else deflt)"
  by pat_completeness auto
termination by (relation "measure (\<lambda>(from, to, n, i, u, d). n - i)") auto

declare get_loop.simps [simp del]

definition usermap_get_uid_or_default :: "UserMap \<Rightarrow> uid_t \<Rightarrow> uid_t \<Rightarrow> uid_t" where
  "usermap_get_uid_or_default mp u deflt =
     get_loop (user_from mp) (user_to mp) (user_size mp) 0 u deflt"

definition usermap_get_gid_or_default :: "UserMap \<Rightarrow> gid_t \<Rightarrow> gid_t \<Rightarrow> gid_t" where
  "usermap_get_gid_or_default mp g deflt =
     get_loop (group_from mp) (group_to mp) (group_size mp) 0 g deflt"

definition usermap_grow_uid :: "UserMap \<Rightarrow> UserMap" where
  "usermap_grow_uid mp =
     (if user_size mp = user_capacity mp then
        let cap = (if user_capacity mp = 0 then 8 else user_capacity mp * 2)
        in mp\<lparr>user_capacity := cap, user_from := realloc_ids cap (user_from mp),
               user_to := realloc_ids cap (user_to mp)\<rparr>
      else mp)"

definition usermap_add_uid :: "UserMap \<Rightarrow> uid_t \<Rightarrow> uid_t \<Rightarrow> UsermapStatus \<times> UserMap" where
  "usermap_add_uid mp0 from to =
     (if from = to then (usermap_status_ok, mp0)
      else let mp = usermap_grow_uid mp0
           in if usermap_get_uid_or_default mp from no_id \<noteq> no_id
              then (usermap_status_duplicate_key, mp)
              else let i = user_size mp
                   in (usermap_status_ok,
                       mp\<lparr>user_from := (user_from mp)[i := from],
                           user_to := (user_to mp)[i := to], user_size := user_size mp + 1\<rparr>))"

definition usermap_grow_gid :: "UserMap \<Rightarrow> UserMap" where
  "usermap_grow_gid mp =
     (if group_size mp = group_capacity mp then
        let cap = (if group_capacity mp = 0 then 8 else group_capacity mp * 2)
        in mp\<lparr>group_capacity := cap, group_from := realloc_ids cap (group_from mp),
               group_to := realloc_ids cap (group_to mp)\<rparr>
      else mp)"

definition usermap_add_gid :: "UserMap \<Rightarrow> gid_t \<Rightarrow> gid_t \<Rightarrow> UsermapStatus \<times> UserMap" where
  "usermap_add_gid mp0 from to =
     (if from = to then (usermap_status_ok, mp0)
      else let mp = usermap_grow_gid mp0
           in if usermap_get_gid_or_default mp from no_id \<noteq> no_id
              then (usermap_status_duplicate_key, mp)
              else let i = group_size mp
                   in (usermap_status_ok,
                       mp\<lparr>group_from := (group_from mp)[i := from],
                           group_to := (group_to mp)[i := to], group_size := group_size mp + 1\<rparr>))"

fun usermap_errorstr :: "UsermapStatus \<Rightarrow> string" where
  "usermap_errorstr usermap_status_ok = ''ok''"
| "usermap_errorstr usermap_status_duplicate_key = ''user mapped twice''"

section \<open>The interface\<close>

definition inverse_maps :: "(32 word \<rightharpoonup> 32 word) \<Rightarrow> (32 word \<rightharpoonup> 32 word) \<Rightarrow> bool" where
  "inverse_maps f r \<longleftrightarrow> (\<forall>k v. f k = Some v \<longleftrightarrow> r v = Some k)"

text \<open>
  The contract of one half of a user map: \<open>abs\<close> is the finite map it stands for, \<open>other\<close> the map of
  the other half, which the operations leave alone.
\<close>

locale id_map =
  fixes add :: "'m \<Rightarrow> 32 word \<Rightarrow> 32 word \<Rightarrow> UsermapStatus \<times> 'm"
    and get :: "'m \<Rightarrow> 32 word \<Rightarrow> 32 word \<Rightarrow> 32 word"
    and abs :: "'m \<Rightarrow> 32 word \<rightharpoonup> 32 word"
    and other :: "'m \<Rightarrow> 32 word \<rightharpoonup> 32 word"
    and invar :: "'m \<Rightarrow> bool"
    and empty :: 'm
  assumes invar_empty: "invar empty"
    and abs_empty: "abs empty = Map.empty"
    and get_abs: "invar m \<Longrightarrow> get m k d = (case abs m k of None \<Rightarrow> d | Some v \<Rightarrow> v)"
    and add_same: "add m k k = (usermap_status_ok, m)"
    and add_new: "invar m \<Longrightarrow> k \<noteq> v \<Longrightarrow> v \<noteq> no_id \<Longrightarrow> abs m k = None \<Longrightarrow>
      \<exists>m'. add m k v = (usermap_status_ok, m') \<and> invar m' \<and> abs m' = (abs m)(k \<mapsto> v) \<and> other m' = other m"
    and add_dup: "invar m \<Longrightarrow> k \<noteq> v \<Longrightarrow> abs m k \<noteq> None \<Longrightarrow>
      \<exists>m'. add m k v = (usermap_status_duplicate_key, m') \<and> invar m' \<and> abs m' = abs m \<and> other m' = other m"
    and abs_proper: "invar m \<Longrightarrow> abs m k = Some v \<Longrightarrow> v \<noteq> k \<and> v \<noteq> no_id"
begin

lemma add_ok:
  assumes "invar m" and "add m k v = (usermap_status_ok, m')" and "v \<noteq> no_id"
  shows "invar m' \<and> abs m' = (if k = v then abs m else (abs m)(k \<mapsto> v)) \<and> other m' = other m
    \<and> (k = v \<or> abs m k = None)"
proof (cases "k = v")
  case True
  with assms add_same show ?thesis by auto
next
  case False
  show ?thesis
  proof (cases "abs m k = None")
    case True
    with add_new [OF assms(1) False assms(3) True] assms(2) False show ?thesis by auto
  next
    case notNone: False
    with add_dup [OF assms(1) False notNone] assms(2) show ?thesis by auto
  qed
qed

lemma add_not_ok:
  assumes "invar m" and "add m k v = (usermap_status_duplicate_key, m')" and "v \<noteq> no_id"
  shows "invar m' \<and> abs m' = abs m \<and> other m' = other m \<and> abs m k \<noteq> None"
proof -
  have kv: "k \<noteq> v" using assms(2) add_same by auto
  then have "abs m k \<noteq> None" using add_new [OF assms(1) kv assms(3)] assms(2) by auto
  with add_dup [OF assms(1) kv this] assms(2) show ?thesis by auto
qed

text \<open>
  The parsers add every pair to a map and the reversed pair to a second map.  The two maps stay
  each other's inverse.
\<close>

lemma add_both_inverse:
  assumes inv: "invar f" "invar r" and inverse: "inverse_maps (abs f) (abs r)"
    and "add f a b = (usermap_status_ok, f')" and "add r b a = (usermap_status_ok, r')"
    and "a \<noteq> no_id" "b \<noteq> no_id"
  shows "invar f' \<and> invar r' \<and> inverse_maps (abs f') (abs r') \<and> other f' = other f \<and> other r' = other r"
proof -
  from add_ok [OF inv(1) assms(4,7)] have f: "invar f'" "abs f' = (if a = b then abs f else (abs f)(a \<mapsto> b))"
      "a = b \<or> abs f a = None" "other f' = other f" by auto
  from add_ok [OF inv(2) assms(5,6)] have r: "invar r'" "abs r' = (if b = a then abs r else (abs r)(b \<mapsto> a))"
      "b = a \<or> abs r b = None" "other r' = other r" by auto
  have "abs f' k = Some v \<longleftrightarrow> abs r' v = Some k" for k v
  proof (cases "a = b")
    case True
    then show ?thesis using f r inverse by (simp add: inverse_maps_def)
  next
    case False
    then have none: "abs f a = None" "abs r b = None" using f r by auto
    then have "abs r v \<noteq> Some a" "abs f k \<noteq> Some b" using inverse unfolding inverse_maps_def by (metis option.distinct(1))+
    then show ?thesis using False f(2) r(2) inverse by (auto simp: inverse_maps_def)
  qed
  with f r show ?thesis unfolding inverse_maps_def by blast
qed

lemma get_inverse:
  assumes "invar f" "invar r" "inverse_maps (abs f) (abs r)" and "abs f k \<noteq> None"
  shows "get r (get f k d) d' = k"
proof -
  obtain v where "abs f k = Some v" using assms(4) by blast
  moreover from this have "abs r v = Some k" using assms(3) by (simp add: inverse_maps_def)
  ultimately show ?thesis using assms(1,2) by (simp add: get_abs)
qed

end

text \<open>
  The arrays themselves: whatever is added, the writes stay within the allocated cells, and stored
  targets are never lost.  As \<open>no_id\<close> marks a missing entry, the map property holds as long as it is
  not itself a target.
\<close>

locale growing_id_map = id_map +
  fixes bounds :: "'a \<Rightarrow> bool"
    and targets :: "'a \<Rightarrow> 32 word set"
  assumes add_grows: "bounds m \<Longrightarrow> add m k v = (st, m') \<Longrightarrow>
    bounds m' \<and> targets m \<subseteq> targets m' \<and> (st = usermap_status_ok \<longrightarrow> k = v \<or> v \<in> targets m')"
begin

lemma add_both_keeps:
  assumes "bounds f" "bounds r"
    and ok: "no_id \<notin> targets f \<union> targets r \<Longrightarrow>
      invar f \<and> invar r \<and> inverse_maps (abs f) (abs r) \<and> inverse_maps (other f) (other r)"
    and f': "add f a b = (usermap_status_ok, f')" and r': "add r b a = (usermap_status_ok, r')"
  shows "bounds f' \<and> bounds r' \<and> (no_id \<notin> targets f' \<union> targets r' \<longrightarrow>
      invar f' \<and> invar r' \<and> inverse_maps (abs f') (abs r') \<and> inverse_maps (other f') (other r'))"
proof (cases "a = b")
  case True
  then show ?thesis using assms add_same by auto
next
  case False
  note g = add_grows [OF assms(1) f'] add_grows [OF assms(2) r']
  have "invar f' \<and> invar r' \<and> inverse_maps (abs f') (abs r') \<and> inverse_maps (other f') (other r')"
    if n: "no_id \<notin> targets f' \<union> targets r'"
  proof -
    have "a \<noteq> no_id" "b \<noteq> no_id" using g n False by auto
    moreover have o: "invar f" "invar r" "inverse_maps (abs f) (abs r)" "inverse_maps (other f) (other r)"
      using g n ok by auto
    ultimately show ?thesis using add_both_inverse [OF o(1-3) f' r'] by simp
  qed
  then show ?thesis using g by blast
qed

end

section \<open>The two halves satisfy the interface\<close>

definition ids_abs :: "32 word list \<Rightarrow> 32 word list \<Rightarrow> nat \<Rightarrow> 32 word \<rightharpoonup> 32 word" where
  "ids_abs from to n = map_of (zip (take n from) (take n to))"

definition ids_ok :: "32 word list \<Rightarrow> 32 word list \<Rightarrow> nat \<Rightarrow> nat \<Rightarrow> bool" where
  "ids_ok from to cap n \<longleftrightarrow>
     n \<le> cap \<and> length from = cap \<and> length to = cap \<and> distinct (take n from)
     \<and> list_all2 (\<lambda>a b. b \<noteq> a \<and> b \<noteq> no_id) (take n from) (take n to)"

definition user_abs :: "UserMap \<Rightarrow> uid_t \<rightharpoonup> uid_t" where
  "user_abs m = ids_abs (user_from m) (user_to m) (user_size m)"

definition group_abs :: "UserMap \<Rightarrow> gid_t \<rightharpoonup> gid_t" where
  "group_abs m = ids_abs (group_from m) (group_to m) (group_size m)"

definition usermap_ok :: "UserMap \<Rightarrow> bool" where
  "usermap_ok m \<longleftrightarrow>
     ids_ok (user_from m) (user_to m) (user_capacity m) (user_size m)
     \<and> ids_ok (group_from m) (group_to m) (group_capacity m) (group_size m)"

lemma get_loop_ids_abs:
  assumes "n \<le> length from" and "n \<le> length to" and "i \<le> n"
  shows "get_loop from to n i u d =
    (case map_of (zip (drop i (take n from)) (drop i (take n to))) u of None \<Rightarrow> d | Some v \<Rightarrow> v)"
  using assms
proof (induction "from" to n i u d rule: get_loop.induct)
  case (1 "from" to n i u d)
  show ?case
  proof (cases "i < n")
    case True
    then have "drop i (take n from) = from ! i # drop (Suc i) (take n from)"
      "drop i (take n to) = to ! i # drop (Suc i) (take n to)"
      using "1.prems" by (metis Cons_nth_drop_Suc length_take min.absorb2 nth_take)+
    then show ?thesis using 1 True by (simp add: get_loop.simps [of "from" to n i])
  next
    case False
    then show ?thesis using "1.prems" by (simp add: get_loop.simps)
  qed
qed

lemma get_loop_abs:
  "ids_ok from to cap n \<Longrightarrow>
   get_loop from to n 0 u d = (case ids_abs from to n u of None \<Rightarrow> d | Some v \<Rightarrow> v)"
  using get_loop_ids_abs [of n "from" to 0 u d] by (simp add: ids_ok_def ids_abs_def)

lemma ids_abs_proper:
  "ids_ok from to cap n \<Longrightarrow> ids_abs from to n k = Some v \<Longrightarrow> v \<noteq> k \<and> v \<noteq> no_id"
  by (auto simp: ids_ok_def ids_abs_def list_all2_iff dest: map_of_SomeD)

lemma ids_grow:
  assumes "ids_ok from to cap n" and "cap \<le> cap'"
  shows "ids_ok (realloc_ids cap' from) (realloc_ids cap' to) cap' n
    \<and> ids_abs (realloc_ids cap' from) (realloc_ids cap' to) n = ids_abs from to n"
  using assms by (auto simp: ids_ok_def ids_abs_def realloc_ids_def)

lemma take_upd_Suc: "n < length xs \<Longrightarrow> take (Suc n) (xs[n := x]) = take n xs @ [x]"
  by (simp add: take_Suc_conv_app_nth)

lemma ids_append:
  assumes ok: "ids_ok from to cap n" and n: "n < cap" and new: "ids_abs from to n k = None"
    and v: "v \<noteq> k" "v \<noteq> no_id"
  shows "ids_ok (from[n := k]) (to[n := v]) cap (Suc n)
    \<and> ids_abs (from[n := k]) (to[n := v]) (Suc n) = (ids_abs from to n)(k \<mapsto> v)"
proof -
  have len: "length (take n from) = length (take n to)" "n < length from" "n < length to"
    using ok n by (simp_all add: ids_ok_def)
  have k: "k \<notin> set (take n from)"
    using new len(1) by (simp add: ids_abs_def map_of_eq_None_iff flip: set_map)
  then have "k \<notin> fst ` set (zip (take n from) (take n to))"
    using len(1) by (simp flip: set_map)
  then have "map_of (zip (take n from) (take n to) @ [(k, v)]) =
      (map_of (zip (take n from) (take n to)))(k \<mapsto> v)"
    by (rule map_of_snoc_new)
  moreover have "zip (take n from @ [k]) (take n to @ [v]) = zip (take n from) (take n to) @ [(k, v)]"
    using len(1) by simp
  ultimately have "ids_abs (from[n := k]) (to[n := v]) (Suc n) = (ids_abs from to n)(k \<mapsto> v)"
    by (simp only: ids_abs_def take_upd_Suc [OF len(2)] take_upd_Suc [OF len(3)])
  moreover have "ids_ok (from[n := k]) (to[n := v]) cap (Suc n)"
    using ok n v k len unfolding ids_ok_def
    by (simp add: take_upd_Suc list_all2_appendI)
  ultimately show ?thesis by blast
qed

lemma grow_uid_ok:
  assumes "usermap_ok m"
  shows "usermap_ok (usermap_grow_uid m) \<and> user_abs (usermap_grow_uid m) = user_abs m
    \<and> group_abs (usermap_grow_uid m) = group_abs m \<and> user_size (usermap_grow_uid m) = user_size m
    \<and> user_size (usermap_grow_uid m) < user_capacity (usermap_grow_uid m)"
proof -
  have ok: "ids_ok (user_from m) (user_to m) (user_capacity m) (user_size m)"
    using assms by (simp add: usermap_ok_def)
  then have "user_size m \<le> user_capacity m" by (simp add: ids_ok_def)
  with ids_grow [OF ok, of 8] ids_grow [OF ok, of "user_capacity m * 2"] assms show ?thesis
    by (auto simp: usermap_grow_uid_def Let_def usermap_ok_def user_abs_def group_abs_def)
qed

lemma grow_gid_ok:
  assumes "usermap_ok m"
  shows "usermap_ok (usermap_grow_gid m) \<and> group_abs (usermap_grow_gid m) = group_abs m
    \<and> user_abs (usermap_grow_gid m) = user_abs m \<and> group_size (usermap_grow_gid m) = group_size m
    \<and> group_size (usermap_grow_gid m) < group_capacity (usermap_grow_gid m)"
proof -
  have ok: "ids_ok (group_from m) (group_to m) (group_capacity m) (group_size m)"
    using assms by (simp add: usermap_ok_def)
  then have "group_size m \<le> group_capacity m" by (simp add: ids_ok_def)
  with ids_grow [OF ok, of 8] ids_grow [OF ok, of "group_capacity m * 2"] assms show ?thesis
    by (auto simp: usermap_grow_gid_def Let_def usermap_ok_def user_abs_def group_abs_def)
qed

lemma get_uid_abs:
  "usermap_ok m \<Longrightarrow>
   usermap_get_uid_or_default m k d = (case user_abs m k of None \<Rightarrow> d | Some v \<Rightarrow> v)"
  using get_loop_abs [of "user_from m" "user_to m" "user_capacity m" "user_size m"]
  by (simp add: usermap_get_uid_or_default_def user_abs_def usermap_ok_def)

lemma get_gid_abs:
  "usermap_ok m \<Longrightarrow>
   usermap_get_gid_or_default m k d = (case group_abs m k of None \<Rightarrow> d | Some v \<Rightarrow> v)"
  using get_loop_abs [of "group_from m" "group_to m" "group_capacity m" "group_size m"]
  by (simp add: usermap_get_gid_or_default_def group_abs_def usermap_ok_def)

lemma user_abs_proper: "usermap_ok m \<Longrightarrow> user_abs m k = Some v \<Longrightarrow> v \<noteq> k \<and> v \<noteq> no_id"
  unfolding usermap_ok_def user_abs_def by (blast dest: ids_abs_proper)

lemma group_abs_proper: "usermap_ok m \<Longrightarrow> group_abs m k = Some v \<Longrightarrow> v \<noteq> k \<and> v \<noteq> no_id"
  unfolding usermap_ok_def group_abs_def by (blast dest: ids_abs_proper)

lemma add_uid_new:
  assumes ok: "usermap_ok m" and kv: "k \<noteq> v" "v \<noteq> no_id" and new: "user_abs m k = None"
  shows "\<exists>m'. usermap_add_uid m k v = (usermap_status_ok, m') \<and> usermap_ok m'
    \<and> user_abs m' = (user_abs m)(k \<mapsto> v) \<and> group_abs m' = group_abs m"
proof -
  let ?g = "usermap_grow_uid m"
  note g = grow_uid_ok [OF ok]
  have "usermap_get_uid_or_default ?g k no_id = no_id" using g new by (simp add: get_uid_abs)
  moreover have "ids_ok ((user_from ?g)[user_size ?g := k]) ((user_to ?g)[user_size ?g := v])
      (user_capacity ?g) (Suc (user_size ?g))
    \<and> ids_abs ((user_from ?g)[user_size ?g := k]) ((user_to ?g)[user_size ?g := v])
      (Suc (user_size ?g)) = (user_abs ?g)(k \<mapsto> v)"
    unfolding user_abs_def
    by (rule ids_append) (use g new kv in \<open>auto simp: usermap_ok_def user_abs_def\<close>)
  ultimately show ?thesis
    using kv g by (auto simp: usermap_add_uid_def Let_def usermap_ok_def user_abs_def group_abs_def)
qed

lemma add_gid_new:
  assumes ok: "usermap_ok m" and kv: "k \<noteq> v" "v \<noteq> no_id" and new: "group_abs m k = None"
  shows "\<exists>m'. usermap_add_gid m k v = (usermap_status_ok, m') \<and> usermap_ok m'
    \<and> group_abs m' = (group_abs m)(k \<mapsto> v) \<and> user_abs m' = user_abs m"
proof -
  let ?g = "usermap_grow_gid m"
  note g = grow_gid_ok [OF ok]
  have "usermap_get_gid_or_default ?g k no_id = no_id" using g new by (simp add: get_gid_abs)
  moreover have "ids_ok ((group_from ?g)[group_size ?g := k]) ((group_to ?g)[group_size ?g := v])
      (group_capacity ?g) (Suc (group_size ?g))
    \<and> ids_abs ((group_from ?g)[group_size ?g := k]) ((group_to ?g)[group_size ?g := v])
      (Suc (group_size ?g)) = (group_abs ?g)(k \<mapsto> v)"
    unfolding group_abs_def
    by (rule ids_append) (use g new kv in \<open>auto simp: usermap_ok_def group_abs_def\<close>)
  ultimately show ?thesis
    using kv g by (auto simp: usermap_add_gid_def Let_def usermap_ok_def user_abs_def group_abs_def)
qed

lemma add_uid_dup:
  assumes ok: "usermap_ok m" and "k \<noteq> v" and dup: "user_abs m k \<noteq> None"
  shows "\<exists>m'. usermap_add_uid m k v = (usermap_status_duplicate_key, m') \<and> usermap_ok m'
    \<and> user_abs m' = user_abs m \<and> group_abs m' = group_abs m"
proof -
  note g = grow_uid_ok [OF ok]
  obtain w where w: "user_abs m k = Some w" using dup by blast
  then have "w \<noteq> no_id" using user_abs_proper [OF ok] by blast
  then have "usermap_get_uid_or_default (usermap_grow_uid m) k no_id \<noteq> no_id"
    using g w by (simp add: get_uid_abs)
  then show ?thesis using assms g by (simp add: usermap_add_uid_def Let_def)
qed

lemma add_gid_dup:
  assumes ok: "usermap_ok m" and "k \<noteq> v" and dup: "group_abs m k \<noteq> None"
  shows "\<exists>m'. usermap_add_gid m k v = (usermap_status_duplicate_key, m') \<and> usermap_ok m'
    \<and> group_abs m' = group_abs m \<and> user_abs m' = user_abs m"
proof -
  note g = grow_gid_ok [OF ok]
  obtain w where w: "group_abs m k = Some w" using dup by blast
  then have "w \<noteq> no_id" using group_abs_proper [OF ok] by blast
  then have "usermap_get_gid_or_default (usermap_grow_gid m) k no_id \<noteq> no_id"
    using g w by (simp add: get_gid_abs)
  then show ?thesis using assms g by (simp add: usermap_add_gid_def Let_def)
qed

lemma usermap_create_ok: "usermap_ok usermap_create"
  "user_abs usermap_create = Map.empty" "group_abs usermap_create = Map.empty"
  by (simp_all add: usermap_ok_def usermap_create_def ids_ok_def user_abs_def group_abs_def ids_abs_def)

interpretation uids: id_map usermap_add_uid usermap_get_uid_or_default user_abs group_abs usermap_ok
  usermap_create
  by unfold_locales
     (simp_all add: usermap_create_ok get_uid_abs add_uid_new add_uid_dup user_abs_proper,
      simp add: usermap_add_uid_def)

interpretation gids: id_map usermap_add_gid usermap_get_gid_or_default group_abs user_abs usermap_ok
  usermap_create
  by unfold_locales
     (simp_all add: usermap_create_ok get_gid_abs add_gid_new add_gid_dup group_abs_proper,
      simp add: usermap_add_gid_def)

definition usermap_bounds :: "UserMap \<Rightarrow> bool" where
  "usermap_bounds m \<longleftrightarrow>
     user_size m \<le> user_capacity m \<and> length (user_from m) = user_capacity m \<and> length (user_to m) = user_capacity m
     \<and> group_size m \<le> group_capacity m \<and> length (group_from m) = group_capacity m \<and> length (group_to m) = group_capacity m"

definition map_targets :: "UserMap \<Rightarrow> 32 word set" where
  "map_targets m = set (take (user_size m) (user_to m)) \<union> set (take (group_size m) (group_to m))"

lemma usermap_ok_bounds: "usermap_ok m \<Longrightarrow> usermap_bounds m"
  by (simp add: usermap_ok_def usermap_bounds_def ids_ok_def)

lemma take_realloc:
  "n \<le> length xs \<Longrightarrow> length xs \<le> cap \<Longrightarrow> take n (realloc_ids cap xs) = take n xs"
  "length xs \<le> cap \<Longrightarrow> length (realloc_ids cap xs) = cap"
  by (simp_all add: realloc_ids_def)

lemma grow_uid_bounds:
  "usermap_bounds m \<Longrightarrow> usermap_bounds (usermap_grow_uid m) \<and> map_targets (usermap_grow_uid m) = map_targets m
     \<and> user_size (usermap_grow_uid m) < user_capacity (usermap_grow_uid m)"
  by (auto simp: usermap_bounds_def usermap_grow_uid_def map_targets_def take_realloc Let_def)

lemma grow_gid_bounds:
  "usermap_bounds m \<Longrightarrow> usermap_bounds (usermap_grow_gid m) \<and> map_targets (usermap_grow_gid m) = map_targets m
     \<and> group_size (usermap_grow_gid m) < group_capacity (usermap_grow_gid m)"
  by (auto simp: usermap_bounds_def usermap_grow_gid_def map_targets_def take_realloc Let_def)

lemma add_uid_grows:
  assumes "usermap_bounds m" and "usermap_add_uid m k v = (st, m')"
  shows "usermap_bounds m' \<and> map_targets m \<subseteq> map_targets m' \<and> (st = usermap_status_ok \<longrightarrow> k = v \<or> v \<in> map_targets m')"
  using assms grow_uid_bounds [OF assms(1)]
  by (auto simp: usermap_add_uid_def Let_def usermap_bounds_def map_targets_def take_upd_Suc split: if_splits)

lemma add_gid_grows:
  assumes "usermap_bounds m" and "usermap_add_gid m k v = (st, m')"
  shows "usermap_bounds m' \<and> map_targets m \<subseteq> map_targets m' \<and> (st = usermap_status_ok \<longrightarrow> k = v \<or> v \<in> map_targets m')"
  using assms grow_gid_bounds [OF assms(1)]
  by (auto simp: usermap_add_gid_def Let_def usermap_bounds_def map_targets_def take_upd_Suc split: if_splits)

interpretation uids: growing_id_map usermap_add_uid usermap_get_uid_or_default user_abs group_abs usermap_ok
  usermap_create usermap_bounds map_targets
  by unfold_locales (rule add_uid_grows)

interpretation gids: growing_id_map usermap_add_gid usermap_get_gid_or_default group_abs user_abs usermap_ok
  usermap_create usermap_bounds map_targets
  by unfold_locales (rule add_gid_grows)

text \<open>The pair of maps bindfs keeps, one the reverse of the other.\<close>

definition maps_ok :: "UserMap \<Rightarrow> UserMap \<Rightarrow> bool" where
  "maps_ok f r \<longleftrightarrow> usermap_ok f \<and> usermap_ok r \<and> inverse_maps (user_abs f) (user_abs r)
     \<and> inverse_maps (group_abs f) (group_abs r)"

definition maps_kept :: "UserMap \<Rightarrow> UserMap \<Rightarrow> bool" where
  "maps_kept f r \<longleftrightarrow> usermap_bounds f \<and> usermap_bounds r
     \<and> (no_id \<notin> map_targets f \<union> map_targets r \<longrightarrow> maps_ok f r)"

lemma maps_kept_create: "maps_kept usermap_create usermap_create"
  using usermap_create_ok usermap_ok_bounds by (simp add: maps_kept_def maps_ok_def inverse_maps_def)

lemma maps_kept_sym: "maps_kept f r \<Longrightarrow> maps_kept r f"
  by (auto simp: maps_kept_def maps_ok_def inverse_maps_def)

lemma add_both_uid_kept:
  assumes "maps_kept f r" and "usermap_add_uid f a b = (usermap_status_ok, f')" and "usermap_add_uid r b a = (usermap_status_ok, r')"
  shows "maps_kept f' r'"
  using uids.add_both_keeps [of f r a b f' r'] assms by (auto simp: maps_kept_def maps_ok_def)

lemma add_both_gid_kept:
  assumes "maps_kept f r" and "usermap_add_gid f a b = (usermap_status_ok, f')" and "usermap_add_gid r b a = (usermap_status_ok, r')"
  shows "maps_kept f' r'"
  using gids.add_both_keeps [of f r a b f' r'] assms by (auto simp: maps_kept_def maps_ok_def)

section \<open>Properties\<close>

text \<open>The pairs stored in each half, in the order in which they were added.\<close>

definition user_pairs :: "UserMap \<Rightarrow> (uid_t \<times> uid_t) list" where
  "user_pairs m = zip (take (user_size m) (user_from m)) (take (user_size m) (user_to m))"

definition group_pairs :: "UserMap \<Rightarrow> (gid_t \<times> gid_t) list" where
  "group_pairs m = zip (take (group_size m) (group_from m)) (take (group_size m) (group_to m))"

lemma get_pairs:
  assumes "usermap_bounds m"
  shows "usermap_get_uid_or_default m u d = (case map_of (user_pairs m) u of None \<Rightarrow> d | Some v \<Rightarrow> v)"
    "usermap_get_gid_or_default m g d = (case map_of (group_pairs m) g of None \<Rightarrow> d | Some v \<Rightarrow> v)"
  using assms get_loop_ids_abs [of "user_size m" "user_from m" "user_to m" 0 u d]
    get_loop_ids_abs [of "group_size m" "group_from m" "group_to m" 0 g d]
  by (simp_all add: usermap_bounds_def usermap_get_uid_or_default_def usermap_get_gid_or_default_def user_pairs_def group_pairs_def)

lemma grow_uid_pairs:
  assumes "usermap_bounds m"
  shows "user_pairs (usermap_grow_uid m) = user_pairs m" "group_pairs (usermap_grow_uid m) = group_pairs m"
  using assms
  by (auto simp: usermap_bounds_def usermap_grow_uid_def user_pairs_def group_pairs_def take_realloc Let_def)

lemma append_uid_pairs:
  assumes "usermap_bounds m" and "user_size m < user_capacity m"
  shows "user_pairs (m\<lparr>user_from := (user_from m)[user_size m := a], user_to := (user_to m)[user_size m := b],
      user_size := user_size m + 1\<rparr>) = user_pairs m @ [(a, b)]"
  using assms by (simp add: usermap_bounds_def user_pairs_def take_upd_Suc)

lemma add_uid_pairs:
  assumes "usermap_bounds m"
  shows "usermap_add_uid m a b =
    (if a = b then (usermap_status_ok, m)
     else if \<exists>v. map_of (user_pairs m) a = Some v \<and> v \<noteq> no_id then (usermap_status_duplicate_key, usermap_grow_uid m)
     else (usermap_status_ok, snd (usermap_add_uid m a b)))"
    "a = b \<or> (\<exists>v. map_of (user_pairs m) a = Some v \<and> v \<noteq> no_id) \<or> user_pairs (snd (usermap_add_uid m a b)) = user_pairs m @ [(a, b)]"
    "group_pairs (snd (usermap_add_uid m a b)) = group_pairs m"
proof -
  note g = grow_uid_bounds [OF assms] grow_uid_pairs [OF assms]
  have get: "usermap_get_uid_or_default (usermap_grow_uid m) a no_id \<noteq> no_id
      \<longleftrightarrow> (\<exists>v. map_of (user_pairs m) a = Some v \<and> v \<noteq> no_id)"
    using g by (simp add: get_pairs split: option.split)
  show "usermap_add_uid m a b = (if a = b then (usermap_status_ok, m)
     else if \<exists>v. map_of (user_pairs m) a = Some v \<and> v \<noteq> no_id then (usermap_status_duplicate_key, usermap_grow_uid m)
     else (usermap_status_ok, snd (usermap_add_uid m a b)))"
    using get by (auto simp: usermap_add_uid_def Let_def)
  show "a = b \<or> (\<exists>v. map_of (user_pairs m) a = Some v \<and> v \<noteq> no_id) \<or> user_pairs (snd (usermap_add_uid m a b)) = user_pairs m @ [(a, b)]"
    using append_uid_pairs [of "usermap_grow_uid m" b a] g get by (auto simp: usermap_add_uid_def Let_def)
  show "group_pairs (snd (usermap_add_uid m a b)) = group_pairs m"
    using g by (simp add: usermap_add_uid_def Let_def) (simp add: group_pairs_def)
qed

text \<open>
  C17. Adding a user pair to any map whose arrays are consistent keeps them so (the written cell lies within the allocated
  capacity) and reports a duplicate exactly when the two ids differ and the first is already mapped to something other than
  \<^verbatim>\<open>(uid_t)-1\<close>, which the code takes for "not found"; then the stored pairs stay as they are.  Otherwise the pair is appended (if
  its ids differ), and the only lookup that changes is the one of a user that had no pair before, which now gives the new
  target; a user mapped to \<^verbatim>\<open>(uid_t)-1\<close> stays mapped to it.  Group pairs and lookups are unaffected.
\<close>

theorem usermap_add_uid_correct:
  assumes bounds: "usermap_bounds m" and add: "usermap_add_uid m a b = (st, m')"
  shows "usermap_bounds m'
    \<and> (st = usermap_status_duplicate_key \<longleftrightarrow> a \<noteq> b \<and> (\<exists>v. map_of (user_pairs m) a = Some v \<and> v \<noteq> no_id))
    \<and> user_pairs m' = user_pairs m @ (if st = usermap_status_ok \<and> a \<noteq> b then [(a, b)] else [])
    \<and> usermap_get_uid_or_default m' u d =
        (if st = usermap_status_ok \<and> a \<noteq> b \<and> u = a \<and> a \<notin> fst ` set (user_pairs m) then b else usermap_get_uid_or_default m u d)
    \<and> group_pairs m' = group_pairs m
    \<and> usermap_get_gid_or_default m' g d = usermap_get_gid_or_default m g d"
proof -
  note p = add_uid_pairs [OF bounds, of a b, unfolded add]
  have m': "usermap_bounds m'" using add_uid_grows [OF bounds add] by simp
  have dup: "st = usermap_status_duplicate_key \<longleftrightarrow> a \<noteq> b \<and> (\<exists>v. map_of (user_pairs m) a = Some v \<and> v \<noteq> no_id)"
    using p(1) by (auto split: if_splits)
  have pairs: "user_pairs m' = user_pairs m @ (if st = usermap_status_ok \<and> a \<noteq> b then [(a, b)] else [])"
    using p(1,2) grow_uid_pairs [OF bounds] by (auto split: if_splits)
  have "usermap_get_uid_or_default m' u d =
      (if st = usermap_status_ok \<and> a \<noteq> b \<and> u = a \<and> a \<notin> fst ` set (user_pairs m) then b else usermap_get_uid_or_default m u d)"
  proof (cases "map_of (user_pairs m) u")
    case None
    then have "u \<notin> fst ` set (user_pairs m)" by (simp add: map_of_eq_None_iff)
    with None show ?thesis unfolding get_pairs(1) [OF bounds] get_pairs(1) [OF m'] pairs by (auto simp: map_add_def)
  next
    case (Some v)
    then have "u \<in> fst ` set (user_pairs m)" by (metis map_of_eq_None_iff option.distinct(1))
    with Some show ?thesis unfolding get_pairs(1) [OF bounds] get_pairs(1) [OF m'] pairs by auto
  qed
  moreover have gids: "group_pairs m' = group_pairs m" using p(3) by simp
  moreover have "usermap_get_gid_or_default m' g d = usermap_get_gid_or_default m g d"
    unfolding get_pairs(2) [OF bounds] get_pairs(2) [OF m'] gids ..
  ultimately show ?thesis using m' dup pairs by blast
qed

theorem usermap_add_uid_correct_witness:
  "usermap_bounds usermap_create \<and> usermap_get_uid_or_default (snd (usermap_add_uid usermap_create 1000 2000)) 1000 7 = 2000"
proof -
  have b: "usermap_bounds usermap_create" by (rule usermap_ok_bounds) (rule usermap_create_ok)
  have "fst (usermap_add_uid usermap_create 1000 2000) = usermap_status_ok" by code_simp
  then have "usermap_add_uid usermap_create 1000 2000 = (usermap_status_ok, snd (usermap_add_uid usermap_create 1000 2000))"
    by (metis prod.collapse)
  from usermap_add_uid_correct [OF b this, of 1000 7] b show ?thesis by (auto simp: user_pairs_def usermap_create_def)
qed

text \<open>
  The value \<^verbatim>\<open>(uid_t)-1\<close> is used both as a possible target and as the "not found" marker of the
  duplicate check: a user mapped to it can be mapped again without an error, and the second mapping
  is stored but never found.
\<close>

lemma usermap_sentinel_target:
  assumes "a \<noteq> no_id" and "a \<noteq> b"
  shows "\<exists>m1 m2. usermap_add_uid usermap_create a no_id = (usermap_status_ok, m1)
    \<and> usermap_add_uid m1 a b = (usermap_status_ok, m2)
    \<and> user_size m2 = 2 \<and> usermap_get_uid_or_default m2 a d = no_id"
  using assms
  by (simp add: usermap_add_uid_def usermap_create_def usermap_grow_uid_def realloc_ids_def Let_def
      usermap_get_uid_or_default_def get_loop.simps numeral_eq_Suc)

lemma usermap_sentinel_target_example:
  "(1000 :: uid_t) \<noteq> no_id \<and> (1000 :: uid_t) \<noteq> 2000 \<and>
   usermap_get_uid_or_default
     (snd (usermap_add_uid (snd (usermap_add_uid usermap_create 1000 no_id)) 1000 2000)) 1000 7 = no_id"
  using usermap_sentinel_target [of 1000 2000 7] by auto

end
