(* ===== verification/Arena.thy ===== *)
theory Arena
  imports Prelude
begin

text \<open>
  \<^verbatim>\<open>src/arena.c\<close>: a bump allocator over a linked list of blocks.  An arena is the list of its blocks,
  the current one first; the address of a byte is the block's number (how many blocks are older) and
  the offset into its data, which begins behind the header.
\<close>

section \<open>Model\<close>

text \<open>\<open>blk_bytes\<close> is the number of bytes asked from \<^verbatim>\<open>malloc\<close>, header included; the other fields are those of the header.\<close>

record block =
  blk_bytes :: size_t
  blk_size :: size_t
  blk_used :: size_t

type_synonym arena = "block list"

text \<open>\<^verbatim>\<open>sizeof(struct block)\<close> with eight-byte sizes and pointers.\<close>

definition sizeof_block :: size_t where "sizeof_block = 24"

definition min_block_room :: size_t where
  "min_block_room = 16 * 1024 - sizeof_block"

definition add_block :: "arena \<Rightarrow> size_t \<Rightarrow> arena" where
  "add_block a room_wanted =
     (let room = (if room_wanted < min_block_room then min_block_room else room_wanted)
      in \<lparr>blk_bytes = sizeof_block + room, blk_size = room, blk_used = 0\<rparr> # a)"

definition arena_init :: arena where
  "arena_init = []"

type_synonym address = "nat \<times> size_t"

definition arena_malloc :: "arena \<Rightarrow> size_t \<Rightarrow> address \<times> arena" where
  "arena_malloc a amount =
     (let a' = (if a = [] \<or> blk_size (hd a) - blk_used (hd a) < amount then add_block a amount else a);
          b = hd a'
      in ((length (tl a'), blk_used b), b\<lparr>blk_used := blk_used b + amount\<rparr> # tl a'))"

text \<open>The blocks \<^verbatim>\<open>arena_free\<close> passes to \<^verbatim>\<open>free\<close>, in order, and the arena left behind.\<close>

fun arena_free_loop :: "arena \<Rightarrow> block list" where
  "arena_free_loop [] = []"
| "arena_free_loop (b # next) = b # arena_free_loop next"

definition arena_free :: "arena \<Rightarrow> block list \<times> arena" where
  "arena_free a = (arena_free_loop a, [])"

text \<open>A run of allocations: the regions handed out, the last one first.\<close>

type_synonym region = "nat \<times> nat \<times> nat"

fun arena_run :: "size_t list \<Rightarrow> region list \<times> arena \<Rightarrow> region list \<times> arena" where
  "arena_run [] st = st"
| "arena_run (n # ns) (rs, a) =
     (let ((k, off), a') = arena_malloc a n in arena_run ns ((k, unat off, unat n) # rs, a'))"

section \<open>Invariant\<close>

definition arena_ok :: "arena \<Rightarrow> bool" where
  "arena_ok a \<longleftrightarrow> list_all (\<lambda>b. blk_used b \<le> blk_size b) a"

definition regions_disjoint :: "region \<Rightarrow> region \<Rightarrow> bool" where
  "regions_disjoint r s \<longleftrightarrow>
     (case (r, s) of ((k, off, n), (k', off', n')) \<Rightarrow> k \<noteq> k' \<or> off + n \<le> off' \<or> off' + n' \<le> off)"

text \<open>Block number \<open>k\<close> of an arena.\<close>

definition block_no :: "arena \<Rightarrow> nat \<Rightarrow> block" where
  "block_no a k = rev a ! k"

definition run_ok :: "region list \<times> arena \<Rightarrow> bool" where
  "run_ok st \<longleftrightarrow>
     (case st of (rs, a) \<Rightarrow>
        arena_ok a
        \<and> list_all (\<lambda>(k, off, n). k < length a \<and> off + n \<le> unat (blk_used (block_no a k))) rs
        \<and> sorted_wrt regions_disjoint rs)"

lemma block_no_Cons [simp]:
  "block_no (b # a) (length a) = b"
  "k < length a \<Longrightarrow> block_no (b # a) k = block_no a k"
  by (simp_all add: block_no_def nth_append)

text \<open>The block \<^verbatim>\<open>arena_malloc\<close> carves from always has the room.\<close>

lemma arena_malloc_cases:
  assumes "arena_ok a"
  obtains b t where "arena_malloc a n = ((length t, blk_used b), b\<lparr>blk_used := blk_used b + n\<rparr> # t)"
    and "unat (blk_used b) + unat n \<le> unat (blk_size b)" and "arena_ok t"
    and "(b # t = a) \<or> (t = a \<and> blk_used b = 0)"
proof (cases "a = [] \<or> blk_size (hd a) - blk_used (hd a) < n")
  case True
  let ?room = "if n < min_block_room then min_block_room else n"
  let ?b = "\<lparr>blk_bytes = sizeof_block + ?room, blk_size = if n < min_block_room then min_block_room else n, blk_used = 0\<rparr>"
  have "n \<le> blk_size ?b" by auto
  then have "unat (blk_used ?b) + unat n \<le> unat (blk_size ?b)" by (simp add: word_le_nat_alt)
  moreover have "arena_malloc a n = ((length a, blk_used ?b), ?b\<lparr>blk_used := blk_used ?b + n\<rparr> # a)"
    using True by (auto simp: arena_malloc_def add_block_def Let_def)
  ultimately show ?thesis using that [of a ?b] assms by simp
next
  case False
  then obtain b t where a: "a = b # t" by (cases a) auto
  with assms have b: "blk_used b \<le> blk_size b" and t: "arena_ok t" by (auto simp: arena_ok_def)
  from False a have "unat n \<le> unat (blk_size b - blk_used b)" by (simp add: word_le_nat_alt not_less)
  also have "\<dots> = unat (blk_size b) - unat (blk_used b)" using b by (rule unat_sub)
  finally have "unat (blk_used b) + unat n \<le> unat (blk_size b)"
    using b by (simp add: word_le_nat_alt)
  moreover have "arena_malloc a n = ((length t, blk_used b), b\<lparr>blk_used := blk_used b + n\<rparr> # t)"
    using False a by (simp add: arena_malloc_def)
  ultimately show ?thesis using that a t by blast
qed

lemma arena_malloc_run_ok:
  assumes ok: "run_ok (rs, a)" and m: "arena_malloc a n = ((k, off), a')"
  shows "run_ok ((k, unat off, unat n) # rs, a')"
proof -
  from ok have a: "arena_ok a"
    and rs: "\<And>j o' m. (j, o', m) \<in> set rs \<Longrightarrow> j < length a \<and> o' + m \<le> unat (blk_used (block_no a j))"
    and disj: "sorted_wrt regions_disjoint rs"
    by (auto simp: run_ok_def list_all_iff)
  from a obtain b t where bt: "arena_malloc a n = ((length t, blk_used b), b\<lparr>blk_used := blk_used b + n\<rparr> # t)"
      "unat (blk_used b) + unat n \<le> unat (blk_size b)" "arena_ok t"
      and shape: "(b # t = a) \<or> (t = a \<and> blk_used b = 0)"
    by (rule arena_malloc_cases)
  let ?b = "b\<lparr>blk_used := blk_used b + n\<rparr>"
  have eqs: "k = length t" "off = blk_used b" "a' = ?b # t" using bt(1) m by auto
  have "unat (blk_size b) < 2 ^ LENGTH(64)" by (rule unsigned_less)
  with bt(2) have used: "unat (blk_used b + n) = unat (blk_used b) + unat n"
    by (subst unat_add_lem [symmetric]) linarith
  have ok': "arena_ok a'"
    using bt(2,3) used by (simp add: eqs arena_ok_def word_le_nat_alt)
  have old: "j < length a' \<and> o' + m \<le> unat (blk_used (block_no a' j))
      \<and> regions_disjoint (k, unat off, unat n) (j, o', m)" if "(j, o', m) \<in> set rs" for j o' m
  proof -
    from rs [OF that] have j: "j < length a" "o' + m \<le> unat (blk_used (block_no a j))" by auto
    from shape show ?thesis
    proof
      assume a: "b # t = a"
      show ?thesis
      proof (cases "j = length t")
        case True
        then show ?thesis using j used by (auto simp: eqs a [symmetric] regions_disjoint_def)
      next
        case False
        then have "j < length t" using j a by auto
        then show ?thesis using j by (auto simp: eqs a [symmetric] regions_disjoint_def)
      qed
    next
      assume "t = a \<and> blk_used b = 0"
      then show ?thesis using j by (auto simp: eqs regions_disjoint_def)
    qed
  qed
  then show ?thesis
    using ok' disj used by (auto simp: run_ok_def list_all_iff eqs)
qed

lemma arena_run_ok: "run_ok st \<Longrightarrow> run_ok (arena_run ns st)"
proof (induction ns st rule: arena_run.induct)
  case (2 n ns rs a)
  obtain k off a' where m: "arena_malloc a n = ((k, off), a')" by (metis surj_pair)
  with 2 show ?case by (simp add: arena_malloc_run_ok)
qed simp

lemma arena_run_sizes:
  "map (\<lambda>(k, off, n). n) (fst (arena_run ns (rs, a))) = rev (map unat ns) @ map (\<lambda>(k, off, n). n) rs"
proof (induction ns arbitrary: rs a)
  case (Cons n ns)
  obtain k off a' where "arena_malloc a n = ((k, off), a')" by (metis surj_pair)
  then show ?case using Cons.IH by simp
qed simp

text \<open>The memory of a block holds its header and its data, unless the sum for \<^verbatim>\<open>malloc\<close> wraps around.\<close>

definition block_fits :: "block \<Rightarrow> bool" where
  "block_fits b \<longleftrightarrow> unat sizeof_block + unat (blk_size b) = unat (blk_bytes b)"

lemma unat_size_less: "unat (n :: size_t) < 2 ^ 64"
proof -
  have "unat n < 2 ^ LENGTH(64)" by (rule unsigned_less)
  then show ?thesis by simp
qed

lemma unat_add_room:
  "unat (sizeof_block + room) = (if unat room < 2 ^ 64 - 24 then 24 + unat room else 24 + unat room - 2 ^ 64)"
proof -
  have "unat (sizeof_block + room) = (24 + unat room) mod 2 ^ 64" by (simp add: sizeof_block_def unat_word_ariths)
  also have "\<dots> = (if unat room < 2 ^ 64 - 24 then 24 + unat room else 24 + unat room - 2 ^ 64)"
    using unat_size_less [of room] by (auto simp: le_mod_geq)
  finally show ?thesis .
qed

lemma arena_malloc_fits:
  assumes "list_all block_fits a" and "unat n < 2 ^ 64 - 24"
  shows "list_all block_fits (snd (arena_malloc a n))"
proof -
  have "unat (min_block_room :: size_t) < 2 ^ 64 - 24" by (simp add: min_block_room_def sizeof_block_def)
  then have "block_fits \<lparr>blk_bytes = sizeof_block + (if n < min_block_room then min_block_room else n),
      blk_size = if n < min_block_room then min_block_room else n, blk_used = n\<rparr>"
    using assms(2) by (simp add: block_fits_def unat_add_room) (simp add: sizeof_block_def)
  moreover have "block_fits (hd a\<lparr>blk_used := m\<rparr>)" "list_all block_fits (tl a)" if "a \<noteq> []" for m
    using assms(1) that by (cases a; simp add: block_fits_def)+
  ultimately show ?thesis using assms(1) by (simp add: arena_malloc_def add_block_def Let_def)
qed

lemma arena_run_fits:
  "list_all block_fits (snd st) \<Longrightarrow> list_all (\<lambda>n. unat n < 2 ^ 64 - 24) ns \<Longrightarrow> list_all block_fits (snd (arena_run ns st))"
proof (induction ns st rule: arena_run.induct)
  case (2 n ns rs a)
  obtain k off a' where m: "arena_malloc a n = ((k, off), a')" by (metis surj_pair)
  then have "list_all block_fits a'" using arena_malloc_fits [of a n] 2 by simp
  with 2 m show ?case by simp
qed simp

lemma block_no_in: "k < length a \<Longrightarrow> block_no a k \<in> set a"
  unfolding block_no_def by (metis length_rev nth_mem set_rev)

text \<open>A request for nearly 2^64 bytes is the case in which the sum wraps: the block then does not even hold its header.\<close>

lemma arena_malloc_wraps:
  assumes "2 ^ 64 - 24 \<le> unat n" and "a = [] \<or> blk_size (hd a) - blk_used (hd a) < n"
  shows "blk_bytes (hd (snd (arena_malloc a n))) < sizeof_block"
proof -
  have "\<not> n < min_block_room" using assms(1) by (simp add: word_less_nat_alt min_block_room_def sizeof_block_def)
  then have "blk_bytes (hd (snd (arena_malloc a n))) = sizeof_block + n" using assms(2) by (auto simp: arena_malloc_def add_block_def)
  moreover have "unat (sizeof_block + n) < 24" using assms(1) unat_size_less [of n] by (simp add: unat_add_room)
  ultimately show ?thesis by (simp add: word_less_nat_alt) (simp add: sizeof_block_def)
qed

section \<open>Properties\<close>

text \<open>
  C29. Any sequence of allocations from a fresh arena, each of fewer than 2^64 - 24 bytes (so that the size given to \<^verbatim>\<open>malloc\<close>
  does not wrap around), hands out one region per request, of the requested length; every region lies behind the header
  and within the memory that \<^verbatim>\<open>malloc\<close> was asked for, and no two regions overlap.
\<close>

theorem arena_regions_disjoint:
  assumes "list_all (\<lambda>n. unat n < 2 ^ 64 - 24) ns"
  shows "case arena_run ns ([], arena_init) of (rs, a) \<Rightarrow>
     map (\<lambda>(k, off, n). n) rs = rev (map unat ns) \<and> sorted_wrt regions_disjoint rs
     \<and> list_all (\<lambda>(k, off, n). k < length a \<and> unat sizeof_block + off + n \<le> unat (blk_bytes (block_no a k))) rs"
proof -
  obtain rs a where run: "arena_run ns ([], arena_init) = (rs, a)" by fastforce
  have "run_ok ([], arena_init)" by (simp add: run_ok_def arena_ok_def arena_init_def)
  then have ok: "run_ok (rs, a)" using arena_run_ok [of "([], arena_init)" ns] run by simp
  have fits: "list_all block_fits a" using arena_run_fits [of "([], arena_init)" ns] assms run by (simp add: arena_init_def)
  have "unat sizeof_block + unat (blk_used (block_no a k)) \<le> unat (blk_bytes (block_no a k))" if "k < length a" for k
  proof -
    have "blk_used (block_no a k) \<le> blk_size (block_no a k)" "block_fits (block_no a k)"
      using block_no_in [OF that] ok fits by (auto simp: run_ok_def arena_ok_def list_all_iff)
    then show ?thesis by (simp add: block_fits_def word_le_nat_alt)
  qed
  then have "list_all (\<lambda>(k, off, n). k < length a \<and> unat sizeof_block + off + n \<le> unat (blk_bytes (block_no a k))) rs"
    using ok by (fastforce simp: run_ok_def list_all_iff)
  then show ?thesis
    using ok arena_run_sizes [of ns "[]" arena_init] by (simp add: run_ok_def run)
qed

theorem arena_regions_disjoint_witness:
  "case arena_run [100, 20000, 7] ([], arena_init) of (rs, a) \<Rightarrow>
     map (\<lambda>(k, off, n). n) rs = [7, 20000, 100] \<and> sorted_wrt regions_disjoint rs
     \<and> list_all (\<lambda>(k, off, n). k < length a \<and> unat sizeof_block + off + n \<le> unat (blk_bytes (block_no a k))) rs"
proof -
  have "list_all (\<lambda>n. unat n < 2 ^ 64 - 24) [100, 20000, 7 :: size_t]" by simp
  from arena_regions_disjoint [OF this] show ?thesis by (auto split: prod.splits)
qed

end
