(* ===== verification/Misc.thy ===== *)
theory Misc
  imports Complex_Main Arena "HOL-Library.Sublist"
begin

text \<open>
  \<^verbatim>\<open>src/misc.c\<close>: string counting and duplication, path helpers, the filter for \<^verbatim>\<open>-o\<close> options, byte
  counts and the growable memory block.  The allocations these functions make in an arena are those
  of theory \<open>Arena\<close>; the strings they build are values here.
\<close>

section \<open>Strings\<close>

fun count_chars :: "string \<Rightarrow> char \<Rightarrow> nat" where
  "count_chars [] ch = 0"
| "count_chars (c # s) ch = (if c = ch then 1 else 0) + count_chars s ch"

text \<open>The loop runs while strictly more characters are left than the substring has.\<close>

fun count_substrs :: "string \<Rightarrow> string \<Rightarrow> nat" where
  "count_substrs [] sub = 0"
| "count_substrs (c # s) sub =
     (if length (c # s) > length sub
      then (if strncmp_eq (c # s) sub (length sub) then 1 else 0) + count_substrs s sub
      else 0)"

definition strdup_until :: "string \<Rightarrow> string \<Rightarrow> string" where
  "strdup_until s endchars = takeWhile (\<lambda>c. c \<notin> set endchars) s"

text \<open>
  \<^verbatim>\<open>sprintf_new\<close>: \<open>out\<close> is the text \<^verbatim>\<open>vsnprintf\<close> formats.  The result is the text in the buffer, cut to
  the buffer's size less one as \<^verbatim>\<open>vsnprintf\<close> does, and the size of the buffer returned.  (The size
  starts at 32 or more, so the disjunct for 0 only makes the recursion total.)
\<close>

function sprintf_loop :: "nat \<Rightarrow> string \<Rightarrow> string \<times> nat" where
  "sprintf_loop buffer_size out =
     (if length out < buffer_size \<or> buffer_size = 0 then (take (buffer_size - 1) out, buffer_size)
      else sprintf_loop (buffer_size * 2) out)"
  by pat_completeness auto
termination by (relation "measure (\<lambda>(n, out). Suc (length out) - n)") auto

declare sprintf_loop.simps [simp del]

definition sprintf_new :: "string \<Rightarrow> string \<Rightarrow> string \<times> nat" where
  "sprintf_new format out = sprintf_loop (length format + 32) out"

section \<open>Paths\<close>

fun find_last_char_before :: "string \<Rightarrow> nat \<Rightarrow> char \<Rightarrow> nat option" where
  "find_last_char_before s 0 ch = None"
| "find_last_char_before s (Suc p) ch =
     (if s ! p = ch then Some p else find_last_char_before s p ch)"

text \<open>\<^verbatim>\<open>strrchr\<close> searches the whole string the same way.\<close>

definition strrchr :: "string \<Rightarrow> char \<Rightarrow> nat option" where
  "strrchr s c = find_last_char_before s (length s) c"

definition my_basename :: "string option \<Rightarrow> string option" where
  "my_basename path =
     (case path of
        None \<Rightarrow> None
      | Some s \<Rightarrow> (case strrchr s slash of None \<Rightarrow> Some s | Some p \<Rightarrow> Some (drop (p + 1) s)))"

fun dirname_scan :: "string \<Rightarrow> nat \<Rightarrow> nat" where
  "dirname_scan path 0 = 0"
| "dirname_scan path (Suc p) = (if path ! Suc p = slash then Suc p else dirname_scan path p)"

definition my_dirname :: "string \<Rightarrow> string" where
  "my_dirname path =
     (if path = ''.'' then ''..''
      else if path = ''/'' then ''/''
      else let p = dirname_scan path (length path - 1)
           in if p > 0 then take p path
              else if path \<noteq> [] \<and> hd path = slash then ''/'' else ''.'')"

fun strip_slashes :: "string \<Rightarrow> nat \<Rightarrow> nat" where
  "strip_slashes s 0 = 0"
| "strip_slashes s (Suc n) = (if s ! n = slash then strip_slashes s n else Suc n)"

definition path_starts_with :: "string \<Rightarrow> string \<Rightarrow> nat \<Rightarrow> bool" where
  "path_starts_with path pref prefix_len0 =
     (let prefix_len = strip_slashes pref prefix_len0;
          path_len = strip_slashes path (length path)
      in if strncmp_eq path pref prefix_len then
           let prefix_part = (case find_last_char_before pref prefix_len slash of
                                Some p \<Rightarrow> p + 1 | None \<Rightarrow> 0);
               prefix_part_len = prefix_len - prefix_part;
               path_part = prefix_part;
               rest = drop path_part path;
               path_part_len = (if slash \<in> set rest then length (takeWhile (\<lambda>c. c \<noteq> slash) rest)
                                else path_len - path_part)
           in prefix_part_len = path_part_len
         else False)"

section \<open>Filtering -o options\<close>

text \<open>Shifting \<open>argv[j+1..argc-1]\<close> one place down to \<open>argv[j]\<close>; the cell after the end is left.\<close>

definition argv_shift :: "nat \<Rightarrow> nat \<Rightarrow> string list \<Rightarrow> string list" where
  "argv_shift j argc argv =
     take j argv @ take (argc - 1 - j) (drop (j + 1) argv) @ drop (j + (argc - 1 - j)) argv"

function merge_o_args :: "nat \<Rightarrow> nat \<Rightarrow> string list \<Rightarrow> nat \<times> string list" where
  "merge_o_args i argc argv =
     (if i < argc then
        if argv ! i = ''-o'' then
          let argv' = (if i + 1 < argc
                       then argv_shift (i + 1) argc (argv[i := ''-o'' @ argv ! (i + 1)])
                       else argv)
          in merge_o_args (i + 1) (argc - 1) argv'
        else merge_o_args (i + 1) argc argv
      else (argc, argv))"
  by pat_completeness auto
termination by (relation "measure (\<lambda>(i, argc, argv). argc - i)") auto

declare merge_o_args.simps [simp del]

text \<open>The \<^verbatim>\<open>strtok\<close> loop over one argument: the options kept, joined behind \<^verbatim>\<open>-o\<close>.\<close>

fun join_opts :: "string list \<Rightarrow> string" where
  "join_opts [] = []"
| "join_opts [t] = t"
| "join_opts (t # ts) = t @ CHR '','' # join_opts ts"

definition filter_o_arg :: "(string \<Rightarrow> bool) \<Rightarrow> string \<Rightarrow> string" where
  "filter_o_arg keep arg =
     (let kept = filter keep (strtok_all (\<lambda>c. c = CHR '','') (drop 2 arg))
      in if kept = [] then [] else ''-o'' @ join_opts kept)"

function filter_o_loop :: "(string \<Rightarrow> bool) \<Rightarrow> nat \<Rightarrow> nat \<Rightarrow> string list \<Rightarrow> nat \<times> string list" where
  "filter_o_loop keep i argc argv =
     (if i < argc then
        if strncmp_eq (argv ! i) ''-o'' 2 then
          let filtered = filter_o_arg keep (argv ! i)
          in if filtered \<noteq> [] then filter_o_loop keep (i + 1) argc (argv[i := filtered])
             else filter_o_loop keep (i + 1) (argc - 1) (argv_shift i argc argv)
        else filter_o_loop keep (i + 1) argc argv
      else (argc, argv))"
  by pat_completeness auto
termination by (relation "measure (\<lambda>(keep, i, argc, argv). argc - i)") auto

declare filter_o_loop.simps [simp del]

text \<open>The new argument list: the first \<open>new_argc\<close> entries of \<open>new_argv\<close>.\<close>

definition filter_o_opts :: "(string \<Rightarrow> bool) \<Rightarrow> string list \<Rightarrow> string list" where
  "filter_o_opts keep orig_argv =
     (let (argc, argv) = merge_o_args 0 (length orig_argv) orig_argv;
          (new_argc, new_argv) = filter_o_loop keep 0 argc argv
      in take new_argc new_argv)"

section \<open>Byte counts\<close>

text \<open>
  \<open>strtod\<close> stands for the C function: the number it reads and the text at its end pointer.
  \<open>None\<close> is the return value 0, a syntax error.
\<close>

definition parse_byte_count :: "(string \<Rightarrow> real \<times> string) \<Rightarrow> string \<Rightarrow> real option" where
  "parse_byte_count strtod str =
     (let (base, endp) = strtod str
      in if endp = [] then Some (base * 1)
         else if endp = ''k'' then Some (base * 1024)
         else if endp = ''M'' then Some (base * (1024 * 1024))
         else if endp = ''G'' then Some (base * (1024 * 1024 * 1024))
         else if endp = ''T'' then Some (base * (1024 * 1024 * 1024 * 1024))
         else None)"

section \<open>Growable arrays and memory blocks\<close>

text \<open>\<^verbatim>\<open>grow_array\<close>: the new capacity.\<close>

definition grow_array_impl :: "nat \<Rightarrow> nat" where
  "grow_array_impl capacity = (if capacity = 0 then 8 else capacity * 2)"

text \<open>\<open>mb_data\<close> holds the allocated bytes, \<open>mb_capacity\<close> of them.\<close>

record memory_block =
  mb_data :: "byte list"
  mb_size :: size_t
  mb_capacity :: size_t

definition MEMORY_BLOCK_INITIALIZER :: memory_block where
  "MEMORY_BLOCK_INITIALIZER = \<lparr>mb_data = [], mb_size = 0, mb_capacity = 0\<rparr>"

text \<open>Freshly allocated bytes are indeterminate in C; 0 stands for them.\<close>

definition realloc_bytes :: "nat \<Rightarrow> byte list \<Rightarrow> byte list" where
  "realloc_bytes n xs = take n xs @ replicate (n - length xs) 0"

definition init_memory_block :: "size_t \<Rightarrow> memory_block" where
  "init_memory_block initial_capacity =
     \<lparr>mb_data = (if initial_capacity > 0 then realloc_bytes (unat initial_capacity) [] else []),
      mb_size = 0, mb_capacity = initial_capacity\<rparr>"

abbreviation SIZE_MAX :: size_t where "SIZE_MAX \<equiv> - 1"

text \<open>The doubling loop; \<open>None\<close> is \<^verbatim>\<open>abort()\<close>.\<close>

function grow_cap :: "size_t \<Rightarrow> size_t \<Rightarrow> size_t option" where
  "grow_cap new_cap sz =
     (if new_cap < sz then
        if new_cap = 0 then grow_cap 8 sz
        else if new_cap > SIZE_MAX div 2 then None
        else grow_cap (new_cap * 2) sz
      else Some new_cap)"
  by pat_completeness auto
termination
proof (relation "measure (\<lambda>(c, s). unat s - unat c)", goal_cases)
  case (2 new_cap sz)
  then have "0 < unat sz" by (simp add: word_less_nat_alt)
  with 2 show ?case by simp
next
  case (3 new_cap sz)
  have "unat new_cap \<le> 2 ^ 63 - 1"
    using 3(3) by (simp add: word_less_nat_alt not_less unat_div)
  then have "unat (new_cap * 2) = unat new_cap * 2"
    by (simp add: unat_word_ariths)
  moreover have "0 < unat new_cap" "unat new_cap < unat sz"
    using 3 by (simp_all add: word_less_nat_alt unat_gt_0)
  ultimately show ?case by simp
qed simp

declare grow_cap.simps [simp del]

definition grow_memory_block :: "memory_block \<Rightarrow> size_t \<Rightarrow> memory_block option" where
  "grow_memory_block a amount =
     (let sz = mb_size a + amount
      in if sz \<ge> mb_capacity a
         then (case grow_cap (mb_capacity a) sz of
                 None \<Rightarrow> None
               | Some new_cap \<Rightarrow>
                   Some \<lparr>mb_data = realloc_bytes (unat new_cap) (mb_data a), mb_size = sz,
                         mb_capacity = new_cap\<rparr>)
         else Some (a\<lparr>mb_size := sz\<rparr>))"

text \<open>\<^verbatim>\<open>memcpy(&ptr[dest], src, n)\<close>.\<close>

definition write_bytes :: "nat \<Rightarrow> byte list \<Rightarrow> byte list \<Rightarrow> byte list" where
  "write_bytes dest src xs = take dest xs @ src @ drop (dest + length src) xs"

text \<open>The offset is returned as an \<^verbatim>\<open>int\<close>: the low 32 bits of the old size.\<close>

definition append_to_memory_block :: "memory_block \<Rightarrow> byte list \<Rightarrow> (32 word \<times> memory_block) option" where
  "append_to_memory_block a src =
     (let dest = mb_size a
      in map_option (\<lambda>b. (ucast dest, b\<lparr>mb_data := write_bytes (unat dest) src (mb_data b)\<rparr>))
           (grow_memory_block a (of_nat (length src))))"

definition free_memory_block :: "memory_block \<Rightarrow> memory_block" where
  "free_memory_block a = init_memory_block 0"

section \<open>Memory blocks: invariant and contents\<close>

definition mb_ok :: "memory_block \<Rightarrow> bool" where
  "mb_ok a \<longleftrightarrow> mb_size a \<le> mb_capacity a \<and> length (mb_data a) = unat (mb_capacity a)"

definition mb_contents :: "memory_block \<Rightarrow> byte list" where
  "mb_contents a = take (unat (mb_size a)) (mb_data a)"

lemma length_mb_contents: "mb_ok a \<Longrightarrow> length (mb_contents a) = unat (mb_size a)"
  by (simp add: mb_ok_def mb_contents_def word_le_nat_alt)

lemma grow_cap_ge: "grow_cap c s = Some n \<Longrightarrow> c \<le> n \<and> s \<le> n"
proof (induction c s rule: grow_cap.induct)
  case (1 c s)
  show ?case
  proof (cases "c < s")
    case True
    show ?thesis
    proof (cases "c = 0")
      case c0: True
      have "grow_cap 8 s = Some n" using True "1.prems" c0 by (subst (asm) grow_cap.simps) simp
      with "1.IH"(1) [OF True c0] c0 show ?thesis by simp
    next
      case c0: False
      with True "1.prems" have nb: "\<not> c > SIZE_MAX div 2" and "grow_cap (c * 2) s = Some n"
        by (auto simp: grow_cap.simps [of c s] split: if_splits)
      with "1.IH"(2) [OF True c0] True show ?thesis by (auto intro: order.trans less_imp_le)
    qed
  next
    case False
    with "1.prems" show ?thesis by (auto simp: grow_cap.simps [of c s])
  qed
qed

text \<open>Below half the address space the loop always ends with a capacity.\<close>

lemma grow_cap_total: "unat s \<le> 2 ^ 63 \<Longrightarrow> grow_cap c s \<noteq> None"
proof (induction c s rule: grow_cap.induct)
  case (1 c s)
  show ?case
  proof (cases "c < s")
    case True
    then have "unat c < 2 ^ 63" using "1.prems" by (simp add: word_less_nat_alt)
    then have nb: "\<not> c > SIZE_MAX div 2" by (simp add: word_less_nat_alt unat_div)
    then show ?thesis using 1 True by (simp add: grow_cap.simps [of c s])
  next
    case False
    then show ?thesis by (simp add: grow_cap.simps [of c s])
  qed
qed

lemma grow_memory_block_ok:
  assumes ok: "mb_ok a" and fits: "unat (mb_size a) + unat n \<le> 2 ^ 63"
  shows "\<exists>b. grow_memory_block a n = Some b \<and> mb_ok b \<and> unat (mb_size b) = unat (mb_size a) + unat n
    \<and> take (unat (mb_size a)) (mb_data b) = mb_contents a"
proof -
  have sz: "unat (mb_size a + n) = unat (mb_size a) + unat n"
    using fits by (subst unat_add_lem [symmetric]) simp
  show ?thesis
  proof (cases "mb_size a + n \<ge> mb_capacity a")
    case True
    obtain c where c: "grow_cap (mb_capacity a) (mb_size a + n) = Some c"
      using grow_cap_total [of "mb_size a + n" "mb_capacity a"] fits sz by auto
    with grow_cap_ge [OF c] ok True sz show ?thesis
      by (auto simp: grow_memory_block_def mb_ok_def mb_contents_def realloc_bytes_def word_le_nat_alt
          min_absorb2)
  next
    case False
    with ok sz show ?thesis
      by (auto simp: grow_memory_block_def mb_ok_def mb_contents_def)
  qed
qed

lemma append_memory_block_ok:
  assumes ok: "mb_ok a" and fits: "unat (mb_size a) + length src \<le> 2 ^ 63"
  shows "\<exists>b. append_to_memory_block a src = Some (ucast (mb_size a), b) \<and> mb_ok b
    \<and> mb_contents b = mb_contents a @ src"
proof -
  have n: "unat (of_nat (length src) :: size_t) = length src"
    using fits by (simp add: unat_of_nat)
  then obtain b where b: "grow_memory_block a (of_nat (length src)) = Some b" "mb_ok b"
      "unat (mb_size b) = unat (mb_size a) + length src"
      "take (unat (mb_size a)) (mb_data b) = mb_contents a"
    using grow_memory_block_ok [OF ok, of "of_nat (length src)"] fits by auto
  have "length (mb_data b) \<ge> unat (mb_size a) + length src"
    using b(2,3) by (simp add: mb_ok_def word_le_nat_alt)
  moreover have "unat (mb_size a) \<le> length (mb_data a)"
    using ok by (simp add: mb_ok_def word_le_nat_alt)
  ultimately show ?thesis
    using b by (auto simp: append_to_memory_block_def write_bytes_def mb_ok_def mb_contents_def Let_def)
qed

text \<open>
  The interface of a growing byte store: appending returns the offset of the new bytes and never
  moves what is already there.
\<close>

locale byte_store =
  fixes append :: "'b \<Rightarrow> byte list \<Rightarrow> (32 word \<times> 'b) option"
    and contents :: "'b \<Rightarrow> byte list"
    and invar :: "'b \<Rightarrow> bool"
    and limit :: nat
  assumes append_contents: "invar b \<Longrightarrow> length (contents b) + length xs \<le> limit \<Longrightarrow>
      \<exists>b'. append b xs = Some (of_nat (length (contents b)), b') \<and> invar b' \<and> contents b' = contents b @ xs"
begin

lemma append_Some:
  assumes "invar b" "length (contents b) + length xs \<le> limit" "append b xs = Some (off, b')"
  shows "invar b' \<and> contents b' = contents b @ xs \<and> off = of_nat (length (contents b))"
  using append_contents [OF assms(1,2)] assms(3) by auto

text \<open>An object stays at its offset across later appends.\<close>

lemma append_keeps_object:
  assumes "invar b" "length (contents b) + length xs \<le> limit" "append b xs = Some (off, b')"
    and "k + n \<le> length (contents b)"
  shows "take n (drop k (contents b')) = take n (drop k (contents b))"
  using append_Some [OF assms(1-3)] assms(4) by simp

lemma append_stores_object:
  assumes "invar b" "length (contents b) + length xs \<le> limit" "append b xs = Some (off, b')"
  shows "take (length xs) (drop (length (contents b)) (contents b')) = xs"
  using append_Some [OF assms] by simp

end

interpretation mb: byte_store append_to_memory_block mb_contents mb_ok "2 ^ 63"
proof
  fix b :: memory_block and xs :: "byte list"
  assume ok: "mb_ok b" and fits: "length (mb_contents b) + length xs \<le> 2 ^ 63"
  have len: "length (mb_contents b) = unat (mb_size b)" by (rule length_mb_contents [OF ok])
  with append_memory_block_ok [OF ok, of xs] fits
  show "\<exists>b'. append_to_memory_block b xs = Some (of_nat (length (mb_contents b)), b')
      \<and> mb_ok b' \<and> mb_contents b' = mb_contents b @ xs" by simp
qed

section \<open>Counting and formatting\<close>

lemma count_chars_count_list: "count_chars s ch = count_list s ch"
  by (induction s) auto

lemma strncmp_eq_full: "strncmp_eq a b (length b) \<longleftrightarrow> take (length b) a = b"
  by (simp add: strncmp_eq_def)

text \<open>The positions of \<open>sub\<close> in \<open>s\<close> that do not reach the end of \<open>s\<close>.\<close>

definition inner_occurrences :: "string \<Rightarrow> string \<Rightarrow> nat set" where
  "inner_occurrences s sub = {i. i + length sub < length s \<and> take (length sub) (drop i s) = sub}"

lemma inner_occurrences_Cons:
  "inner_occurrences (c # s) sub =
   (if length sub < length (c # s) \<and> take (length sub) (c # s) = sub then {0} else {})
   \<union> Suc ` inner_occurrences s sub"
proof (rule set_eqI)
  fix i show "i \<in> inner_occurrences (c # s) sub \<longleftrightarrow>
    i \<in> (if length sub < length (c # s) \<and> take (length sub) (c # s) = sub then {0} else {})
       \<union> Suc ` inner_occurrences s sub"
    by (cases i) (auto simp: inner_occurrences_def)
qed

lemma finite_inner_occurrences: "finite (inner_occurrences s sub)"
  by (rule finite_subset [of _ "{..< length s}"]) (auto simp: inner_occurrences_def)

lemma count_substrs_inner: "count_substrs s sub = card (inner_occurrences s sub)"
proof (induction s)
  case Nil
  then show ?case by (simp add: inner_occurrences_def)
next
  case (Cons c s)
  have short: "inner_occurrences s sub = {}" if "\<not> length sub < length (c # s)"
    using that by (auto simp: inner_occurrences_def)
  have z: "0 \<notin> Suc ` inner_occurrences s sub" by auto
  have im: "card (Suc ` inner_occurrences s sub) = card (inner_occurrences s sub)"
    by (rule card_image) simp
  show ?case
    using Cons.IH short z im finite_inner_occurrences [of s sub]
    by (auto simp: inner_occurrences_Cons strncmp_eq_full)
qed

lemma sprintf_loop_fits:
  "0 < n \<Longrightarrow> fst (sprintf_loop n out) = out \<and> length out < snd (sprintf_loop n out)"
proof (induction n out rule: sprintf_loop.induct)
  case (1 n out)
  show ?case
  proof (cases "length out < n")
    case True
    with "1.prems" show ?thesis by (simp add: sprintf_loop.simps [of n out])
  next
    case False
    with 1 show ?thesis by (simp add: sprintf_loop.simps [of n out])
  qed
qed

section \<open>Paths: specifications\<close>

lemma dirname_scan_le: "dirname_scan path p \<le> p"
  by (induction path p rule: dirname_scan.induct) auto

lemma dirname_scan_spec:
  "dirname_scan path p = q \<Longrightarrow> (q = 0 \<or> path ! q = slash) \<and> (\<forall>i. q < i \<and> i \<le> p \<longrightarrow> path ! i \<noteq> slash)"
proof (induction path p rule: dirname_scan.induct)
  case (2 path p)
  show ?case
  proof (cases "path ! Suc p = slash")
    case True
    with 2 show ?thesis by auto
  next
    case False
    with 2 show ?thesis by (auto simp: le_Suc_eq)
  qed
qed auto

lemma dirname_scan_found:
  assumes "path = d @ slash # b" and "d \<noteq> []" and "slash \<notin> set b"
  shows "dirname_scan path (length path - 1) = length d"
proof -
  let ?q = "dirname_scan path (length path - 1)"
  have q: "?q = 0 \<or> path ! ?q = slash" and after: "\<forall>i. ?q < i \<and> i \<le> length path - 1 \<longrightarrow> path ! i \<noteq> slash"
    using dirname_scan_spec [of path "length path - 1"] by auto
  have at: "path ! length d = slash" using assms by simp
  have "\<not> ?q < length d" using after at assms by auto
  moreover have "\<not> length d < ?q"
  proof
    assume lt: "length d < ?q"
    have "?q \<le> length path - 1" by (rule dirname_scan_le)
    then have "?q - length d - 1 < length b" using lt assms by auto
    moreover have "path ! ?q = b ! (?q - length d - 1)"
      using lt assms by (simp add: nth_append nth_Cons')
    ultimately show False using q lt assms(3) by (metis gr0I less_nat_zero_code nth_mem)
  qed
  ultimately show ?thesis by simp
qed

lemma dirname_scan_none:
  assumes "\<forall>i. 0 < i \<and> i < length path \<longrightarrow> path ! i \<noteq> slash"
  shows "dirname_scan path (length path - 1) = 0"
proof (rule ccontr)
  let ?q = "dirname_scan path (length path - 1)"
  assume q: "?q \<noteq> 0"
  with dirname_scan_spec [of path "length path - 1", OF refl] have "path ! ?q = slash" by blast
  moreover have "?q < length path" using dirname_scan_le [of path "length path - 1"] q by linarith
  ultimately show False using assms q by blast
qed

text \<open>Path components joined to an absolute path, as \<^verbatim>\<open>realpath\<close> returns it.\<close>

definition valid_component :: "string \<Rightarrow> bool" where
  "valid_component c \<longleftrightarrow> c \<noteq> [] \<and> slash \<notin> set c"

definition slashed :: "string list \<Rightarrow> string" where
  "slashed cs = concat (map (\<lambda>c. slash # c) cs)"

definition absolute_path :: "string list \<Rightarrow> string" where
  "absolute_path cs = (if cs = [] then ''/'' else slashed cs)"

lemma slashed_simps [simp]:
  "slashed [] = []" "slashed (c # cs) = slash # c @ slashed cs"
  "slashed (cs @ ds) = slashed cs @ slashed ds"
  by (simp_all add: slashed_def)

lemma strip_slashes_le: "strip_slashes s n \<le> n"
  by (induction s n rule: strip_slashes.induct) auto

lemma strip_slashes_component:
  "c \<noteq> [] \<Longrightarrow> slash \<notin> set c \<Longrightarrow> strip_slashes (s @ c) (length (s @ c)) = length (s @ c)"
  by (cases c rule: rev_cases) (auto simp: nth_append)

lemma strip_absolute:
  assumes "list_all valid_component cs"
  shows "strip_slashes (absolute_path cs) (length (absolute_path cs)) = length (slashed cs)"
proof (cases cs rule: rev_cases)
  case Nil
  then show ?thesis by (simp add: absolute_path_def)
next
  case (snoc bs c)
  with assms have "c \<noteq> []" "slash \<notin> set c" by (auto simp: valid_component_def)
  from strip_slashes_component [OF this, of "slashed bs @ [slash]"] snoc show ?thesis
    by (simp add: absolute_path_def)
qed

lemma find_last_slash_component:
  "slash \<notin> set c \<Longrightarrow>
   find_last_char_before (s @ slash # c @ t) (length s + Suc (length c)) slash = Some (length s)"
proof (induction c arbitrary: t rule: rev_induct)
  case Nil
  then show ?case by simp
next
  case (snoc x c)
  then have "(s @ slash # (c @ [x]) @ t) ! (length s + Suc (length c)) = x"
    by (simp add: nth_append)
  then show ?case using snoc by auto
qed

lemma takeWhile_component:
  "slash \<notin> set c \<Longrightarrow> r = [] \<or> hd r = slash \<Longrightarrow> takeWhile (\<lambda>x. x \<noteq> slash) (c @ r) = c"
  by (cases r) (auto simp: takeWhile_append)

lemma slashed_start: "slashed cs = [] \<or> hd (slashed cs) = slash"
  by (cases cs) simp_all

lemma slashed_prefixD:
  assumes "list_all valid_component cs" "list_all valid_component ds"
    and "slashed cs = slashed ds @ r" and "r = [] \<or> hd r = slash"
  shows "prefix ds cs"
  using assms
proof (induction ds arbitrary: cs)
  case (Cons d ds)
  obtain c cs' where cs: "cs = c # cs'" using Cons.prems(3) by (cases cs) auto
  have eq: "c @ slashed cs' = d @ slashed ds @ r" using Cons.prems(3) by (simp add: cs)
  have "slashed ds @ r = [] \<or> hd (slashed ds @ r) = slash"
    using Cons.prems(4) by (cases ds) auto
  then have "takeWhile (\<lambda>x. x \<noteq> slash) (d @ slashed ds @ r) = d"
    using Cons.prems(2) by (intro takeWhile_component) (auto simp: valid_component_def)
  moreover have "takeWhile (\<lambda>x. x \<noteq> slash) (c @ slashed cs') = c"
    using Cons.prems(1) slashed_start by (intro takeWhile_component) (auto simp: cs valid_component_def)
  ultimately have "c = d" by (simp add: eq)
  with eq Cons.IH [of cs'] Cons.prems show ?case by (simp add: cs)
qed simp

lemma path_starts_with_root: "path_starts_with (slash # s) (absolute_path []) 1"
  by (simp add: path_starts_with_def absolute_path_def strncmp_eq_def)

lemma path_starts_with_snoc:
  assumes d: "valid_component d"
  shows "path_starts_with path (slashed ds @ slash # d) (length (slashed ds @ slash # d)) \<longleftrightarrow>
    (\<exists>r. path = slashed ds @ slash # d @ r
       \<and> (if slash \<in> set r then takeWhile (\<lambda>c. c \<noteq> slash) r = []
          else strip_slashes path (length path) = length (slashed ds @ slash # d)))"
proof -
  let ?p = "slashed ds @ slash # d"
  have ne: "d \<noteq> []" "slash \<notin> set d" using d by (auto simp: valid_component_def)
  have strip: "strip_slashes ?p (length ?p) = length ?p"
    using strip_slashes_component [OF ne, of "slashed ds @ [slash]"] by simp
  have find: "find_last_char_before ?p (length ?p) slash = Some (length (slashed ds))"
    using find_last_slash_component [OF ne(2), of "slashed ds" "[]"] by simp
  show ?thesis
  proof (cases "take (length ?p) path = ?p")
    case False
    then have "\<nexists>r. path = slashed ds @ slash # d @ r" by auto
    moreover have "\<not> path_starts_with path ?p (length ?p)"
    proof -
      have "\<not> strncmp_eq path ?p (length ?p)" using False unfolding strncmp_eq_full .
      then show ?thesis unfolding path_starts_with_def Let_def strip by (rule if_not_P [THEN ssubst]) simp
    qed
    ultimately show ?thesis by blast
  next
    case True
    then obtain r where r: "path = slashed ds @ slash # d @ r"
      by (metis append.assoc append_Cons append_take_drop_id)
    have split: "slash \<in> set (d @ r) \<longleftrightarrow> slash \<in> set r" using ne by simp
    have tw: "takeWhile (\<lambda>c. c \<noteq> slash) (d @ r) = d @ takeWhile (\<lambda>c. c \<noteq> slash) r"
      using ne(2) by (intro takeWhile_append2) auto
    have drop: "drop (length (slashed ds) + 1) path = d @ r" by (simp add: r)
    have len: "length ?p - (length (slashed ds) + 1) = length d" by simp
    have "path_starts_with path ?p (length ?p) \<longleftrightarrow>
        length d = (if slash \<in> set (d @ r) then length (takeWhile (\<lambda>c. c \<noteq> slash) (d @ r))
          else strip_slashes path (length path) - (length (slashed ds) + 1))"
      using True unfolding path_starts_with_def Let_def strip find strncmp_eq_full
      by (simp only: refl if_True option.case drop len)
    also have "\<dots> \<longleftrightarrow> (if slash \<in> set r then takeWhile (\<lambda>c. c \<noteq> slash) r = []
        else strip_slashes path (length path) = length ?p)"
    proof (cases "slash \<in> set r")
      case True
      then show ?thesis by (simp add: tw)
    next
      case False
      have "length d = n - (length (slashed ds) + 1) \<longleftrightarrow> n = length ?p" for n
        using ne(1) by (cases d) (auto split: nat_diff_split)
      with False ne(2) show ?thesis by simp
    qed
    finally show ?thesis using r by auto
  qed
qed

lemma path_starts_with_canonical:
  assumes cs: "list_all valid_component cs" and ds: "list_all valid_component ds"
  shows "path_starts_with (absolute_path cs) (absolute_path ds) (length (absolute_path ds)) \<longleftrightarrow> prefix ds cs"
proof (cases ds rule: rev_cases)
  case Nil
  have "\<exists>s. absolute_path cs = slash # s" by (cases cs) (simp_all add: absolute_path_def)
  with Nil path_starts_with_root show ?thesis by (auto simp: absolute_path_def)
next
  case (snoc bs d)
  have d: "valid_component d" using ds snoc by simp
  have abs: "absolute_path ds = slashed bs @ slash # d" by (simp add: snoc absolute_path_def)
  have strip: "strip_slashes (absolute_path cs) (length (absolute_path cs)) = length (slashed cs)"
    by (rule strip_absolute [OF cs])
  show ?thesis
  proof
    assume "path_starts_with (absolute_path cs) (absolute_path ds) (length (absolute_path ds))"
    then obtain r where r: "absolute_path cs = slashed bs @ slash # d @ r"
      and c: "if slash \<in> set r then takeWhile (\<lambda>c. c \<noteq> slash) r = []
              else length (slashed cs) = length (slashed bs @ slash # d)"
      unfolding abs path_starts_with_snoc [OF d] strip by blast
    have "cs \<noteq> []" using r d by (auto simp: absolute_path_def valid_component_def Cons_eq_append_conv)
    then have p: "slashed cs = slashed ds @ r" using r by (simp add: absolute_path_def snoc)
    have "r = [] \<or> hd r = slash"
    proof (cases "slash \<in> set r")
      case True
      then show ?thesis using c by (cases r) (auto split: if_splits)
    next
      case False
      then show ?thesis using c p by (simp add: snoc)
    qed
    with p show "prefix ds cs" by (rule slashed_prefixD [OF cs ds])
  next
    assume "prefix ds cs"
    then obtain es where es: "cs = ds @ es" by (auto simp: prefix_def)
    have r: "absolute_path cs = slashed bs @ slash # d @ slashed es"
      by (simp add: absolute_path_def es snoc)
    have "if slash \<in> set (slashed es) then takeWhile (\<lambda>c. c \<noteq> slash) (slashed es) = []
          else length (slashed cs) = length (slashed bs @ slash # d)"
      by (cases es) (auto simp: es snoc)
    then show "path_starts_with (absolute_path cs) (absolute_path ds) (length (absolute_path ds))"
      unfolding abs path_starts_with_snoc [OF d] strip using r by blast
  qed
qed

text \<open>A directory below the prefix has all its entries below the prefix.\<close>

lemma find_last_char_before_less: "find_last_char_before s k c = Some p \<Longrightarrow> p < k"
  by (induction s k c rule: find_last_char_before.induct) (auto split: if_splits)

lemma strip_slashes_no_slash:
  assumes "slash \<notin> set (drop k s)" and "k < length s"
  shows "strip_slashes s (length s) = length s"
proof (cases s rule: rev_cases)
  case (snoc xs x)
  then have "x \<noteq> slash" using assms by (auto simp: drop_Cons')
  then show ?thesis by (simp add: snoc nth_append)
qed (use assms in simp)

lemma path_starts_with_child:
  assumes "path_starts_with d pref n" and n: "n \<le> length pref"
  shows "path_starts_with (d @ slash # b) pref n"
proof -
  define k where "k = strip_slashes pref n"
  define q where "q = (case find_last_char_before pref k slash of Some p \<Rightarrow> p + 1 | None \<Rightarrow> 0)"
  have cmp: "take k d = take k pref" and part: "k - q = (if slash \<in> set (drop q d)
      then length (takeWhile (\<lambda>c. c \<noteq> slash) (drop q d)) else strip_slashes d (length d) - q)"
    using assms(1) unfolding path_starts_with_def Let_def strncmp_eq_def k_def [symmetric] q_def [symmetric]
    by (auto split: if_splits)
  have "k \<le> length pref" unfolding k_def using n strip_slashes_le [of pref n] by linarith
  then have kd: "k \<le> length d" using arg_cong [OF cmp, of length] by simp
  have "q \<le> k" unfolding q_def using find_last_char_before_less [of pref k slash] by (auto split: option.split)
  then have qd: "q \<le> length d" using kd by simp
  have drop: "drop q (d @ slash # b) = drop q d @ slash # b" using qd by simp
  have "k - q = length (takeWhile (\<lambda>c. c \<noteq> slash) (drop q (d @ slash # b)))"
  proof (cases "slash \<in> set (drop q d)")
    case True
    then show ?thesis using part unfolding drop by simp
  next
    case False
    then have "takeWhile (\<lambda>c. c \<noteq> slash) (drop q d @ slash # b) = drop q d"
      by (intro takeWhile_append_stop) auto
    moreover have "strip_slashes d (length d) - q = length d - q"
      using False strip_slashes_no_slash [of q d] qd strip_slashes_le [of d "length d"] by (cases "q < length d") auto
    ultimately show ?thesis using part False unfolding drop by simp
  qed
  moreover have "take k (d @ slash # b) = take k pref" using cmp kd by simp
  moreover have "slash \<in> set (drop q (d @ slash # b))" unfolding drop by simp
  ultimately show ?thesis
    unfolding path_starts_with_def Let_def strncmp_eq_def k_def [symmetric] q_def [symmetric]
    by (simp only: if_True simp_thms)
qed

lemma strip_slashes_last: "strip_slashes s n = Suc k \<Longrightarrow> s ! k \<noteq> slash"
  by (induction s n rule: strip_slashes.induct) (auto split: if_splits)

lemma path_starts_with_below_root:
  assumes "path_starts_with ''/'' pref n" and n: "n \<le> length pref"
  shows "path_starts_with (slash # b) pref n"
proof -
  define k where "k = strip_slashes pref n"
  have cmp: "take k ''/'' = take k pref"
    using assms(1) unfolding path_starts_with_def Let_def strncmp_eq_def k_def [symmetric]
    by (auto split: if_splits)
  have kl: "k \<le> length pref" unfolding k_def using n strip_slashes_le [of pref n] by linarith
  have "k = 0"
  proof (cases k)
    case (Suc j)
    have "length (take k pref) = k" using kl by simp
    then have "k = 1" using arg_cong [OF cmp, of length] Suc by simp
    then have "pref ! 0 = slash" using cmp kl by (cases pref) auto
    moreover have "pref ! j \<noteq> slash" by (rule strip_slashes_last [of pref n]) (simp add: k_def [symmetric] Suc)
    ultimately show ?thesis using \<open>k = 1\<close> Suc by simp
  qed simp
  then show ?thesis
    unfolding path_starts_with_def Let_def strncmp_eq_def k_def [symmetric] by simp
qed

lemma my_dirname_cases:
  obtains "my_dirname path = ''.'' \<or> my_dirname path = ''..''"
  | "path = ''/''" "my_dirname path = ''/''"
  | b where "path = slash # b" "my_dirname path = ''/''"
  | d b where "path = d @ slash # b" "my_dirname path = d" "d \<noteq> []"
proof -
  let ?p = "dirname_scan path (length path - 1)"
  consider "path = ''.''" | "path = ''/''" | "path \<noteq> ''.''" "path \<noteq> ''/''" "?p > 0"
    | "path \<noteq> ''.''" "path \<noteq> ''/''" "?p = 0" by blast
  then show ?thesis
  proof cases
    case 3
    have lt: "?p < length path" using dirname_scan_le [of path "length path - 1"] 3 by linarith
    have sl: "path ! ?p = slash" 
      using conjunct1 [OF dirname_scan_spec [of path "length path - 1", OF refl]] 3(3) by linarith
    have "path = take ?p path @ slash # drop (Suc ?p) path"
      using id_take_nth_drop [OF lt] unfolding sl .
    moreover have "my_dirname path = take ?p path" using 3 by (simp add: my_dirname_def Let_def)
    moreover have "take ?p path \<noteq> []" using 3(3) lt by auto
    ultimately show ?thesis using that(4) by blast
  next
    case 4
    show ?thesis
    proof (cases "path \<noteq> [] \<and> hd path = slash")
      case True
      then have "path = slash # tl path" by (cases path) auto
      moreover have "my_dirname path = ''/''" using 4 True by (simp add: my_dirname_def Let_def)
      ultimately show ?thesis using that(3) by blast
    next
      case False
      then have "my_dirname path = ''.''" using 4 by (auto simp: my_dirname_def Let_def)
      then show ?thesis using that(1) by blast
    qed
  qed (use that in \<open>simp_all add: my_dirname_def\<close>)
qed

section \<open>Filtering: what the two loops compute\<close>

text \<open>The loops over \<open>argv\<close> as recursions over the argument list.\<close>

fun merge_args :: "string list \<Rightarrow> string list" where
  "merge_args [] = []"
| "merge_args [a] = (if a = ''-o'' then [] else [a])"
| "merge_args (a # b # r) = (if a = ''-o'' then (''-o'' @ b) # merge_args r else a # merge_args (b # r))"

text \<open>When an argument is removed, the one that takes its place is not looked at.\<close>

fun filter_args :: "(string \<Rightarrow> bool) \<Rightarrow> string list \<Rightarrow> string list" where
  "filter_args keep [] = []"
| "filter_args keep (a # r) =
     (if strncmp_eq a ''-o'' 2 then
        if filter_o_arg keep a \<noteq> [] then filter_o_arg keep a # filter_args keep r
        else (case r of [] \<Rightarrow> [] | b # r' \<Rightarrow> b # filter_args keep r')
      else a # filter_args keep r)"

lemma argv_shift_split:
  "length pre = j \<Longrightarrow> argc = j + Suc (length r) \<Longrightarrow>
   \<exists>junk'. argv_shift j argc (pre @ a # r @ junk) = pre @ r @ junk'"
  by (auto simp: argv_shift_def)

lemma merge_o_args_list:
  "\<exists>junk'. merge_o_args (length pre) (length pre + length as) (pre @ as @ junk)
     = (length pre + length (merge_args as), pre @ merge_args as @ junk')"
proof (induction as arbitrary: pre junk rule: merge_args.induct)
  case 1
  then show ?case by (simp add: merge_o_args.simps)
next
  case (2 a)
  show ?case
    by (simp add: merge_o_args.simps [of "length pre"] merge_o_args.simps [of "Suc (length pre)"])
next
  case (3 a b r)
  show ?case
  proof (cases "a = ''-o''")
    case True
    obtain junk' where j: "argv_shift (Suc (length pre)) (length pre + Suc (Suc (length r)))
        ((pre @ [''-o'' @ b]) @ b # r @ junk) = (pre @ [''-o'' @ b]) @ r @ junk'"
      using argv_shift_split [of "pre @ [''-o'' @ b]" "Suc (length pre)" _ r b junk] by auto
    from "3.IH"(1) [OF True, of "pre @ [''-o'' @ b]" junk'] True j show ?thesis
      by (simp add: merge_o_args.simps [of "length pre"] nth_append)
  next
    case False
    from "3.IH"(2) [OF False, of "pre @ [a]" junk] False show ?thesis
      by (simp add: merge_o_args.simps [of "length pre"])
  qed
qed

lemma filter_o_loop_list:
  "\<exists>junk'. filter_o_loop keep (length pre) (length pre + length as) (pre @ as @ junk)
     = (length pre + length (filter_args keep as), pre @ filter_args keep as @ junk')"
proof (induction as arbitrary: pre junk rule: length_induct)
  case (1 as)
  show ?case
  proof (cases as)
    case Nil
    then show ?thesis by (simp add: filter_o_loop.simps)
  next
    case (Cons a r)
    have IH: "length bs < length as \<Longrightarrow> \<exists>junk'. filter_o_loop keep (length pre) (length pre + length bs) (pre @ bs @ junk)
      = (length pre + length (filter_args keep bs), pre @ filter_args keep bs @ junk')" for bs pre junk
      using "1.IH" by blast
    show ?thesis
    proof (cases "strncmp_eq a ''-o'' 2")
      case False
      with IH [of r "pre @ [a]" junk] Cons show ?thesis
        by (simp add: filter_o_loop.simps [of keep "length pre"])
    next
      case o: True
      show ?thesis
      proof (cases "filter_o_arg keep a = []")
        case False
        with IH [of r "pre @ [filter_o_arg keep a]" junk] Cons o show ?thesis
          by (simp add: filter_o_loop.simps [of keep "length pre"] Let_def)
      next
        case True
        obtain junk' where j: "argv_shift (length pre) (length pre + Suc (length r)) (pre @ a # r @ junk)
            = pre @ r @ junk'"
          using argv_shift_split [of pre "length pre" _ r a junk] by auto
        have step: "filter_o_loop keep (length pre) (length pre + length as) (pre @ as @ junk)
            = filter_o_loop keep (Suc (length pre)) (length pre + length r) (pre @ r @ junk')"
          using True o Cons j by (simp add: filter_o_loop.simps [of keep "length pre"] Let_def)
        show ?thesis
        proof (cases r)
          case Nil
          with step True o Cons show ?thesis by (simp add: filter_o_loop.simps [of keep "Suc (length pre)"])
        next
          case (Cons b r')
          with IH [of r' "pre @ [b]" junk'] step True o \<open>as = a # r\<close> show ?thesis by simp
        qed
      qed
    qed
  qed
qed

lemma filter_o_opts_list: "filter_o_opts keep argv = filter_args keep (merge_args argv)"
proof -
  obtain junk where m: "merge_o_args 0 (length argv) argv = (length (merge_args argv), merge_args argv @ junk)"
    using merge_o_args_list [of "[]" argv "[]"] by auto
  obtain junk' where "filter_o_loop keep 0 (length (merge_args argv)) (merge_args argv @ junk)
      = (length (filter_args keep (merge_args argv)), filter_args keep (merge_args argv) @ junk')"
    using filter_o_loop_list [of keep "[]" "merge_args argv" junk] by auto
  with m show ?thesis by (simp add: filter_o_opts_def)
qed

text \<open>The buffer for the options that are kept is as long as the argument, which is enough.\<close>

lemma length_join_opts: "ts \<noteq> [] \<Longrightarrow> Suc (length (join_opts ts)) = sum_list (map (\<lambda>t. Suc (length t)) ts)"
  by (induction ts rule: join_opts.induct) simp_all

lemma sum_list_filter_le: "sum_list (map f (filter P xs)) \<le> (sum_list (map f xs) :: nat)"
  by (induction xs) simp_all

lemma filter_o_arg_fits:
  assumes "strncmp_eq arg ''-o'' 2"
  shows "length (filter_o_arg keep arg) \<le> length arg"
proof -
  let ?toks = "strtok_all (\<lambda>c. c = CHR '','') (drop 2 arg)"
  have "sum_list (map (\<lambda>t. Suc (length t)) (filter keep ?toks)) \<le> Suc (length (drop 2 arg))"
    using sum_list_filter_le [of "\<lambda>t. Suc (length t)" keep ?toks] strtok_all_size [of "\<lambda>c. c = CHR '',''" "drop 2 arg"]
      length_dropWhile_le [of "\<lambda>c. c = CHR '',''" "drop 2 arg"] by (simp split: if_splits)
  moreover have "length (take 2 arg) = 2" using assms by (simp add: strncmp_eq_def)
  ultimately show ?thesis using length_join_opts [of "filter keep ?toks"] by (cases "filter keep ?toks = []") (simp_all add: filter_o_arg_def Let_def min_def split: if_splits)
qed

text \<open>
  What the filter is for, without \<^verbatim>\<open>strtok\<close> and buffers: the text behind \<^verbatim>\<open>-o\<close> is split at its commas; of the options, which are
  the fields that are not empty, those the predicate accepts are put together again behind \<^verbatim>\<open>-o\<close>, and an argument of which no
  option is left is gone.  Other arguments stay.
\<close>

fun comma_fields :: "string \<Rightarrow> string list" where
  "comma_fields [] = [[]]"
| "comma_fields (c # cs) =
     (if c = CHR '','' then [] # comma_fields cs else (c # hd (comma_fields cs)) # tl (comma_fields cs))"

definition kept_options :: "(string \<Rightarrow> bool) \<Rightarrow> string \<Rightarrow> string list" where
  "kept_options keep arg = [opt \<leftarrow> comma_fields (drop 2 arg). opt \<noteq> [] \<and> keep opt]"

definition filter_spec :: "(string \<Rightarrow> bool) \<Rightarrow> string list \<Rightarrow> string list" where
  "filter_spec keep args =
     concat (map (\<lambda>a. if take 2 a = ''-o''
                      then case kept_options keep a of
                             [] \<Rightarrow> []
                           | opt # opts \<Rightarrow> [''-o'' @ opt @ concat (map (\<lambda>x. CHR '','' # x) opts)]
                      else [a]) args)"

lemma comma_fields_nonempty [simp]: "comma_fields s \<noteq> []"
  by (cases s) simp_all

lemma strtok_comma:
  fixes s defines "d \<equiv> \<lambda>c. c = CHR '',''"
  shows "hd (comma_fields s) = takeWhile (\<lambda>c. \<not> d c) s
    \<and> strtok_all d s = filter (\<lambda>t. t \<noteq> []) (comma_fields s)
    \<and> strtok_all d (dropWhile (\<lambda>c. \<not> d c) s) = filter (\<lambda>t. t \<noteq> []) (tl (comma_fields s))"
proof (induction s)
  case Nil
  have "strtok_all d [] = []" by (simp add: strtok_all.simps [of d "[]"])
  then show ?case by simp
next
  case (Cons c s)
  show ?case
  proof (cases "d c")
    case True
    then have "strtok_all d (c # s) = strtok_all d s"
      by (simp add: strtok_all.simps [of d "c # s"] strtok_all.simps [of d s])
    with Cons True show ?thesis by (simp add: d_def)
  next
    case False
    then have "strtok_all d (c # s) = (c # takeWhile (\<lambda>c. \<not> d c) s) # strtok_all d (dropWhile (\<lambda>c. \<not> d c) s)"
      by (simp add: strtok_all.simps [of d "c # s"])
    with Cons False show ?thesis by (simp add: d_def)
  qed
qed

lemma join_opts_concat: "join_opts (opt # opts) = opt @ concat (map (\<lambda>x. CHR '','' # x) opts)"
  by (induction opts arbitrary: opt) simp_all

lemma filter_o_arg_kept:
  "filter_o_arg keep a = (case kept_options keep a of
     [] \<Rightarrow> [] | opt # opts \<Rightarrow> ''-o'' @ opt @ concat (map (\<lambda>x. CHR '','' # x) opts))"
proof -
  have "filter keep (strtok_all (\<lambda>c. c = CHR '','') (drop 2 a)) = kept_options keep a"
    using strtok_comma [of "drop 2 a"] by (simp add: kept_options_def conj_commute)
  then show ?thesis by (cases "kept_options keep a") (simp_all add: filter_o_arg_def join_opts_concat)
qed

lemma filter_spec_simps:
  "filter_spec keep [] = []"
  "filter_spec keep (a # r) =
     (if strncmp_eq a ''-o'' 2 then if filter_o_arg keep a = [] then filter_spec keep r else filter_o_arg keep a # filter_spec keep r
      else a # filter_spec keep r)"
  by (simp_all add: filter_spec_def strncmp_eq_def filter_o_arg_kept split: list.split)

text \<open>No argument that vanishes altogether is directly followed by another \<^verbatim>\<open>-o\<close> argument.\<close>

fun no_o_after_removed :: "(string \<Rightarrow> bool) \<Rightarrow> string list \<Rightarrow> bool" where
  "no_o_after_removed keep (a # b # r) \<longleftrightarrow>
     (take 2 a = ''-o'' \<and> kept_options keep a = [] \<longrightarrow> take 2 b \<noteq> ''-o'') \<and> no_o_after_removed keep (b # r)"
| "no_o_after_removed keep _ \<longleftrightarrow> True"

lemma filter_args_spec: "no_o_after_removed keep as \<Longrightarrow> filter_args keep as = filter_spec keep as"
proof (induction as)
  case (Cons a r)
  have r: "filter_args keep r = filter_spec keep r"
    using Cons.prems by (intro Cons.IH) (cases r, auto)
  show ?case
  proof (cases "strncmp_eq a ''-o'' 2 \<and> filter_o_arg keep a = []")
    case True
    then have gone: "take 2 a = ''-o''" "kept_options keep a = []"
      by (auto simp: strncmp_eq_def filter_o_arg_kept split: list.splits)
    show ?thesis
    proof (cases r)
      case (Cons b r')
      with gone Cons.prems have "\<not> strncmp_eq b ''-o'' 2" by (simp add: strncmp_eq_def)
      then have "b # filter_args keep r' = filter_args keep r" by (simp add: Cons)
      with True Cons r show ?thesis by (simp add: filter_spec_simps)
    qed (use True in \<open>simp add: filter_spec_simps\<close>)
  next
    case False
    with r show ?thesis by (auto simp: filter_spec_simps)
  qed
qed (simp add: filter_spec_simps)

section \<open>Properties\<close>

text \<open>
  C19. For absolute paths in the form \<^verbatim>\<open>realpath\<close> returns, \<^verbatim>\<open>path_starts_with\<close> holds exactly when the
  components of the prefix are the first components of the path; in particular a component that
  only begins with the last component of the prefix does not count.
\<close>

theorem path_starts_with_components:
  assumes "list_all valid_component cs" and "list_all valid_component ds"
  shows "path_starts_with (absolute_path cs) (absolute_path ds) (length (absolute_path ds)) \<longleftrightarrow> prefix ds cs"
  by (rule path_starts_with_canonical [OF assms])

theorem path_starts_with_components_witness:
  "\<not> path_starts_with ''/mnt/data2'' ''/mnt/data'' 9 \<and> path_starts_with ''/mnt/data/x'' ''/mnt/data'' 9"
proof -
  have a: "absolute_path [''mnt'', ''data2''] = ''/mnt/data2''" "absolute_path [''mnt'', ''data''] = ''/mnt/data''"
    "absolute_path [''mnt'', ''data'', ''x''] = ''/mnt/data/x''"
    by (simp_all add: absolute_path_def)
  show ?thesis
    using path_starts_with_components [of "[''mnt'', ''data2'']" "[''mnt'', ''data'']"]
      path_starts_with_components [of "[''mnt'', ''data'', ''x'']" "[''mnt'', ''data'']"]
    by (simp add: a valid_component_def eval_nat_numeral)
qed

text \<open>
  C27. \<^verbatim>\<open>filter_o_opts\<close> joins each \<^verbatim>\<open>-o\<close> with the argument after it and keeps, of every \<^verbatim>\<open>-o\<close> argument, exactly the options
  between its commas that the predicate accepts, in order; an argument of which nothing is left is dropped, and all other
  arguments are kept as they are.  This holds provided that no argument that is dropped is directly followed by another \<^verbatim>\<open>-o\<close>
  argument.  In any case, what is kept of an argument fits in the buffer of the argument's length.
\<close>

theorem filter_o_opts_correct:
  assumes "no_o_after_removed keep (merge_args argv)"
  shows "filter_o_opts keep argv = filter_spec keep (merge_args argv)
    \<and> (\<forall>a \<in> set (merge_args argv). strncmp_eq a ''-o'' 2 \<longrightarrow> length (filter_o_arg keep a) \<le> length a)"
  using assms filter_o_arg_fits by (simp add: filter_o_opts_list filter_args_spec)

theorem filter_o_opts_correct_witness:
  "filter_o_opts (\<lambda>s. s \<noteq> ''user'') [''bindfs'', ''-o'', ''ro,,user,nodev'', ''-ouser'', ''src'', []]
     = [''bindfs'', ''-oro,nodev'', ''src'', []]"
proof -
  have "no_o_after_removed (\<lambda>s. s \<noteq> ''user'') (merge_args [''bindfs'', ''-o'', ''ro,,user,nodev'', ''-ouser'', ''src'', []])"
    and e: "filter_spec (\<lambda>s. s \<noteq> ''user'') (merge_args [''bindfs'', ''-o'', ''ro,,user,nodev'', ''-ouser'', ''src'', []])
      = [''bindfs'', ''-oro,nodev'', ''src'', []]"
    by code_simp+
  from filter_o_opts_correct [OF this(1)] show ?thesis unfolding e by blast
qed

text \<open>
  When all options of an \<^verbatim>\<open>-o\<close> argument are rejected, the loop still advances its index past the
  argument that moves into the freed place: whatever stands there is kept as it is, rejected options
  included.
\<close>

lemma filter_o_opts_skips_next:
  assumes "strncmp_eq a ''-o'' 2" and "a \<noteq> ''-o''" and "b \<noteq> ''-o''" and "filter_o_arg keep a = []"
  shows "filter_o_opts keep (a # b # rest) = b # filter_o_opts keep rest"
  using assms by (cases rest) (simp_all add: filter_o_opts_list)

lemma filter_o_opts_skips_next_example:
  "filter_o_opts (\<lambda>s. s \<noteq> ''user'' \<and> s \<noteq> ''auto'') [''-ouser'', ''-oauto'', ''src''] = [''-oauto'', ''src'']"
proof -
  have "strncmp_eq ''-ouser'' ''-o'' 2" "filter_o_arg (\<lambda>s. s \<noteq> ''user'' \<and> s \<noteq> ''auto'') ''-ouser'' = []"
    by code_simp+
  moreover have "filter_o_opts (\<lambda>s. s \<noteq> ''user'' \<and> s \<noteq> ''auto'') [''src''] = [''src'']"
    unfolding filter_o_opts_list by code_simp
  ultimately show ?thesis
    using filter_o_opts_skips_next [of "''-ouser''" "''-oauto''" "\<lambda>s. s \<noteq> ''user'' \<and> s \<noteq> ''auto''" "[''src'']"] by simp
qed

text \<open>
  \<^verbatim>\<open>append_to_memory_block\<close> on a well-formed block below half the address space never aborts; it
  returns the old size as the offset of the new bytes, leaves the bytes before it in place and adds
  exactly the appended ones.
\<close>

lemma append_to_memory_block_contents:
  assumes "mb_ok a" and "length (mb_contents a) + length src \<le> 2 ^ 63"
  shows "\<exists>b. append_to_memory_block a src = Some (of_nat (length (mb_contents a)), b)
    \<and> mb_ok b \<and> mb_contents b = mb_contents a @ src
    \<and> take (length src) (drop (length (mb_contents a)) (mb_contents b)) = src"
  using mb.append_contents [OF assms] by auto

lemma append_to_memory_block_contents_example:
  "\<exists>b. append_to_memory_block MEMORY_BLOCK_INITIALIZER [1, 2] = Some (0, b) \<and> mb_contents b = [1, 2]"
  using append_to_memory_block_contents [of MEMORY_BLOCK_INITIALIZER "[1, 2]"]
  by (auto simp: mb_ok_def mb_contents_def MEMORY_BLOCK_INITIALIZER_def)

text \<open>
  \<^verbatim>\<open>count_substrs\<close> counts the (possibly overlapping) occurrences of the substring that end before
  the end of the string: an occurrence at the very end is not counted.
\<close>

lemma count_substrs_misses_last:
  "count_substrs s sub = card {i. i + length sub < length s \<and> take (length sub) (drop i s) = sub}"
  using count_substrs_inner by (simp add: inner_occurrences_def)

lemma strrchr_append: "slash \<notin> set b \<Longrightarrow> strrchr (d @ slash # b) slash = Some (length d)"
  using find_last_slash_component [of b d "[]"] by (simp add: strrchr_def)

lemma find_last_char_none: "p \<le> length s \<Longrightarrow> ch \<notin> set s \<Longrightarrow> find_last_char_before s p ch = None"
  by (induction p) (auto simp: in_set_conv_nth)

lemma my_dirname_cut:
  assumes b: "slash \<notin> set b" and d: "d \<noteq> []"
  shows "my_dirname (d @ slash # b) = d"
proof -
  have "d @ slash # b \<noteq> ''.''" "d @ slash # b \<noteq> ''/''"
    using d by (auto simp: append_eq_Cons_conv)
  with dirname_scan_found [OF refl d b] d show ?thesis by (simp add: my_dirname_def Let_def)
qed

lemma my_dirname_plain:
  assumes b: "slash \<notin> set b"
  shows "my_dirname (slash # b) = ''/''" and "b \<noteq> ''.'' \<Longrightarrow> my_dirname b = ''.''"
proof -
  have nth: "i < length b \<Longrightarrow> b ! i \<noteq> slash" for i using b by (metis nth_mem)
  have "dirname_scan (slash # b) (length (slash # b) - 1) = 0"
    using nth by (intro dirname_scan_none) (auto simp: nth_Cons')
  then show "my_dirname (slash # b) = ''/''" by (simp add: my_dirname_def Let_def)
  have "dirname_scan b (length b - 1) = 0" using nth by (intro dirname_scan_none) auto
  moreover have "b \<noteq> ''/''" "b \<noteq> [] \<Longrightarrow> hd b \<noteq> slash" using b by (auto dest: hd_in_set)
  ultimately show "b \<noteq> ''.'' \<Longrightarrow> my_dirname b = ''.''" by (auto simp: my_dirname_def Let_def)
qed

text \<open>
  \<^verbatim>\<open>my_dirname\<close> cuts a path at its last slash, keeps the root, and gives \<^verbatim>\<open>..\<close> for \<^verbatim>\<open>.\<close> and \<^verbatim>\<open>.\<close> for
  a plain name; \<^verbatim>\<open>my_basename\<close> is the part after that slash.
\<close>

lemma dirname_basename:
  assumes "slash \<notin> set b"
  shows "(d \<noteq> [] \<longrightarrow> my_dirname (d @ slash # b) = d)
    \<and> my_dirname (slash # b) = ''/''
    \<and> (b \<noteq> ''.'' \<longrightarrow> my_dirname b = ''.'') \<and> my_dirname ''.'' = ''..''
    \<and> my_basename (Some (d @ slash # b)) = Some b \<and> my_basename (Some b) = Some b"
proof (intro conjI impI)
  show "my_basename (Some (d @ slash # b)) = Some b"
    using strrchr_append [OF assms] by (simp add: my_basename_def)
  show "my_basename (Some b) = Some b"
    using assms by (simp add: my_basename_def strrchr_def find_last_char_none)
  show "my_dirname ''.'' = ''..''" by (simp add: my_dirname_def)
qed (use assms my_dirname_cut my_dirname_plain in simp_all)

text \<open>
  \<^verbatim>\<open>sprintf_new\<close> returns the whole formatted text, never a truncated one, in a buffer with room for
  the terminating byte, whatever the length of the text.
\<close>

lemma sprintf_new_complete:
  "fst (sprintf_new format out) = out \<and> length out < snd (sprintf_new format out)"
  using sprintf_loop_fits [of "length format + 32" out] by (simp add: sprintf_new_def)

end
