(* ===== verification/Ratelimiter.thy ===== *)
theory Ratelimiter
  imports Complex_Main Prelude "HOL-Library.Sublist"
begin

text \<open>
  \<^verbatim>\<open>src/rate_limiter.c\<close>: the limiter behind \<^verbatim>\<open>--read-rate\<close> and \<^verbatim>\<open>--write-rate\<close>.  C's \<^verbatim>\<open>double\<close> is modelled by
  the reals, and the accounting is exact; the conversion of a duration, which the code guards against rounding, takes the
  rounding of the floating-point operations as an argument.  The clock is an argument, the value the clock
  function returns at the call.  Here a call is one step; that the mutex makes it one for any interleaving of
  threads is shown in theory \<open>Limiterlock\<close>.
\<close>

section \<open>Model\<close>

record RateLimiter =
  rate :: real
  last_modified :: real
  accumulated_sleep_time :: real

definition rate_limiter_idle_credit :: real where
  "rate_limiter_idle_credit = - 0.2"

text \<open>\<open>tv\<close> is the pair of seconds and microseconds \<^verbatim>\<open>gettimeofday\<close> stores.\<close>

definition gettimeofday_clock :: "int \<times> int \<Rightarrow> real" where
  "gettimeofday_clock tv = real_of_int (fst tv) + real_of_int (snd tv) * 0.000001"

text \<open>A cast from \<^verbatim>\<open>double\<close> to an integer type truncates towards zero.\<close>

definition trunc :: "real \<Rightarrow> int" where
  "trunc r = (if 0 \<le> r then \<lfloor>r\<rfloor> else \<lceil>r\<rceil>)"

text \<open>
  The \<^verbatim>\<open>timespec\<close> that \<^verbatim>\<open>sleep_seconds\<close> passes to \<^verbatim>\<open>nanosleep\<close>.  \<open>rnd\<close> rounds the exact result of an operation (the conversion of
  \<^verbatim>\<open>tv_sec\<close> to \<^verbatim>\<open>double\<close>, the difference, the product) to a \<^verbatim>\<open>double\<close>.  The casts are to 64-bit types; that their arguments
  are in range is part of the property below.  With exact arithmetic \<open>rnd\<close> is the identity.
\<close>

definition sleep_nsec :: "(real \<Rightarrow> real) \<Rightarrow> real \<Rightarrow> int" where
  "sleep_nsec rnd s = trunc (rnd (rnd (s - rnd (real_of_int (trunc s))) * 1000000000))"

definition sleep_seconds :: "(real \<Rightarrow> real) \<Rightarrow> real \<Rightarrow> int \<times> int" where
  "sleep_seconds rnd s =
     (let tv_sec = trunc s;
          tv_nsec = sleep_nsec rnd s
      in if tv_nsec > 999999999 then (tv_sec, 999999999)
         else if tv_nsec < 0 then (tv_sec, 0)
         else (tv_sec, tv_nsec))"

definition rate_limiter_init :: "real \<Rightarrow> real \<Rightarrow> RateLimiter" where
  "rate_limiter_init r now =
     \<lparr>rate = r, last_modified = now, accumulated_sleep_time = rate_limiter_idle_credit\<rparr>"

definition rate_limiter_wait_nosleep :: "RateLimiter \<Rightarrow> real \<Rightarrow> size_t \<Rightarrow> real \<times> RateLimiter" where
  "rate_limiter_wait_nosleep limiter now sz =
     (let time_to_add = real (unat sz) / rate limiter;
          elapsed = (let e = now - last_modified limiter in if e < 0 then 0 else e);
          time_to_sleep = accumulated_sleep_time limiter - elapsed;
          time_to_sleep = (if time_to_sleep < rate_limiter_idle_credit then rate_limiter_idle_credit
                           else time_to_sleep);
          time_to_sleep = time_to_sleep + time_to_add
      in (time_to_sleep,
          limiter\<lparr>accumulated_sleep_time := time_to_sleep, last_modified := now\<rparr>))"

definition rate_limiter_wait :: "RateLimiter \<Rightarrow> real \<Rightarrow> size_t \<Rightarrow> (int \<times> int) \<times> RateLimiter" where
  "rate_limiter_wait limiter now sz =
     (let (time_to_sleep, limiter') = rate_limiter_wait_nosleep limiter now sz
      in (sleep_seconds id time_to_sleep, limiter'))"

text \<open>Requests \<open>(now, size)\<close> in the order in which they take the mutex.\<close>

fun serve :: "RateLimiter \<Rightarrow> (real \<times> size_t) list \<Rightarrow> RateLimiter" where
  "serve limiter [] = limiter"
| "serve limiter ((now, sz) # reqs) = serve (snd (rate_limiter_wait_nosleep limiter now sz)) reqs"

section \<open>Invariant and algebra of a step\<close>

definition limiter_ok :: "RateLimiter \<Rightarrow> bool" where
  "limiter_ok l \<longleftrightarrow> 0 < rate l \<and> rate_limiter_idle_credit \<le> accumulated_sleep_time l"

text \<open>The clock reading at which everything let through so far has been paid for.\<close>

definition cleared_at :: "RateLimiter \<Rightarrow> real" where
  "cleared_at l = last_modified l + accumulated_sleep_time l"

definition cost :: "RateLimiter \<Rightarrow> (real \<times> size_t) list \<Rightarrow> real" where
  "cost l reqs = (\<Sum>(now, sz)\<leftarrow>reqs. real (unat sz)) / rate l"

fun clock_monotone :: "real \<Rightarrow> (real \<times> size_t) list \<Rightarrow> bool" where
  "clock_monotone t [] \<longleftrightarrow> True"
| "clock_monotone t ((now, sz) # reqs) \<longleftrightarrow> t \<le> now \<and> clock_monotone now reqs"

abbreviation step :: "RateLimiter \<Rightarrow> real \<Rightarrow> size_t \<Rightarrow> RateLimiter" where
  "step l now sz \<equiv> snd (rate_limiter_wait_nosleep l now sz)"

lemma step_simps [simp]:
  "rate (step l now sz) = rate l" "last_modified (step l now sz) = now"
  "fst (rate_limiter_wait_nosleep l now sz) = accumulated_sleep_time (step l now sz)"
  by (simp_all add: rate_limiter_wait_nosleep_def Let_def)

lemma step_accumulated:
  "accumulated_sleep_time (step l now sz) =
     max (accumulated_sleep_time l - max 0 (now - last_modified l)) rate_limiter_idle_credit
     + real (unat sz) / rate l"
  by (simp add: rate_limiter_wait_nosleep_def Let_def max_def)

lemma step_ok: "limiter_ok l \<Longrightarrow> limiter_ok (step l now sz)"
proof -
  assume ok: "limiter_ok l"
  then have "0 \<le> real (unat sz) / rate l" by (simp add: limiter_ok_def del: of_nat_unat)
  then have "rate_limiter_idle_credit \<le> accumulated_sleep_time (step l now sz)"
    unfolding step_accumulated by (intro add_increasing2) simp_all
  with ok show ?thesis by (simp add: limiter_ok_def)
qed

lemma cleared_at_step:
  "last_modified l \<le> now \<Longrightarrow>
   cleared_at (step l now sz) = max (cleared_at l) (now + rate_limiter_idle_credit) + real (unat sz) / rate l"
  by (simp add: cleared_at_def step_accumulated max_def)

lemma cost_Cons: "cost l ((now, sz) # reqs) = real (unat sz) / rate l + cost l reqs"
  by (simp add: cost_def add_divide_distrib)

lemma cost_snoc: "cost l (reqs @ [(now, sz)]) = cost l reqs + real (unat sz) / rate l"
  by (simp add: cost_def add_divide_distrib)

lemma cost_step [simp]: "cost (step l now sz) reqs = cost l reqs"
  by (simp add: cost_def)

lemma serve_ok: "limiter_ok l \<Longrightarrow> limiter_ok (serve l reqs) \<and> rate (serve l reqs) = rate l"
  by (induction l reqs rule: serve.induct) (simp_all add: step_ok)

lemma serve_append: "serve l (xs @ ys) = serve (serve l xs) ys"
  by (induction l xs rule: serve.induct) simp_all

lemma serve_cleared_ge:
  "clock_monotone (last_modified l) reqs \<Longrightarrow> cleared_at l + cost l reqs \<le> cleared_at (serve l reqs)"
proof (induction l reqs rule: serve.induct)
  case (2 l now sz reqs)
  then show ?case using cleared_at_step [of l now sz] by (simp add: cost_Cons)
qed (simp add: cost_def)

lemma clock_monotone_append:
  "clock_monotone (last_modified l) (xs @ ys) \<longleftrightarrow>
   clock_monotone (last_modified l) xs \<and> clock_monotone (last_modified (serve l xs)) ys"
  by (induction l xs rule: serve.induct) auto

text \<open>A non-empty window costs at least its own requests, counted from its first clock reading.\<close>

lemma serve_window_ge:
  assumes "clock_monotone (last_modified l) ((t, sz) # ys)"
  shows "t + rate_limiter_idle_credit + cost l ((t, sz) # ys) \<le> cleared_at (serve l ((t, sz) # ys))"
proof -
  have "t + rate_limiter_idle_credit + real (unat sz) / rate l \<le> cleared_at (step l t sz)"
    using assms by (simp add: cleared_at_step)
  moreover have "cleared_at (step l t sz) + cost l ys \<le> cleared_at (serve (step l t sz) ys)"
    using serve_cleared_ge [of "step l t sz" ys] assms by simp
  ultimately show ?thesis by (simp add: cost_Cons)
qed

text \<open>And some window, or the whole history, is charged exactly.\<close>

lemma serve_exact:
  "clock_monotone (last_modified l) reqs \<Longrightarrow>
   cleared_at (serve l reqs) = cleared_at l + cost l reqs \<or>
   (\<exists>xs t sz ys. reqs = xs @ (t, sz) # ys
      \<and> cleared_at (serve l reqs) = t + rate_limiter_idle_credit + cost l ((t, sz) # ys))"
proof (induction reqs rule: rev_induct)
  case Nil
  then show ?case by (simp add: cost_def)
next
  case (snoc r reqs)
  obtain now sz where r: "r = (now, sz)" by (cases r)
  let ?l = "serve l reqs"
  have mono: "clock_monotone (last_modified l) reqs" "last_modified ?l \<le> now"
    using snoc.prems by (simp_all add: r clock_monotone_append)
  have rt: "rate ?l = rate l" by (induction l reqs rule: serve.induct) simp_all
  have s: "cleared_at (serve l (reqs @ [r])) = max (cleared_at ?l) (now + rate_limiter_idle_credit) + real (unat sz) / rate l"
    by (simp add: serve_append r cleared_at_step [OF mono(2)] rt)
  show ?case
  proof (cases "cleared_at ?l \<le> now + rate_limiter_idle_credit")
    case True
    then have "cleared_at (serve l (reqs @ [r])) = now + rate_limiter_idle_credit + cost l [(now, sz)]"
      by (simp add: s cost_Cons) (simp add: cost_def)
    then show ?thesis unfolding r by blast
  next
    case False
    then have e: "cleared_at (serve l (reqs @ [r])) = cleared_at ?l + real (unat sz) / rate l"
      by (simp add: s)
    from snoc.IH [OF mono(1)] show ?thesis
    proof
      assume "cleared_at ?l = cleared_at l + cost l reqs"
      then have "cleared_at (serve l (reqs @ [r])) = cleared_at l + cost l (reqs @ [r])"
        unfolding e by (simp add: r cost_snoc)
      then show ?thesis ..
    next
      assume "\<exists>xs t sz ys. reqs = xs @ (t, sz) # ys
        \<and> cleared_at ?l = t + rate_limiter_idle_credit + cost l ((t, sz) # ys)"
      then obtain xs t sz' ys where w: "reqs = xs @ (t, sz') # ys"
          "cleared_at ?l = t + rate_limiter_idle_credit + cost l ((t, sz') # ys)" by blast
      have "reqs @ [r] = xs @ (t, sz') # (ys @ [r])" by (simp add: w(1))
      moreover have "cleared_at (serve l (reqs @ [r])) = t + rate_limiter_idle_credit + cost l ((t, sz') # (ys @ [r]))"
        unfolding e w(2) by (simp add: r cost_snoc cost_Cons)
      ultimately show ?thesis by blast
    qed
  qed
qed

section \<open>The duration of the sleep\<close>

lemma sleep_seconds_bounds:
  assumes "rate_limiter_idle_credit \<le> s"
  shows "case sleep_seconds id s of (tv_sec, tv_nsec) \<Rightarrow>
    0 \<le> tv_sec \<and> 0 \<le> tv_nsec \<and> tv_nsec \<le> 999999999
    \<and> real_of_int tv_sec + real_of_int tv_nsec / 10 ^ 9 \<le> max 0 s
    \<and> s < real_of_int tv_sec + real_of_int (tv_nsec + 1) / 10 ^ 9"
proof (cases "0 \<le> s")
  case True
  define f where "f = (s - real_of_int \<lfloor>s\<rfloor>) * 1000000000"
  have "0 \<le> s - real_of_int \<lfloor>s\<rfloor>" "s - real_of_int \<lfloor>s\<rfloor> < 1" by linarith+
  then have f: "0 \<le> f" "f < 1000000000" by (simp_all add: f_def)
  have fl: "0 \<le> \<lfloor>f\<rfloor>" "\<lfloor>f\<rfloor> \<le> 999999999" using f by linarith+
  have "sleep_seconds id s = (\<lfloor>s\<rfloor>, \<lfloor>f\<rfloor>)"
  proof -
    have ts: "trunc s = \<lfloor>s\<rfloor>" and tf: "trunc f = \<lfloor>f\<rfloor>" using True f(1) by (simp_all add: trunc_def)
    show ?thesis unfolding sleep_seconds_def sleep_nsec_def id_apply Let_def ts f_def [symmetric] tf using fl by simp
  qed
  moreover have "real_of_int \<lfloor>f\<rfloor> \<le> f" "f < real_of_int \<lfloor>f\<rfloor> + 1" by linarith+
  ultimately show ?thesis using True fl by (simp add: f_def field_simps)
next
  case False
  have "\<lceil>s\<rceil> = 0" using False assms by (simp add: rate_limiter_idle_credit_def ceiling_eq_iff)
  moreover have "\<lceil>s * 1000000000\<rceil> \<le> 0" using False by simp
  moreover have "s * 1000000000 < real_of_int \<lceil>s * 1000000000\<rceil> + 1" by linarith
  ultimately show ?thesis using False by (auto simp: sleep_seconds_def sleep_nsec_def trunc_def Let_def)
qed

text \<open>
  A \<^verbatim>\<open>double\<close> result is within half a unit in the last place of the exact one, for numbers far from overflow: a relative error
  of at most 2^-53, or an absolute one of 2^-1074 among the subnormal numbers.
\<close>

definition rounds_like_double :: "(real \<Rightarrow> real) \<Rightarrow> bool" where
  "rounds_like_double rnd \<longleftrightarrow> (\<forall>x. \<bar>x\<bar> \<le> 2 ^ 64 \<longrightarrow> \<bar>rnd x - x\<bar> \<le> \<bar>x\<bar> / 2 ^ 53 + 1 / 2 ^ 1074)"

lemma rounds_small:
  assumes "rounds_like_double rnd" and "\<bar>x\<bar> \<le> b" and "1 \<le> b" and "b \<le> 2 ^ 63"
  shows "\<bar>rnd x - x\<bar> \<le> b / 2 ^ 52"
proof -
  have "\<bar>rnd x - x\<bar> \<le> \<bar>x\<bar> / 2 ^ 53 + 1 / 2 ^ 1074" using assms by (simp add: rounds_like_double_def)
  also have "(1 :: real) / 2 ^ 1074 \<le> 1 / 2 ^ 53" by (intro divide_left_mono power_increasing) simp_all
  also have "\<bar>x\<bar> / 2 ^ 53 + 1 / 2 ^ 53 \<le> b / 2 ^ 52" using assms(2,3) by (simp add: field_simps)
  finally show ?thesis by simp
qed

lemma trunc_between: "0 \<le> r \<Longrightarrow> 0 \<le> trunc r \<and> real_of_int (trunc r) \<le> r \<and> r < real_of_int (trunc r) + 1"
  "r \<le> 0 \<Longrightarrow> trunc r \<le> 0 \<and> r \<le> real_of_int (trunc r) \<and> real_of_int (trunc r) < r + 1"
  by (auto simp: trunc_def) linarith+

text \<open>The rounded number of nanoseconds is off by less than a thousandth of one.\<close>

lemma nanoseconds_rounded:
  assumes rnd: "rounds_like_double rnd" and n: "rnd (real_of_int (trunc s)) = real_of_int (trunc s)" and d: "\<bar>s - real_of_int (trunc s)\<bar> \<le> 1"
  shows "\<bar>rnd (rnd (s - rnd (real_of_int (trunc s))) * 1000000000) - (s - real_of_int (trunc s)) * 1000000000\<bar> \<le> 1 / 1000000"
proof -
  let ?d = "s - real_of_int (trunc s)"
  have e: "\<bar>rnd ?d - ?d\<bar> \<le> 1 / 2 ^ 52" using rounds_small [OF rnd d] by simp
  have "(1 :: real) / 2 ^ 52 \<le> 1" by simp
  with e d have "\<bar>rnd ?d\<bar> \<le> 2" by linarith
  then have "\<bar>rnd ?d * 1000000000\<bar> \<le> 2000000000" by (simp add: abs_le_iff)
  from rounds_small [OF rnd this] have "\<bar>rnd (rnd ?d * 1000000000) - rnd ?d * 1000000000\<bar> \<le> 2000000000 / 2 ^ 52" by simp
  moreover have "\<bar>rnd ?d * 1000000000 - ?d * 1000000000\<bar> \<le> 1000000000 / 2 ^ 52"
  proof -
    have "rnd ?d * 1000000000 - ?d * 1000000000 = (rnd ?d - ?d) * 1000000000" by (rule left_diff_distrib [symmetric])
    then have "\<bar>rnd ?d * 1000000000 - ?d * 1000000000\<bar> = \<bar>rnd ?d - ?d\<bar> * 1000000000" by (simp only: abs_mult)
    with e show ?thesis by simp
  qed
  ultimately have "\<bar>rnd (rnd ?d * 1000000000) - ?d * 1000000000\<bar> \<le> 2000000000 / 2 ^ 52 + 1000000000 / 2 ^ 52" by linarith
  also have "\<dots> \<le> (1 / 1000000 :: real)" by simp
  finally show ?thesis by (simp add: n)
qed

section \<open>Properties\<close>

text \<open>
  C20. The throughput bound.  With a clock that does not go back, for every window of consecutive
  requests (of any threads), the bytes of the window do not exceed the rate times the time from the
  window's first clock reading to the moment its last request has slept, plus the idle credit of
  0.2 seconds.  The sleep the limiter returns is never below the credit.
\<close>

theorem rate_limiter_throughput:
  assumes "0 < r" and "clock_monotone t0 (xs @ (t, sz) # ys)"
  shows "let l = serve (rate_limiter_init r t0) (xs @ (t, sz) # ys) in
    (\<Sum>(now, n)\<leftarrow>(t, sz) # ys. real (unat n)) \<le> r * ((last_modified l + accumulated_sleep_time l) - t + 0.2)
    \<and> rate_limiter_idle_credit \<le> accumulated_sleep_time l"
proof -
  let ?i = "rate_limiter_init r t0"
  let ?l = "serve ?i (xs @ (t, sz) # ys)"
  have ok: "limiter_ok ?i" using assms(1) by (simp add: limiter_ok_def rate_limiter_init_def)
  have "clock_monotone (last_modified (serve ?i xs)) ((t, sz) # ys)"
    using assms(2) clock_monotone_append [of ?i] by (simp add: rate_limiter_init_def)
  from serve_window_ge [OF this]
  have "t - 0.2 + cost (serve ?i xs) ((t, sz) # ys) \<le> cleared_at ?l"
    by (simp add: serve_append rate_limiter_idle_credit_def)
  moreover have "rate (serve ?i xs) = r" using serve_ok [OF ok, of xs] by (simp add: rate_limiter_init_def)
  ultimately have "(\<Sum>(now, n)\<leftarrow>(t, sz) # ys. real (unat n)) / r \<le> cleared_at ?l - t + 0.2"
    by (simp add: cost_def)
  then show ?thesis
    using assms(1) serve_ok [OF ok, of "xs @ (t, sz) # ys"]
    by (simp add: Let_def pos_divide_le_eq mult.commute limiter_ok_def cleared_at_def)
qed

theorem rate_limiter_throughput_witness:
  "accumulated_sleep_time (serve (rate_limiter_init 10 100) [(100, 30), (100.5, 20)]) = 4.3
   \<and> 30 + 20 \<le> 10 * ((100.5 + 4.3) - 100 + 0.2 :: real)"
proof -
  have "accumulated_sleep_time (serve (rate_limiter_init 10 100) [(100, 30), (100.5, 20)]) = 4.3"
    by (simp add: rate_limiter_init_def rate_limiter_wait_nosleep_def rate_limiter_idle_credit_def Let_def)
  then show ?thesis
    using rate_limiter_throughput [of 10 100 "[]" 100 30 "[(100.5, 20)]"]
    by (simp add: Let_def rate_limiter_wait_nosleep_def)
qed

text \<open>
  C30. The limiter does not throttle more than that bound requires: with a clock that does not go back, after any sequence of requests
  the charge is exactly that of the whole history since the limiter was made, or of one window of
  requests measured from the window's first clock reading.
\<close>

theorem rate_limiter_not_too_slow:
  assumes "0 < r" and "clock_monotone t0 reqs"
  shows "\<exists>t ys. (t, ys) \<in> insert (t0, reqs) {(fst (hd ws), ws) | ws. ws \<noteq> [] \<and> suffix ws reqs}
    \<and> last_modified (serve (rate_limiter_init r t0) reqs) + accumulated_sleep_time (serve (rate_limiter_init r t0) reqs)
      = t - 0.2 + (\<Sum>(now, n)\<leftarrow>ys. real (unat n)) / r"
proof -
  let ?i = "rate_limiter_init r t0"
  have i: "last_modified ?i = t0" "rate ?i = r" "cleared_at ?i = t0 - 0.2"
    by (simp_all add: rate_limiter_init_def cleared_at_def rate_limiter_idle_credit_def)
  from serve_exact [of ?i reqs] assms(2) i(1)
  consider "cleared_at (serve ?i reqs) = cleared_at ?i + cost ?i reqs"
    | xs t sz ys where "reqs = xs @ (t, sz) # ys"
        "cleared_at (serve ?i reqs) = t + rate_limiter_idle_credit + cost ?i ((t, sz) # ys)" by auto
  then show ?thesis
  proof cases
    case 1
    then have "cleared_at (serve ?i reqs) = t0 - 0.2 + (\<Sum>(now, n)\<leftarrow>reqs. real (unat n)) / r"
      by (simp add: i cost_def)
    then show ?thesis unfolding cleared_at_def by blast
  next
    case 2
    then have "cleared_at (serve ?i reqs) = t - 0.2 + (\<Sum>(now, n)\<leftarrow>(t, sz) # ys. real (unat n)) / r"
      by (simp add: i cost_def rate_limiter_idle_credit_def)
    moreover have "(t, (t, sz) # ys) \<in> {(fst (hd ws), ws) | ws. ws \<noteq> [] \<and> suffix ws reqs}"
      using 2(1) by (auto simp: suffix_def)
    ultimately show ?thesis unfolding cleared_at_def by blast
  qed
qed

theorem rate_limiter_not_too_slow_witness:
  "accumulated_sleep_time (serve (rate_limiter_init 10 100) [(100, 30), (300, 20)]) = 1.8
   \<and> (\<exists>t ys. (t, ys) \<in> insert (100, [(100, 30), (300, 20)]) {(fst (hd ws), ws) | ws. ws \<noteq> [] \<and> suffix ws [(100, 30), (300, 20 :: size_t)]}
        \<and> 300 + 1.8 = t - 0.2 + (\<Sum>(now, n)\<leftarrow>ys. real (unat n)) / 10)"
proof -
  have "accumulated_sleep_time (serve (rate_limiter_init 10 100) [(100, 30), (300, 20)]) = 1.8"
    "last_modified (serve (rate_limiter_init 10 100) [(100, 30), (300, 20)]) = 300"
    by (simp_all add: rate_limiter_init_def rate_limiter_wait_nosleep_def rate_limiter_idle_credit_def Let_def)
  with rate_limiter_not_too_slow [of 10 100 "[(100, 30), (300, 20)]"] show ?thesis
    by (simp only: clock_monotone.simps) simp
qed

text \<open>
  C31. \<^verbatim>\<open>sleep_seconds\<close> hands \<^verbatim>\<open>nanosleep\<close> a valid duration, whatever the rounding of the \<^verbatim>\<open>double\<close> operations within the error bound
  of IEEE arithmetic, for any sleep the limiter can ask for (not below the credit of -0.2 seconds) of less than 2^63 seconds
  whose whole part is a \<^verbatim>\<open>double\<close>: both casts stay in the range of 64-bit integers, the seconds are not negative, the
  nanoseconds are between 0 and 999999999, the duration exceeds what was asked for by at most 10^-15 seconds and falls short of it
  by at most a nanosecond and 10^-15 seconds; a sleep that is not positive becomes zero.
\<close>

theorem sleep_seconds_valid:
  assumes "rounds_like_double rnd" and "rnd (real_of_int (trunc s)) = real_of_int (trunc s)"
    and "rate_limiter_idle_credit \<le> s" and "s < 2 ^ 63"
  shows "case sleep_seconds rnd s of (tv_sec, tv_nsec) \<Rightarrow>
    0 \<le> tv_sec \<and> tv_sec < 2 ^ 63 \<and> \<bar>sleep_nsec rnd s\<bar> < 2 ^ 63 \<and> 0 \<le> tv_nsec \<and> tv_nsec \<le> 999999999
    \<and> real_of_int tv_sec + real_of_int tv_nsec / 10 ^ 9 \<le> max 0 s + 1 / 10 ^ 15
    \<and> s \<le> real_of_int tv_sec + real_of_int tv_nsec / 10 ^ 9 + 1 / 10 ^ 9 + 1 / 10 ^ 15
    \<and> (s \<le> 0 \<longrightarrow> tv_sec = 0 \<and> tv_nsec = 0)"
proof -
  define d where "d = s - real_of_int (trunc s)"
  define q where "q = rnd (rnd (s - rnd (real_of_int (trunc s))) * 1000000000)"
  have nsec: "sleep_nsec rnd s = trunc q" by (simp add: sleep_nsec_def q_def)
  have sec: "0 \<le> trunc s" "trunc s < 2 ^ 63" "real_of_int (trunc s) \<le> max 0 s" and d: "d < 1" "- 1 \<le> d" and neg: "s \<le> 0 \<Longrightarrow> trunc s = 0"
    "0 \<le> s \<Longrightarrow> 0 \<le> d"
    using assms(3,4) unfolding d_def trunc_def rate_limiter_idle_credit_def by (auto; linarith)+
  have q: "\<bar>q - d * 1000000000\<bar> \<le> 1 / 1000000"
    unfolding q_def d_def using assms(1,2) d by (intro nanoseconds_rounded) (simp_all add: d_def)
  define c where "c = (if trunc q > 999999999 then 999999999 else if trunc q < 0 then 0 else trunc q)"
  have run: "sleep_seconds rnd s = (trunc s, c)" by (simp add: sleep_seconds_def nsec c_def Let_def)
  have c: "0 \<le> c" "c \<le> 999999999" "real_of_int c \<le> max 0 q" "q - 1 \<le> real_of_int c \<or> c = 999999999"
  proof -
    consider "0 \<le> q" "0 \<le> trunc q" "real_of_int (trunc q) \<le> q" "q < real_of_int (trunc q) + 1" | "q \<le> 0" "trunc q \<le> 0"
      using trunc_between [of q] by linarith
    then show "0 \<le> c" "c \<le> 999999999" "real_of_int c \<le> max 0 q" "q - 1 \<le> real_of_int c \<or> c = 999999999"
      by (cases; auto simp: c_def)+
  qed
  have s: "s = real_of_int (trunc s) + d" by (simp add: d_def)
  have c0: "c = 0" if "s \<le> 0"
    using that c(1,3) q neg(1) s by (simp add: max_def split: if_splits)
  have "\<bar>q\<bar> \<le> 1000000001" using q d by linarith
  then have "\<bar>real_of_int (trunc q)\<bar> \<le> 1000000001" using trunc_between [of q] by linarith
  then have "\<bar>trunc q\<bar> < 2 ^ 63" by (simp add: abs_le_iff abs_less_iff)
  moreover have "real_of_int (trunc s) + real_of_int c / 10 ^ 9 \<le> max 0 s + 1 / 10 ^ 15"
  proof (cases "s \<le> 0")
    case False
    then have "0 \<le> d" using neg(2) by simp
    moreover have "q \<le> d * 1000000000 + 1 / 1000000" using q by linarith
    ultimately have "real_of_int c \<le> d * 1000000000 + 1 / 1000000" using c(3) by (simp add: max_def split: if_splits)
    then have "real_of_int c / 10 ^ 9 \<le> d + 1 / 10 ^ 15" by simp
    then show ?thesis using s False by linarith
  qed (simp add: c0 neg)
  moreover have "s \<le> real_of_int (trunc s) + real_of_int c / 10 ^ 9 + 1 / 10 ^ 9 + 1 / 10 ^ 15"
    using c(4)
  proof
    assume "q - 1 \<le> real_of_int c"
    then have "d * 1000000000 \<le> real_of_int c + 1 + 1 / 1000000" using q by linarith
    then have "d \<le> real_of_int c / 10 ^ 9 + 1 / 10 ^ 9 + 1 / 10 ^ 15" by simp
    then show ?thesis using s by linarith
  qed (use d(1) s in simp)
  ultimately show ?thesis using sec c(1,2) neg(1) c0 by (simp add: run nsec)
qed

text \<open>
  A sleep of 1.8 seconds with exact arithmetic, and one of nearly a second with a rounding that always goes up as far as the bound
  allows: there the product reaches a whole second, and the guard caps it.
\<close>

theorem sleep_seconds_valid_witness:
  "rounds_like_double id \<and> sleep_seconds id 1.8 = (1, 800000000) \<and> (800000000 :: int) \<le> 999999999
   \<and> rounds_like_double (\<lambda>x. x + \<bar>x\<bar> / 2 ^ 53)
   \<and> 999999999 < sleep_nsec (\<lambda>x. x + \<bar>x\<bar> / 2 ^ 53) (1 - 1 / 2 ^ 54)
   \<and> (case sleep_seconds (\<lambda>x. x + \<bar>x\<bar> / 2 ^ 53) (1 - 1 / 2 ^ 54) of (tv_sec, tv_nsec) \<Rightarrow> 0 \<le> tv_nsec \<and> tv_nsec \<le> 999999999)"
proof -
  let ?up = "\<lambda>x :: real. x + \<bar>x\<bar> / 2 ^ 53" and ?s = "1 - 1 / 2 ^ 54 :: real"
  have f: "\<lfloor>1.8 :: real\<rfloor> = 1" by (simp add: floor_eq_iff)
  have v: "sleep_seconds id 1.8 = (1, 800000000)"
    unfolding sleep_seconds_def sleep_nsec_def trunc_def Let_def id_apply f by (simp add: f)
  have id: "rounds_like_double id" "id (real_of_int (trunc 1.8)) = real_of_int (trunc 1.8)" "rate_limiter_idle_credit \<le> 1.8"
      "(1.8 :: real) < 2 ^ 63"
    by (simp_all add: rounds_like_double_def rate_limiter_idle_credit_def)
  have zero: "trunc ?s = 0" unfolding trunc_def by (simp add: floor_eq_iff)
  have up: "rounds_like_double ?up" "?up (real_of_int (trunc ?s)) = real_of_int (trunc ?s)" "rate_limiter_idle_credit \<le> ?s" "?s < 2 ^ 63"
    unfolding zero by (simp_all add: rounds_like_double_def rate_limiter_idle_credit_def)
  have "1000000000 \<le> ?up (?up ?s * 1000000000)" by (simp add: abs_if)
  then have "1000000000 \<le> sleep_nsec ?up ?s" unfolding sleep_nsec_def zero by (simp add: trunc_def le_floor_iff)
  then show ?thesis
    using sleep_seconds_valid [OF id] sleep_seconds_valid [OF up] v id(1) up(1) by (auto split: prod.splits)
qed

end
