(* ===== verification/Limiterlock.thy ===== *)
theory Limiterlock
  imports Ratelimiter
begin

text \<open>
  Threads calling \<^verbatim>\<open>rate_limiter_wait\<close> (\<^verbatim>\<open>src/rate_limiter.c\<close>) on one limiter at the same time: the mutex, the reads and
  writes of the limiter under it, the clock, and the sleep, which a signal can cut short.
\<close>

section \<open>The steps of a call\<close>

datatype lpc =
    Out
  | Want_lock size_t          \<comment> \<open>before \<open>pthread_mutex_lock\<close>\<close>
  | Locked size_t             \<comment> \<open>mutex held, about to read the clock\<close>
  | Clocked size_t real       \<comment> \<open>\<open>now\<close> is known\<close>
  | Stored real real          \<comment> \<open>\<open>accumulated_sleep_time\<close> is written; \<open>now\<close> and \<open>time_to_sleep\<close>\<close>
  | Computed real             \<comment> \<open>\<open>last_modified\<close> is written, before \<open>pthread_mutex_unlock\<close>\<close>
  | Sleep_for real            \<comment> \<open>returned from \<open>rate_limiter_wait_nosleep\<close>\<close>
  | Sleeping real             \<comment> \<open>in \<open>nanosleep\<close>, until the given time\<close>

text \<open>
  \<open>wall\<close> is the time and \<open>reading\<close> the last reading of the clock, which can be any number.  Four fields only record
  history: whether no reading so far went back or was ahead of the time, the requests in the order in which they got the
  mutex, the number in this order of each thread's request, and the numbers of the requests that have slept to the end.
\<close>

record limiter_state =
  shared_limiter :: RateLimiter
  mutex :: "nat option"
  lpcs :: "nat \<Rightarrow> lpc"
  wall :: real
  reading :: real
  clock_fine :: bool
  tickets :: "(real \<times> size_t) list"
  ticket :: "nat \<Rightarrow> nat"
  finished :: "nat set"

definition lgoto :: "nat \<Rightarrow> lpc \<Rightarrow> limiter_state \<Rightarrow> limiter_state" where
  "lgoto t p \<sigma> = \<sigma>\<lparr>lpcs := (lpcs \<sigma>)(t := p)\<rparr>"

text \<open>Between \<^verbatim>\<open>pthread_mutex_lock\<close> and \<^verbatim>\<open>pthread_mutex_unlock\<close>.\<close>

fun critical :: "lpc \<Rightarrow> bool" where
  "critical (Locked sz) \<longleftrightarrow> True"
| "critical (Clocked sz now) \<longleftrightarrow> True"
| "critical (Stored now tts) \<longleftrightarrow> True"
| "critical (Computed tts) \<longleftrightarrow> True"
| "critical _ \<longleftrightarrow> False"

text \<open>The seconds in a \<^verbatim>\<open>timespec\<close>.\<close>

definition duration :: "int \<times> int \<Rightarrow> real" where
  "duration ts = real_of_int (fst ts) + real_of_int (snd ts) / 10 ^ 9"

inductive limiter_step :: "limiter_state \<Rightarrow> limiter_state \<Rightarrow> bool" where
  enter: "lpcs \<sigma> t = Out \<Longrightarrow> limiter_step \<sigma> (lgoto t (Want_lock sz) \<sigma>)"
| lock: "lpcs \<sigma> t = Want_lock sz \<Longrightarrow> mutex \<sigma> = None \<Longrightarrow> limiter_step \<sigma> (lgoto t (Locked sz) (\<sigma>\<lparr>mutex := Some t\<rparr>))"
| clock: "lpcs \<sigma> t = Locked sz \<Longrightarrow>
    limiter_step \<sigma> (lgoto t (Clocked sz now) (\<sigma>\<lparr>reading := now, clock_fine := clock_fine \<sigma> \<and> reading \<sigma> \<le> now \<and> now \<le> wall \<sigma>,
                                               tickets := tickets \<sigma> @ [(now, sz)],
                                               ticket := (ticket \<sigma>)(t := length (tickets \<sigma>))\<rparr>))"
| store: "lpcs \<sigma> t = Clocked sz now \<Longrightarrow> tts = fst (rate_limiter_wait_nosleep (shared_limiter \<sigma>) now sz) \<Longrightarrow>
    limiter_step \<sigma> (lgoto t (Stored now tts) (\<sigma>\<lparr>shared_limiter := (shared_limiter \<sigma>)\<lparr>accumulated_sleep_time := tts\<rparr>\<rparr>))"
| store_time: "lpcs \<sigma> t = Stored now tts \<Longrightarrow>
    limiter_step \<sigma> (lgoto t (Computed tts) (\<sigma>\<lparr>shared_limiter := (shared_limiter \<sigma>)\<lparr>last_modified := now\<rparr>\<rparr>))"
| unlock: "lpcs \<sigma> t = Computed tts \<Longrightarrow> limiter_step \<sigma> (lgoto t (Sleep_for tts) (\<sigma>\<lparr>mutex := None\<rparr>))"
| sleep: "lpcs \<sigma> t = Sleep_for tts \<Longrightarrow> limiter_step \<sigma> (lgoto t (Sleeping (wall \<sigma> + duration (sleep_seconds id tts))) \<sigma>)"
| wake: "lpcs \<sigma> t = Sleeping d \<Longrightarrow> d \<le> wall \<sigma> \<Longrightarrow>
    limiter_step \<sigma> (lgoto t Out (\<sigma>\<lparr>finished := insert (ticket \<sigma> t) (finished \<sigma>)\<rparr>))"
| interrupted: "lpcs \<sigma> t = Sleeping d \<Longrightarrow> limiter_step \<sigma> (lgoto t Out \<sigma>)"
| pass: "wall \<sigma> \<le> w \<Longrightarrow> limiter_step \<sigma> (\<sigma>\<lparr>wall := w\<rparr>)"

definition initial_limiter :: "real \<Rightarrow> real \<Rightarrow> real \<Rightarrow> limiter_state" where
  "initial_limiter r t0 w =
     \<lparr>shared_limiter = rate_limiter_init r t0, mutex = None, lpcs = (\<lambda>_. Out), wall = w, reading = t0, clock_fine = (t0 \<le> w),
      tickets = [], ticket = (\<lambda>_. 0), finished = {}\<rparr>"

lemma lgoto_simps [simp]:
  "lpcs (lgoto t p \<sigma>) = (lpcs \<sigma>)(t := p)" "shared_limiter (lgoto t p \<sigma>) = shared_limiter \<sigma>"
  "mutex (lgoto t p \<sigma>) = mutex \<sigma>" "wall (lgoto t p \<sigma>) = wall \<sigma>" "reading (lgoto t p \<sigma>) = reading \<sigma>"
  "clock_fine (lgoto t p \<sigma>) = clock_fine \<sigma>"
  "tickets (lgoto t p \<sigma>) = tickets \<sigma>" "ticket (lgoto t p \<sigma>) = ticket \<sigma>" "finished (lgoto t p \<sigma>) = finished \<sigma>"
  by (simp_all add: lgoto_def)

section \<open>The invariant\<close>

text \<open>When the request with the given number, and all before it, are paid for.\<close>

definition paid :: "RateLimiter \<Rightarrow> (real \<times> size_t) list \<Rightarrow> nat \<Rightarrow> real" where
  "paid l reqs n = cleared_at (serve l (take (Suc n) reqs))"

lemma paid_append [simp]: "n < length reqs \<Longrightarrow> paid l (reqs @ xs) n = paid l reqs n"
  by (simp add: paid_def)

lemma paid_last: "paid l (reqs @ [r]) (length reqs) = cleared_at (serve l (reqs @ [r]))"
  by (simp add: paid_def)

definition thread_ok :: "RateLimiter \<Rightarrow> limiter_state \<Rightarrow> nat \<Rightarrow> bool" where
  "thread_ok l \<sigma> t =
     (case lpcs \<sigma> t of
        Out \<Rightarrow> mutex \<sigma> \<noteq> Some t
      | Want_lock sz \<Rightarrow> mutex \<sigma> \<noteq> Some t
      | Locked sz \<Rightarrow> mutex \<sigma> = Some t \<and> shared_limiter \<sigma> = serve l (tickets \<sigma>)
      | Clocked sz now \<Rightarrow> mutex \<sigma> = Some t
          \<and> (\<exists>ts. tickets \<sigma> = ts @ [(now, sz)] \<and> ticket \<sigma> t = length ts \<and> shared_limiter \<sigma> = serve l ts)
      | Stored now tts \<Rightarrow> mutex \<sigma> = Some t
          \<and> (\<exists>ts sz. tickets \<sigma> = ts @ [(now, sz)] \<and> ticket \<sigma> t = length ts)
          \<and> (shared_limiter \<sigma>)\<lparr>last_modified := now\<rparr> = serve l (tickets \<sigma>) \<and> tts = accumulated_sleep_time (shared_limiter \<sigma>)
      | Computed tts \<Rightarrow> mutex \<sigma> = Some t \<and> (\<exists>ts r. tickets \<sigma> = ts @ [r] \<and> ticket \<sigma> t = length ts)
          \<and> shared_limiter \<sigma> = serve l (tickets \<sigma>) \<and> tts = accumulated_sleep_time (shared_limiter \<sigma>)
      | Sleep_for tts \<Rightarrow> mutex \<sigma> \<noteq> Some t \<and> ticket \<sigma> t < length (tickets \<sigma>)
          \<and> (clock_fine \<sigma> \<longrightarrow> paid l (tickets \<sigma>) (ticket \<sigma> t) \<le> wall \<sigma> + tts) \<and> rate_limiter_idle_credit \<le> tts
      | Sleeping d \<Rightarrow> mutex \<sigma> \<noteq> Some t \<and> ticket \<sigma> t < length (tickets \<sigma>)
          \<and> (clock_fine \<sigma> \<longrightarrow> paid l (tickets \<sigma>) (ticket \<sigma> t) \<le> d + 1 / 10 ^ 9))"

definition clock_ok :: "RateLimiter \<Rightarrow> limiter_state \<Rightarrow> bool" where
  "clock_ok l \<sigma> \<longleftrightarrow>
     (clock_fine \<sigma> \<longrightarrow> clock_monotone (last_modified l) (tickets \<sigma>) \<and> last_modified (serve l (tickets \<sigma>)) \<le> reading \<sigma>
        \<and> last_modified l \<le> reading \<sigma> \<and> reading \<sigma> \<le> wall \<sigma>)
     \<and> (mutex \<sigma> = None \<longrightarrow> shared_limiter \<sigma> = serve l (tickets \<sigma>))
     \<and> (\<forall>n \<in> finished \<sigma>. n < length (tickets \<sigma>) \<and> (clock_fine \<sigma> \<longrightarrow> paid l (tickets \<sigma>) n \<le> wall \<sigma> + 1 / 10 ^ 9))"

definition limiter_inv :: "RateLimiter \<Rightarrow> limiter_state \<Rightarrow> bool" where
  "limiter_inv l \<sigma> \<longleftrightarrow> clock_ok l \<sigma> \<and> (\<forall>t. thread_ok l \<sigma> t)"

text \<open>What a thread without the mutex relies on is left alone by the others.\<close>

lemma thread_ok_frame:
  assumes "thread_ok l \<sigma> t" and "mutex \<sigma> \<noteq> Some t" and "mutex \<sigma>' \<noteq> Some t" and "lpcs \<sigma>' t = lpcs \<sigma> t"
    and "ticket \<sigma>' t = ticket \<sigma> t" and "tickets \<sigma>' = tickets \<sigma> @ xs" and "wall \<sigma> \<le> wall \<sigma>'" and "clock_fine \<sigma>' \<Longrightarrow> clock_fine \<sigma>"
  shows "thread_ok l \<sigma>' t"
  using assms by (cases "lpcs \<sigma> t") (auto simp: thread_ok_def)

lemma thread_ok_same:
  assumes "thread_ok l \<sigma> t" and "mutex \<sigma>' = mutex \<sigma>" and "shared_limiter \<sigma>' = shared_limiter \<sigma>"
    and "lpcs \<sigma>' t = lpcs \<sigma> t" and "ticket \<sigma>' t = ticket \<sigma> t" and "tickets \<sigma>' = tickets \<sigma>" and "wall \<sigma> \<le> wall \<sigma>'"
    and "clock_fine \<sigma>' \<Longrightarrow> clock_fine \<sigma>"
  shows "thread_ok l \<sigma>' t"
  using assms by (cases "lpcs \<sigma> t") (auto simp: thread_ok_def)

lemma limiter_inv_initial: "limiter_inv (rate_limiter_init r t0) (initial_limiter r t0 w)"
  by (simp add: limiter_inv_def clock_ok_def thread_ok_def initial_limiter_def rate_limiter_init_def)

text \<open>A step of a thread that holds the mutex, or takes it.\<close>

lemma limiter_inv_owner:
  assumes inv: "limiter_inv l \<sigma>" and "mutex \<sigma> = Some t \<or> mutex \<sigma> = None" and "clock_ok l \<sigma>'" and "thread_ok l \<sigma>' t"
    and "\<And>t'. t' \<noteq> t \<Longrightarrow> mutex \<sigma>' \<noteq> Some t' \<and> lpcs \<sigma>' t' = lpcs \<sigma> t' \<and> ticket \<sigma>' t' = ticket \<sigma> t'"
    and "tickets \<sigma>' = tickets \<sigma> @ xs" and "wall \<sigma>' = wall \<sigma>"
    and "clock_fine \<sigma>' \<Longrightarrow> clock_fine \<sigma>"
  shows "limiter_inv l \<sigma>'"
proof -
  have "thread_ok l \<sigma>' t'" for t'
  proof (cases "t' = t")
    case False
    have "thread_ok l \<sigma> t'" using inv by (simp add: limiter_inv_def)
    then show ?thesis by (rule thread_ok_frame) (use assms(2,5-8) False in auto)
  qed (use assms(4) in simp)
  then show ?thesis using assms(3) by (simp add: limiter_inv_def)
qed

text \<open>A step of a thread that does not touch the limiter.\<close>

lemma limiter_inv_other:
  assumes inv: "limiter_inv l \<sigma>" and "clock_ok l \<sigma>'" and "thread_ok l \<sigma>' t"
    and "\<And>t'. t' \<noteq> t \<Longrightarrow> lpcs \<sigma>' t' = lpcs \<sigma> t'" and "mutex \<sigma>' = mutex \<sigma>" and "shared_limiter \<sigma>' = shared_limiter \<sigma>"
    and "ticket \<sigma>' = ticket \<sigma>" and "tickets \<sigma>' = tickets \<sigma>" and "wall \<sigma> \<le> wall \<sigma>'"
    and "clock_fine \<sigma>' \<Longrightarrow> clock_fine \<sigma>"
  shows "limiter_inv l \<sigma>'"
proof -
  have "thread_ok l \<sigma>' t'" for t'
  proof (cases "t' = t")
    case False
    have "thread_ok l \<sigma> t'" using inv by (simp add: limiter_inv_def)
    then show ?thesis by (rule thread_ok_same) (use assms(4-10) False in auto)
  qed (use assms(3) in simp)
  then show ?thesis using assms(2) by (simp add: limiter_inv_def)
qed

lemma duration_bounds:
  assumes "rate_limiter_idle_credit \<le> s"
  shows "s \<le> duration (sleep_seconds id s) + 1 / 10 ^ 9"
  using sleep_seconds_bounds [OF assms] by (auto simp: duration_def add_divide_distrib split: prod.splits)

lemma limiter_invD: "limiter_inv l \<sigma> \<Longrightarrow> thread_ok l \<sigma> t" "limiter_inv l \<sigma> \<Longrightarrow> clock_ok l \<sigma>"
  by (simp_all add: limiter_inv_def)

lemma limiter_inv_clock:
  assumes inv: "limiter_inv l \<sigma>" and "lpcs \<sigma> t = Locked sz"
  shows "limiter_inv l (lgoto t (Clocked sz now) (\<sigma>\<lparr>reading := now, clock_fine := clock_fine \<sigma> \<and> reading \<sigma> \<le> now \<and> now \<le> wall \<sigma>,
           tickets := tickets \<sigma> @ [(now, sz)],
           ticket := (ticket \<sigma>)(t := length (tickets \<sigma>))\<rparr>))" (is "limiter_inv l ?\<sigma>")
proof -
  have m: "mutex \<sigma> = Some t" "shared_limiter \<sigma> = serve l (tickets \<sigma>)"
    using limiter_invD(1) [OF inv, of t] assms(2) by (simp_all add: thread_ok_def)
  have "clock_ok l ?\<sigma>"
    using limiter_invD(2) [OF inv] m(1) by (auto simp: clock_ok_def clock_monotone_append serve_append)
  then show ?thesis using m by (intro limiter_inv_owner [OF inv, of t _ "[(now, sz)]"]) (auto simp: thread_ok_def)
qed

lemma limiter_inv_store:
  assumes inv: "limiter_inv l \<sigma>" and "lpcs \<sigma> t = Clocked sz now"
    and tts: "tts = fst (rate_limiter_wait_nosleep (shared_limiter \<sigma>) now sz)"
  shows "limiter_inv l (lgoto t (Stored now tts) (\<sigma>\<lparr>shared_limiter := (shared_limiter \<sigma>)\<lparr>accumulated_sleep_time := tts\<rparr>\<rparr>))"
    (is "limiter_inv l ?\<sigma>")
proof -
  obtain ts where m: "mutex \<sigma> = Some t" "tickets \<sigma> = ts @ [(now, sz)]" "ticket \<sigma> t = length ts" "shared_limiter \<sigma> = serve l ts"
    using limiter_invD(1) [OF inv, of t] assms(2) by (auto simp: thread_ok_def)
  have "(shared_limiter \<sigma>)\<lparr>accumulated_sleep_time := tts, last_modified := now\<rparr> = serve l (tickets \<sigma>)"
    unfolding m(2,4) tts by (simp add: serve_append rate_limiter_wait_nosleep_def Let_def)
  moreover have "clock_ok l ?\<sigma>" using limiter_invD(2) [OF inv] m(1) by (simp add: clock_ok_def)
  ultimately show ?thesis using m by (intro limiter_inv_owner [OF inv, of t _ "[]"]) (auto simp: thread_ok_def)
qed

lemma limiter_inv_store_time:
  assumes inv: "limiter_inv l \<sigma>" and "lpcs \<sigma> t = Stored now tts"
  shows "limiter_inv l (lgoto t (Computed tts) (\<sigma>\<lparr>shared_limiter := (shared_limiter \<sigma>)\<lparr>last_modified := now\<rparr>\<rparr>))"
    (is "limiter_inv l ?\<sigma>")
proof -
  have m: "mutex \<sigma> = Some t" "\<exists>ts sz. tickets \<sigma> = ts @ [(now, sz)] \<and> ticket \<sigma> t = length ts"
      "(shared_limiter \<sigma>)\<lparr>last_modified := now\<rparr> = serve l (tickets \<sigma>)" "tts = accumulated_sleep_time (shared_limiter \<sigma>)"
    using limiter_invD(1) [OF inv, of t] assms(2) by (simp_all add: thread_ok_def)
  have "tts = accumulated_sleep_time (serve l (tickets \<sigma>))" unfolding m(3) [symmetric] by (simp add: m(4))
  moreover have "clock_ok l ?\<sigma>" using limiter_invD(2) [OF inv] m(1) by (simp add: clock_ok_def)
  ultimately show ?thesis using m(1-3) by (intro limiter_inv_owner [OF inv, of t _ "[]"]) (auto simp: thread_ok_def)
qed

lemma limiter_inv_unlock:
  assumes inv: "limiter_inv l \<sigma>" and ok: "limiter_ok l" and "lpcs \<sigma> t = Computed tts"
  shows "limiter_inv l (lgoto t (Sleep_for tts) (\<sigma>\<lparr>mutex := None\<rparr>))" (is "limiter_inv l ?\<sigma>")
proof -
  obtain ts r where m: "mutex \<sigma> = Some t" "tickets \<sigma> = ts @ [r]" "ticket \<sigma> t = length ts"
      "shared_limiter \<sigma> = serve l (tickets \<sigma>)" "tts = accumulated_sleep_time (shared_limiter \<sigma>)"
    using limiter_invD(1) [OF inv, of t] assms(3) by (auto simp: thread_ok_def)
  have "paid l (tickets \<sigma>) (ticket \<sigma> t) = cleared_at (shared_limiter \<sigma>)" by (simp add: m(2,3) paid_last m(4) [unfolded m(2)])
  moreover have "clock_fine \<sigma> \<longrightarrow> last_modified (shared_limiter \<sigma>) \<le> wall \<sigma>" using limiter_invD(2) [OF inv] m(4) by (auto simp: clock_ok_def)
  moreover have "rate_limiter_idle_credit \<le> tts" using serve_ok [OF ok, of "tickets \<sigma>"] by (simp add: m(4,5) limiter_ok_def)
  moreover have "clock_ok l ?\<sigma>" using limiter_invD(2) [OF inv] m(4) by (simp add: clock_ok_def)
  ultimately show ?thesis using m(1-3,5)
    by (intro limiter_inv_owner [OF inv, of t _ "[]"]) (auto simp: thread_ok_def cleared_at_def)
qed

lemma limiter_inv_sleep:
  assumes inv: "limiter_inv l \<sigma>" and "lpcs \<sigma> t = Sleep_for tts"
  shows "limiter_inv l (lgoto t (Sleeping (wall \<sigma> + duration (sleep_seconds id tts))) \<sigma>)"
proof -
  note t = limiter_invD(1) [OF inv, of t]
  then have "tts \<le> duration (sleep_seconds id tts) + 1 / 10 ^ 9" using assms(2) by (intro duration_bounds) (simp add: thread_ok_def)
  then show ?thesis using t assms(2) limiter_invD(2) [OF inv]
    by (intro limiter_inv_other [OF inv, of _ t]) (auto simp: thread_ok_def clock_ok_def)
qed

lemma limiter_inv_step:
  assumes "limiter_step \<sigma> \<sigma>'" and inv: "limiter_inv l \<sigma>" and "limiter_ok l"
  shows "limiter_inv l \<sigma>'"
  using assms(1)
proof cases
  case (lock t sz)
  then show ?thesis using limiter_invD(2) [OF inv]
    by (intro limiter_inv_owner [OF inv, of t _ "[]"]) (auto simp: clock_ok_def thread_ok_def)
next
  case (pass w)
  have "thread_ok l \<sigma>' t" for t
    using pass by (intro thread_ok_same [OF limiter_invD(1) [OF inv]]) auto
  moreover have "clock_ok l \<sigma>'" using limiter_invD(2) [OF inv] pass by (auto simp: clock_ok_def)
  ultimately show ?thesis by (simp add: limiter_inv_def)
next
  case (enter t sz)
  then show ?thesis using limiter_invD(1) [OF inv, of t] limiter_invD(2) [OF inv]
    by (intro limiter_inv_other [OF inv, of _ t]) (auto simp: thread_ok_def clock_ok_def)
next
  case (wake t d)
  then show ?thesis using limiter_invD(1) [OF inv, of t] limiter_invD(2) [OF inv]
    by (intro limiter_inv_other [OF inv, of _ t]) (auto simp: thread_ok_def clock_ok_def)
next
  case (interrupted t d)
  then show ?thesis using limiter_invD(1) [OF inv, of t] limiter_invD(2) [OF inv]
    by (intro limiter_inv_other [OF inv, of _ t]) (auto simp: thread_ok_def clock_ok_def)
qed (use assms limiter_inv_clock limiter_inv_store limiter_inv_store_time limiter_inv_unlock limiter_inv_sleep in simp_all)

interpretation ll: invariant_system "\<lambda>\<sigma>. \<exists>r t0 w. 0 < r \<and> \<sigma> = initial_limiter r t0 w \<and> l = rate_limiter_init r t0"
    limiter_step "\<lambda>\<sigma>. limiter_ok l \<and> limiter_inv l \<sigma>" for l
  by unfold_locales
     (auto simp: limiter_ok_def rate_limiter_init_def intro: limiter_inv_initial [unfolded rate_limiter_init_def] limiter_inv_step)

section \<open>Throughput\<close>

lemma paid_covers:
  assumes "clock_ok l \<sigma>" and "n \<in> finished \<sigma>" and "clock_fine \<sigma>"
  shows "cleared_at l + cost l (take (Suc n) (tickets \<sigma>)) \<le> wall \<sigma> + 1 / 10 ^ 9"
proof -
  have "clock_monotone (last_modified l) (take (Suc n) (tickets \<sigma>) @ drop (Suc n) (tickets \<sigma>))"
    using assms(1,3) by (simp add: clock_ok_def)
  then have "clock_monotone (last_modified l) (take (Suc n) (tickets \<sigma>))" unfolding clock_monotone_append ..
  from serve_cleared_ge [OF this] assms show ?thesis by (auto simp: clock_ok_def paid_def)
qed

lemma finished_sum:
  assumes "F \<subseteq> {..<length reqs}" and "n \<in> F" and "\<And>k. k \<in> F \<Longrightarrow> k \<le> n"
  shows "(\<Sum>k \<in> F. real (unat (snd (reqs ! k)))) \<le> (\<Sum>(now, sz)\<leftarrow>take (Suc n) reqs. real (unat sz))"
proof -
  have "n < length reqs" using assms(1,2) by auto
  have "(\<Sum>k \<in> F. real (unat (snd (reqs ! k)))) \<le> (\<Sum>k \<in> {0..<Suc n}. real (unat (snd (reqs ! k))))"
    using assms(3) by (intro sum_mono2) (auto simp: less_Suc_eq_le simp del: of_nat_unat)
  also have "\<dots> = (\<Sum>k \<in> {0..<length (take (Suc n) reqs)}. real (unat (snd (take (Suc n) reqs ! k))))"
    using \<open>n < length reqs\<close> by (intro sum.cong) auto
  also have "\<dots> = (\<Sum>(now, sz)\<leftarrow>take (Suc n) reqs. real (unat sz))"
    by (simp add: sum_list_sum_nth case_prod_unfold del: of_nat_unat)
  finally show ?thesis .
qed

section \<open>A thread alone\<close>

text \<open>
  With nobody in its way a call runs up to its sleep, and what it leaves behind is what \<^verbatim>\<open>rate_limiter_wait\<close> computes
  when taken as one step.
\<close>

lemma lone_wait:
  assumes "lpcs \<sigma> t = Out" and "mutex \<sigma> = None" and "reading \<sigma> \<le> wall \<sigma>"
  shows "\<exists>\<sigma>'. limiter_step\<^sup>*\<^sup>* \<sigma> \<sigma>' \<and> lpcs \<sigma>' t = Sleeping (wall \<sigma> + duration (fst (rate_limiter_wait (shared_limiter \<sigma>) (wall \<sigma>) sz)))
    \<and> shared_limiter \<sigma>' = snd (rate_limiter_wait (shared_limiter \<sigma>) (wall \<sigma>) sz) \<and> mutex \<sigma>' = None \<and> wall \<sigma>' = wall \<sigma>
    \<and> tickets \<sigma>' = tickets \<sigma> @ [(wall \<sigma>, sz)] \<and> ticket \<sigma>' t = length (tickets \<sigma>) \<and> finished \<sigma>' = finished \<sigma>
    \<and> clock_fine \<sigma>' = clock_fine \<sigma>"
proof -
  let ?now = "wall \<sigma>" and ?tts = "fst (rate_limiter_wait_nosleep (shared_limiter \<sigma>) (wall \<sigma>) sz)"
  let ?s1 = "lgoto t (Want_lock sz) \<sigma>"
  let ?s2 = "lgoto t (Locked sz) (?s1\<lparr>mutex := Some t\<rparr>)"
  let ?s3 = "lgoto t (Clocked sz ?now) (?s2\<lparr>reading := ?now, clock_fine := clock_fine ?s2 \<and> reading ?s2 \<le> ?now \<and> ?now \<le> wall ?s2,
      tickets := tickets ?s2 @ [(?now, sz)],
      ticket := (ticket ?s2)(t := length (tickets ?s2))\<rparr>)"
  let ?s4 = "lgoto t (Stored ?now ?tts) (?s3\<lparr>shared_limiter := (shared_limiter ?s3)\<lparr>accumulated_sleep_time := ?tts\<rparr>\<rparr>)"
  let ?s5 = "lgoto t (Computed ?tts) (?s4\<lparr>shared_limiter := (shared_limiter ?s4)\<lparr>last_modified := ?now\<rparr>\<rparr>)"
  let ?s6 = "lgoto t (Sleep_for ?tts) (?s5\<lparr>mutex := None\<rparr>)"
  let ?s7 = "lgoto t (Sleeping (wall ?s6 + duration (sleep_seconds id ?tts))) ?s6"
  have "limiter_step \<sigma> ?s1" using assms(1) by (rule limiter_step.enter)
  moreover have "limiter_step ?s1 ?s2" using assms(2) by (intro limiter_step.lock) simp_all
  moreover have "limiter_step ?s2 ?s3" by (rule limiter_step.clock) simp
  moreover have "limiter_step ?s3 ?s4" by (rule limiter_step.store) (simp_all del: step_simps)
  moreover have "limiter_step ?s4 ?s5" by (rule limiter_step.store_time) simp
  moreover have "limiter_step ?s5 ?s6" by (rule limiter_step.unlock) simp
  moreover have "limiter_step ?s6 ?s7" by (rule limiter_step.sleep) simp
  ultimately have "limiter_step\<^sup>*\<^sup>* \<sigma> ?s7" by (meson converse_rtranclp_into_rtranclp rtranclp.rtrancl_refl)
  moreover have "shared_limiter ?s7 = snd (rate_limiter_wait (shared_limiter \<sigma>) ?now sz)"
    by (simp add: rate_limiter_wait_def rate_limiter_wait_nosleep_def Let_def)
  ultimately show ?thesis
    using assms(3) by (intro exI [of _ ?s7]) (simp add: rate_limiter_wait_def split_beta)
qed

text \<open>
  A signal that arrives during the sleep ends it, and \<^verbatim>\<open>sleep_seconds\<close> does not sleep again: a request of any size can be
  let through without any time having passed.  (Later requests still wait for it, as it has been charged.)
\<close>

lemma signal_cuts_sleep_short:
  "\<exists>\<sigma>. limiter_step\<^sup>*\<^sup>* (initial_limiter r t0 t0) \<sigma> \<and> lpcs \<sigma> t = Out \<and> tickets \<sigma> = [(t0, sz)] \<and> wall \<sigma> = t0"
proof -
  let ?i = "initial_limiter r t0 t0"
  have "lpcs ?i t = Out" "mutex ?i = None" "reading ?i \<le> wall ?i" "wall ?i = t0" "tickets ?i = []" by (simp_all add: initial_limiter_def)
  then obtain \<sigma> d where \<sigma>: "limiter_step\<^sup>*\<^sup>* ?i \<sigma>" "lpcs \<sigma> t = Sleeping d" "wall \<sigma> = t0" "tickets \<sigma> = [(t0, sz)]"
    using lone_wait [of ?i t sz] by auto
  from \<sigma>(1) limiter_step.interrupted [OF \<sigma>(2)] have "limiter_step\<^sup>*\<^sup>* ?i (lgoto t Out \<sigma>)" by (rule rtranclp.rtrancl_into_rtrancl)
  then show ?thesis using \<sigma> by (intro exI [of _ "lgoto t Out \<sigma>"]) simp
qed

section \<open>Properties\<close>

text \<open>
  C21. Rate limits with many threads.  In every interleaving of calls of \<^verbatim>\<open>rate_limiter_wait\<close>, whatever the clock shows, no two
  threads are between taking and releasing the mutex, and whenever it is free, the limiter is what the requests, one after the
  other, make it.  With a clock that does not go back and is not ahead of the time, the bytes of all
  requests that have slept to the end do not exceed the rate times the time since the limiter was made,
  plus the idle credit of 0.2 seconds (and the nanosecond to which the sleep is rounded).
\<close>

theorem concurrent_throughput:
  assumes "0 < r" and "limiter_step\<^sup>*\<^sup>* (initial_limiter r t0 w) \<sigma>"
  shows "(\<forall>t t'. critical (lpcs \<sigma> t) \<and> critical (lpcs \<sigma> t') \<longrightarrow> t = t')
    \<and> (mutex \<sigma> = None \<longrightarrow> shared_limiter \<sigma> = serve (rate_limiter_init r t0) (tickets \<sigma>))
    \<and> finished \<sigma> \<subseteq> {..<length (tickets \<sigma>)}
    \<and> (clock_fine \<sigma> \<longrightarrow>
        (\<Sum>n \<in> finished \<sigma>. real (unat (snd (tickets \<sigma> ! n)))) \<le> r * (wall \<sigma> - t0 + 0.2 + 1 / 10 ^ 9))"
proof -
  let ?l = "rate_limiter_init r t0"
  have inv: "limiter_inv ?l \<sigma>" using ll.reachable_inv [OF _ assms(2), of ?l] assms(1) by blast
  note c = limiter_invD(2) [OF inv]
  have "mutex \<sigma> = Some t" if "critical (lpcs \<sigma> t)" for t
    using limiter_invD(1) [OF inv, of t] that by (cases "lpcs \<sigma> t") (simp_all add: thread_ok_def)
  then have excl: "t = t'" if "critical (lpcs \<sigma> t)" "critical (lpcs \<sigma> t')" for t t'
    using that by (metis option.inject)
  have sub: "finished \<sigma> \<subseteq> {..<length (tickets \<sigma>)}" using c by (auto simp: clock_ok_def)
  have fin: "finite (finished \<sigma>)" by (rule finite_subset [OF sub]) simp
  have "(\<Sum>n \<in> finished \<sigma>. real (unat (snd (tickets \<sigma> ! n)))) \<le> r * (wall \<sigma> - t0 + 0.2 + 1 / 10 ^ 9)"
    if fine: "clock_fine \<sigma>"
  proof (cases "finished \<sigma> = {}")
    case True
    have "t0 \<le> wall \<sigma>" using c fine by (simp add: clock_ok_def rate_limiter_init_def)
    then show ?thesis using True assms(1) by simp
  next
    case False
    let ?n = "Max (finished \<sigma>)"
    have n: "?n \<in> finished \<sigma>" using fin False by (rule Max_in)
    have "(\<Sum>n \<in> finished \<sigma>. real (unat (snd (tickets \<sigma> ! n)))) \<le> (\<Sum>(now, sz)\<leftarrow>take (Suc ?n) (tickets \<sigma>). real (unat sz))"
      using fin by (intro finished_sum [OF sub n]) simp
    also have "\<dots> = r * cost ?l (take (Suc ?n) (tickets \<sigma>))" using assms(1) by (simp add: cost_def rate_limiter_init_def)
    also have "\<dots> \<le> r * (wall \<sigma> - t0 + 0.2 + 1 / 10 ^ 9)"
      using paid_covers [OF c n fine] assms(1)
      by (intro mult_left_mono) (simp_all add: cleared_at_def rate_limiter_init_def rate_limiter_idle_credit_def)
    finally show ?thesis .
  qed
  then show ?thesis using excl sub c by (auto simp: clock_ok_def)
qed

theorem concurrent_throughput_witness:
  "\<exists>\<sigma>. limiter_step\<^sup>*\<^sup>* (initial_limiter 10 0 0) \<sigma> \<and> lpcs \<sigma> 3 = Out \<and> tickets \<sigma> = [(0, 30)] \<and> finished \<sigma> = {0}
     \<and> 30 \<le> 10 * (wall \<sigma> - 0 + 0.2 + 1 / 10 ^ 9)"
proof -
  let ?i = "initial_limiter 10 0 0"
  have "lpcs ?i 3 = Out" "mutex ?i = None" "reading ?i \<le> wall ?i" "wall ?i = 0" "tickets ?i = []" "finished ?i = {}" "clock_fine ?i"
    by (simp_all add: initial_limiter_def)
  then obtain \<sigma> d where \<sigma>: "limiter_step\<^sup>*\<^sup>* ?i \<sigma>" "lpcs \<sigma> 3 = Sleeping d" "tickets \<sigma> = [(0, 30)]" "ticket \<sigma> 3 = 0" "finished \<sigma> = {}" "clock_fine \<sigma>"
    using lone_wait [of ?i 3 30] by auto
  let ?s = "\<sigma>\<lparr>wall := max (wall \<sigma>) d\<rparr>"
  let ?e = "lgoto 3 Out (?s\<lparr>finished := insert (ticket ?s 3) (finished ?s)\<rparr>)"
  have "limiter_step \<sigma> ?s" by (rule limiter_step.pass) simp
  moreover have "limiter_step ?s ?e" using \<sigma>(2) by (intro limiter_step.wake [of _ _ d]) (simp_all add: le_max_iff_disj)
  ultimately have e: "limiter_step\<^sup>*\<^sup>* ?i ?e" using \<sigma>(1) by (meson rtranclp.rtrancl_into_rtrancl)
  have f: "tickets ?e = [(0, 30)]" "finished ?e = {0}" "lpcs ?e 3 = Out" and fine: "clock_fine ?e" using \<sigma>(3-6) by simp_all
  from concurrent_throughput [OF _ e] fine have "30 \<le> 10 * (wall ?e - 0 + 0.2 + 1 / 10 ^ 9)" unfolding f by simp
  with e f show ?thesis by blast
qed

end
