(* ===== verification/Userinfo.thy ===== *)
theory Userinfo
  imports Misc "HOL-Library.List_Lexorder" "HOL-Library.Multiset"
begin

text \<open>
  \<^verbatim>\<open>src/userinfo.c\<close>: the cache of users and groups behind \<^verbatim>\<open>--mirror\<close>, and the parsing of user and group
  names.  The databases the C library reads are arguments: the entries \<^verbatim>\<open>getpwent\<close> and \<^verbatim>\<open>getgrent\<close>
  deliver and the error, if any, with which the enumeration ends.  User names and member lists live
  in the memory block of theory \<open>Misc\<close>, at the offsets the entries hold, as in the code.
\<close>

section \<open>Data\<close>

record passwd =
  pw_name :: string
  pw_uid :: uid_t
  pw_gid :: gid_t

record group =
  gr_gid :: gid_t
  gr_mem :: "string list"

record user_db =
  pw_entries :: "passwd list"
  pw_error :: "errno option"
  gr_entries :: "group list"
  gr_error :: "errno option"

record uid_cache_entry =
  ue_uid :: uid_t
  ue_main_gid :: gid_t
  ue_username_offset :: "32 word"

record gid_cache_entry =
  ge_gid :: gid_t
  ge_uid_count :: nat
  ge_uids_offset :: "32 word"

text \<open>The static variables.  An array is the list of its entries in use, with its capacity.\<close>

record user_cache =
  uid_cache :: "uid_cache_entry list"
  uid_cache_capacity :: nat
  gid_cache :: "gid_cache_entry list"
  gid_cache_capacity :: nat
  cache_memory_block :: memory_block
  cache_rebuild_requested :: bool

definition initial_cache :: user_cache where
  "initial_cache =
     \<lparr>uid_cache = [], uid_cache_capacity = 0, gid_cache = [], gid_cache_capacity = 0,
      cache_memory_block = MEMORY_BLOCK_INITIALIZER, cache_rebuild_requested = True\<rparr>"

section \<open>Bytes in the memory block\<close>

definition string_bytes :: "string \<Rightarrow> byte list" where
  "string_bytes s = map (\<lambda>c. word_of_nat (char_code c)) s @ [0]"

text \<open>\<^verbatim>\<open>MEMORY_BLOCK_GET\<close>: the bytes from an offset on.\<close>

definition memory_block_get :: "memory_block \<Rightarrow> 32 word \<Rightarrow> byte list" where
  "memory_block_get mb off = drop (nat (sint off)) (mb_data mb)"

definition string_at :: "byte list \<Rightarrow> string" where
  "string_at bs = map (\<lambda>b. char_of (unat b)) (takeWhile (\<lambda>b. b \<noteq> 0) bs)"

text \<open>A \<^verbatim>\<open>uid_t\<close> in memory, least significant byte first.\<close>

definition uid_bytes :: "uid_t \<Rightarrow> byte list" where
  "uid_bytes u = [ucast u, ucast (drop_bit 8 u), ucast (drop_bit 16 u), ucast (drop_bit 24 u)]"

definition uid_at :: "byte list \<Rightarrow> nat \<Rightarrow> uid_t" where
  "uid_at bs i =
     (let b = (\<lambda>k. ucast (bs ! (4 * i + k)) :: uid_t)
      in b 0 OR push_bit 8 (b 1) OR push_bit 16 (b 2) OR push_bit 24 (b 3))"

section \<open>Sorting and searching\<close>

text \<open>\<^verbatim>\<open>strcmp\<close>: the sign of the comparison of the strings as unsigned bytes.\<close>

fun strcmp :: "string \<Rightarrow> string \<Rightarrow> int" where
  "strcmp [] [] = 0"
| "strcmp [] (b # bs) = - 1"
| "strcmp (a # as) [] = 1"
| "strcmp (a # as) (b # bs) =
     (if a = b then strcmp as bs else if char_code a < char_code b then - 1 else 1)"

text \<open>\<^verbatim>\<open>qsort\<close> with a comparison function, as a stable insertion sort.\<close>

fun insert_cmp :: "('a \<Rightarrow> 'a \<Rightarrow> int) \<Rightarrow> 'a \<Rightarrow> 'a list \<Rightarrow> 'a list" where
  "insert_cmp cmp x [] = [x]"
| "insert_cmp cmp x (y # ys) = (if cmp x y \<le> 0 then x # y # ys else y # insert_cmp cmp x ys)"

definition qsort :: "('a \<Rightarrow> 'a \<Rightarrow> int) \<Rightarrow> 'a list \<Rightarrow> 'a list" where
  "qsort cmp xs = foldr (insert_cmp cmp) xs []"

text \<open>\<^verbatim>\<open>bsearch\<close> between two indices; \<open>cmp\<close> compares the key with an element.\<close>

function bsearch_loop :: "('a \<Rightarrow> int) \<Rightarrow> 'a list \<Rightarrow> nat \<Rightarrow> nat \<Rightarrow> 'a option" where
  "bsearch_loop cmp xs l u =
     (if l < u then
        let idx = (l + u) div 2; comparison = cmp (xs ! idx)
        in if comparison < 0 then bsearch_loop cmp xs l idx
           else if comparison > 0 then bsearch_loop cmp xs (idx + 1) u
           else Some (xs ! idx)
      else None)"
  by pat_completeness auto
termination by (relation "measure (\<lambda>(cmp, xs, l, u). u - l)") auto

declare bsearch_loop.simps [simp del]

definition bsearch :: "('a \<Rightarrow> int) \<Rightarrow> 'a list \<Rightarrow> 'a option" where
  "bsearch cmp xs = bsearch_loop cmp xs 0 (length xs)"

definition username :: "memory_block \<Rightarrow> uid_cache_entry \<Rightarrow> string" where
  "username mb e = string_at (memory_block_get mb (ue_username_offset e))"

definition uid_cache_name_sortcmp :: "memory_block \<Rightarrow> uid_cache_entry \<Rightarrow> uid_cache_entry \<Rightarrow> int" where
  "uid_cache_name_sortcmp mb a b = strcmp (username mb a) (username mb b)"

definition uid_cache_name_searchcmp :: "memory_block \<Rightarrow> string \<Rightarrow> uid_cache_entry \<Rightarrow> int" where
  "uid_cache_name_searchcmp mb key e = strcmp key (username mb e)"

text \<open>
  The difference is taken in \<^verbatim>\<open>long\<close> and returned as \<^verbatim>\<open>int\<close>: its low 32 bits, read as a signed number.
\<close>

definition id_difference :: "32 word \<Rightarrow> 32 word \<Rightarrow> int" where
  "id_difference a b = sint (ucast ((ucast a :: 64 word) - ucast b) :: 32 word)"

definition uid_cache_uid_sortcmp :: "uid_cache_entry \<Rightarrow> uid_cache_entry \<Rightarrow> int" where
  "uid_cache_uid_sortcmp a b = id_difference (ue_uid a) (ue_uid b)"

definition uid_cache_uid_searchcmp :: "uid_t \<Rightarrow> uid_cache_entry \<Rightarrow> int" where
  "uid_cache_uid_searchcmp key e = id_difference key (ue_uid e)"

definition gid_cache_gid_sortcmp :: "gid_cache_entry \<Rightarrow> gid_cache_entry \<Rightarrow> int" where
  "gid_cache_gid_sortcmp a b = id_difference (ge_gid a) (ge_gid b)"

definition gid_cache_gid_searchcmp :: "gid_t \<Rightarrow> gid_cache_entry \<Rightarrow> int" where
  "gid_cache_gid_searchcmp key e = id_difference key (ge_gid e)"

definition uid_cache_lookup :: "user_cache \<Rightarrow> uid_t \<Rightarrow> uid_cache_entry option" where
  "uid_cache_lookup c key = bsearch (uid_cache_uid_searchcmp key) (uid_cache c)"

definition gid_cache_lookup :: "user_cache \<Rightarrow> gid_t \<Rightarrow> gid_cache_entry option" where
  "gid_cache_lookup c key = bsearch (gid_cache_gid_searchcmp key) (gid_cache c)"

section \<open>Rebuilding\<close>

definition clear_uid_cache :: "user_cache \<Rightarrow> user_cache" where
  "clear_uid_cache c = c\<lparr>uid_cache := []\<rparr>"

definition clear_gid_cache :: "user_cache \<Rightarrow> user_cache" where
  "clear_gid_cache c = c\<lparr>gid_cache := []\<rparr>"

text \<open>The end of an enumeration: \<^verbatim>\<open>ENOENT\<close> is taken for the end, another error is a failure.\<close>

definition enumeration_failed :: "errno option \<Rightarrow> bool" where
  "enumeration_failed e \<longleftrightarrow> e \<noteq> None \<and> e \<noteq> Some ENOENT"

text \<open>\<open>None\<close> is an \<^verbatim>\<open>abort()\<close> of the memory block.\<close>

fun rebuild_uid_loop :: "passwd list \<Rightarrow> user_cache \<Rightarrow> user_cache option" where
  "rebuild_uid_loop [] c = Some c"
| "rebuild_uid_loop (pw # pws) c =
     (let cap = (if length (uid_cache c) = uid_cache_capacity c then grow_array_impl (uid_cache_capacity c)
                 else uid_cache_capacity c)
      in case append_to_memory_block (cache_memory_block c) (string_bytes (pw_name pw)) of
           None \<Rightarrow> None
         | Some (off, mb) \<Rightarrow>
             rebuild_uid_loop pws
               (c\<lparr>uid_cache_capacity := cap, cache_memory_block := mb,
                  uid_cache := uid_cache c
                    @ [\<lparr>ue_uid = pw_uid pw, ue_main_gid = pw_gid pw, ue_username_offset = off\<rparr>]\<rparr>))"

definition rebuild_uid_cache :: "user_db \<Rightarrow> user_cache \<Rightarrow> (bool \<times> user_cache) option" where
  "rebuild_uid_cache db c =
     (case rebuild_uid_loop (pw_entries db) (c\<lparr>uid_cache := []\<rparr>) of
        None \<Rightarrow> None
      | Some c' \<Rightarrow> if enumeration_failed (pw_error db) then Some (False, clear_uid_cache c')
                   else Some (True, c'))"

text \<open>The members of one group: the known ones are stored one after the other behind the offset.\<close>

fun member_loop :: "uid_cache_entry list \<Rightarrow> string list \<Rightarrow> gid_cache_entry \<Rightarrow> memory_block
    \<Rightarrow> (gid_cache_entry \<times> memory_block) option" where
  "member_loop ucache [] ent mb = Some (ent, mb)"
| "member_loop ucache (m # ms) ent mb =
     (case bsearch (uid_cache_name_searchcmp mb m) ucache of
        None \<Rightarrow> member_loop ucache ms ent mb
      | Some uid_ent \<Rightarrow>
          (case grow_memory_block mb 4 of
             None \<Rightarrow> None
           | Some mb' \<Rightarrow>
               member_loop ucache ms (ent\<lparr>ge_uid_count := ge_uid_count ent + 1\<rparr>)
                 (mb'\<lparr>mb_data := write_bytes (nat (sint (ge_uids_offset ent)) + 4 * ge_uid_count ent)
                                   (uid_bytes (ue_uid uid_ent)) (mb_data mb')\<rparr>)))"

fun rebuild_gid_loop :: "group list \<Rightarrow> user_cache \<Rightarrow> user_cache option" where
  "rebuild_gid_loop [] c = Some c"
| "rebuild_gid_loop (gr # grs) c =
     (let cap = (if length (gid_cache c) = gid_cache_capacity c then grow_array_impl (gid_cache_capacity c)
                 else gid_cache_capacity c);
          ent = \<lparr>ge_gid = gr_gid gr, ge_uid_count = 0, ge_uids_offset = ucast (mb_size (cache_memory_block c))\<rparr>
      in case member_loop (uid_cache c) (gr_mem gr) ent (cache_memory_block c) of
           None \<Rightarrow> None
         | Some (ent', mb) \<Rightarrow>
             rebuild_gid_loop grs
               (c\<lparr>gid_cache_capacity := cap, cache_memory_block := mb, gid_cache := gid_cache c @ [ent']\<rparr>))"

definition rebuild_gid_cache :: "user_db \<Rightarrow> user_cache \<Rightarrow> (bool \<times> user_cache) option" where
  "rebuild_gid_cache db c =
     (case rebuild_gid_loop (gr_entries db)
             (c\<lparr>gid_cache := [], uid_cache := qsort (uid_cache_name_sortcmp (cache_memory_block c)) (uid_cache c)\<rparr>) of
        None \<Rightarrow> None
      | Some c' \<Rightarrow> if enumeration_failed (gr_error db) then Some (False, clear_gid_cache c')
                   else Some (True, c'))"

definition init_user_cache :: "user_db \<Rightarrow> user_cache \<Rightarrow> user_cache option" where
  "init_user_cache db c =
     (if cache_rebuild_requested c then
        let c = c\<lparr>cache_rebuild_requested := False, cache_memory_block := init_memory_block 1024\<rparr>
        in case rebuild_uid_cache db c of
             None \<Rightarrow> None
           | Some (_, c) \<Rightarrow>
               (case rebuild_gid_cache db c of
                  None \<Rightarrow> None
                | Some (_, c) \<Rightarrow>
                    Some (c\<lparr>uid_cache := qsort uid_cache_uid_sortcmp (uid_cache c),
                            gid_cache := qsort gid_cache_gid_sortcmp (gid_cache c)\<rparr>))
      else Some c)"

definition invalidate_user_cache :: "user_cache \<Rightarrow> user_cache" where
  "invalidate_user_cache c = c\<lparr>cache_rebuild_requested := True\<rparr>"

section \<open>Lookups\<close>

text \<open>The part of \<^verbatim>\<open>user_belongs_to_group\<close> under the read lock.\<close>

definition lookup_membership :: "user_cache \<Rightarrow> uid_t \<Rightarrow> gid_t \<Rightarrow> bool" where
  "lookup_membership c u g =
     ((case uid_cache_lookup c u of Some uent \<Rightarrow> ue_main_gid uent = g | None \<Rightarrow> False)
      \<or> (case gid_cache_lookup c g of
           Some gent \<Rightarrow>
             let uids = memory_block_get (cache_memory_block c) (ge_uids_offset gent)
             in \<exists>i \<in> set [0 ..< ge_uid_count gent]. uid_at uids i = u
         | None \<Rightarrow> False))"

definition user_belongs_to_group :: "user_db \<Rightarrow> user_cache \<Rightarrow> uid_t \<Rightarrow> gid_t \<Rightarrow> (bool \<times> user_cache) option" where
  "user_belongs_to_group db c u g =
     map_option (\<lambda>c'. (lookup_membership c' u g, c'))
       (if cache_rebuild_requested c then init_user_cache db c else Some c)"

section \<open>Parsing user and group names\<close>

text \<open>
  The retry loop around \<^verbatim>\<open>getpwnam_r\<close> and \<^verbatim>\<open>getgrnam_r\<close>: \<open>query\<close> maps the buffer size to the return
  code, if not 0, and the entry found.
\<close>

partial_function (option) query_loop ::
  "(size_t \<Rightarrow> errno option \<times> 'a option) \<Rightarrow> size_t \<Rightarrow> 'a option option" where
  "query_loop query buflen =
     (if fst (query buflen) = Some ERANGE then query_loop query (buflen * 2)
      else Some (snd (query buflen)))"

text \<open>\<open>None\<close>: the loop does not end.  \<open>Some None\<close>: not a valid name.\<close>

definition user_uid :: "(string \<Rightarrow> size_t \<Rightarrow> errno option \<times> passwd option) \<Rightarrow> string \<Rightarrow> uid_t option option" where
  "user_uid getpwnam_r name =
     (let (v, endptr) = strtol 10 name
      in if endptr = [] then Some (Some (word_of_int v))
         else map_option (map_option pw_uid) (query_loop (getpwnam_r name) 1024))"

definition group_gid :: "(string \<Rightarrow> size_t \<Rightarrow> errno option \<times> group option) \<Rightarrow> string \<Rightarrow> gid_t option option" where
  "group_gid getgrnam_r name =
     (let (v, endptr) = strtol 10 name
      in if endptr = [] then Some (Some (word_of_int v))
         else map_option (map_option gr_gid) (query_loop (getgrnam_r name) 1024))"


section \<open>Sorting and searching: the contract\<close>

text \<open>
  A pair of comparison functions as the cache uses them: \<open>sortcmp\<close> to sort entries, \<open>searchcmp\<close> to
  compare a key with an entry.  \<open>rank\<close> is the order both are meant to follow, on the keys \<open>ok\<close> admits.
\<close>

locale ordered_search =
  fixes sortcmp :: "'a \<Rightarrow> 'a \<Rightarrow> int" and searchcmp :: "'k \<Rightarrow> 'a \<Rightarrow> int"
    and key :: "'a \<Rightarrow> 'k" and rank :: "'k \<Rightarrow> 'o :: linorder" and ok :: "'k \<Rightarrow> bool"
  assumes sortcmp_rank: "ok (key x) \<Longrightarrow> ok (key y) \<Longrightarrow> sortcmp x y \<le> 0 \<longleftrightarrow> rank (key x) \<le> rank (key y)"
    and search_less: "ok k \<Longrightarrow> ok (key x) \<Longrightarrow> searchcmp k x < 0 \<longleftrightarrow> rank k < rank (key x)"
    and search_greater: "ok k \<Longrightarrow> ok (key x) \<Longrightarrow> searchcmp k x > 0 \<longleftrightarrow> rank (key x) < rank k"
    and rank_inj: "ok k \<Longrightarrow> ok k' \<Longrightarrow> rank k = rank k' \<Longrightarrow> k = k'"
begin

definition in_order :: "'a list \<Rightarrow> bool" where
  "in_order xs \<longleftrightarrow> sorted (map (\<lambda>x. rank (key x)) xs)"

lemma set_insert_cmp: "set (insert_cmp sortcmp x xs) = insert x (set xs)"
  by (induction xs) auto

lemma set_qsort: "set (qsort sortcmp xs) = set xs"
  by (induction xs) (auto simp: qsort_def set_insert_cmp)

lemma mset_insert_cmp: "mset (insert_cmp sortcmp x xs) = add_mset x (mset xs)"
  by (induction xs) auto

lemma mset_qsort: "mset (qsort sortcmp xs) = mset xs"
  by (induction xs) (auto simp: qsort_def mset_insert_cmp)

lemma insert_cmp_in_order:
  "\<forall>y \<in> insert x (set xs). ok (key y) \<Longrightarrow> in_order xs \<Longrightarrow> in_order (insert_cmp sortcmp x xs)"
proof (induction xs)
  case (Cons y ys)
  then show ?case
    using sortcmp_rank [of x y] by (auto simp: in_order_def set_insert_cmp)
qed (simp add: in_order_def)

lemma qsort_in_order: "\<forall>x \<in> set xs. ok (key x) \<Longrightarrow> in_order (qsort sortcmp xs)"
proof (induction xs)
  case (Cons x xs)
  then have "in_order (qsort sortcmp xs)" by simp
  moreover have "qsort sortcmp (x # xs) = insert_cmp sortcmp x (qsort sortcmp xs)" by (simp add: qsort_def)
  ultimately show ?case using Cons.prems insert_cmp_in_order [of x "qsort sortcmp xs"] by (simp add: set_qsort)
qed (simp add: qsort_def in_order_def)

lemma in_order_nth: "in_order xs \<Longrightarrow> i \<le> j \<Longrightarrow> j < length xs \<Longrightarrow> rank (key (xs ! i)) \<le> rank (key (xs ! j))"
  unfolding in_order_def using sorted_nth_mono [of "map (\<lambda>x. rank (key x)) xs" i j] by simp

lemma bsearch_loop_correct:
  assumes ord: "in_order xs" and valid: "\<forall>x \<in> set xs. ok (key x)" "ok k"
  shows "u \<le> length xs \<Longrightarrow> \<forall>i < length xs. key (xs ! i) = k \<longrightarrow> l \<le> i \<and> i < u \<Longrightarrow>
    case bsearch_loop (searchcmp k) xs l u of
      Some x \<Rightarrow> x \<in> set xs \<and> key x = k | None \<Rightarrow> \<forall>x \<in> set xs. key x \<noteq> k"
proof (induction "u - l" arbitrary: l u rule: less_induct)
  case less
  show ?case
  proof (cases "l < u")
    case False
    then have "key (xs ! i) \<noteq> k" if "i < length xs" for i using less.prems(2) that by auto
    then have "\<forall>x \<in> set xs. key x \<noteq> k" by (metis in_set_conv_nth)
    then show ?thesis using False by (simp add: bsearch_loop.simps)
  next
    case True
    define m where "m = (l + u) div 2"
    have m: "l \<le> m" "m < u" using True by (auto simp: m_def)
    have mem: "xs ! m \<in> set xs" using m less.prems(1) by simp
    then have okm: "ok (key (xs ! m))" using valid by blast
    note lt = search_less [OF valid(2) okm] and gt = search_greater [OF valid(2) okm]
    have unf: "bsearch_loop (searchcmp k) xs l u =
        (if searchcmp k (xs ! m) < 0 then bsearch_loop (searchcmp k) xs l m
         else if searchcmp k (xs ! m) > 0 then bsearch_loop (searchcmp k) xs (m + 1) u else Some (xs ! m))"
      using True by (simp add: bsearch_loop.simps [of _ _ l u] m_def Let_def)
    consider "searchcmp k (xs ! m) < 0" | "searchcmp k (xs ! m) > 0" | "searchcmp k (xs ! m) = 0" by linarith
    then show ?thesis
    proof cases
      case 1
      then have "rank k < rank (key (xs ! m))" using lt by simp
      then have "i < m" if "i < length xs" "key (xs ! i) = k" for i
        using in_order_nth [OF ord, of m i] that by (metis leD not_le_imp_less)
      then have "\<forall>i < length xs. key (xs ! i) = k \<longrightarrow> l \<le> i \<and> i < m" using less.prems(2) by blast
      with less.hyps [of m l] m less.prems(1) 1 show ?thesis by (simp add: unf)
    next
      case 2
      then have r: "rank (key (xs ! m)) < rank k" using gt by simp
      have "m < i" if "i < length xs" "key (xs ! i) = k" for i
        using in_order_nth [OF ord, of i m] that r m less.prems(1)
        by (metis leD less_le_trans not_le_imp_less)
      then have "\<forall>i < length xs. key (xs ! i) = k \<longrightarrow> m + 1 \<le> i \<and> i < u" using less.prems(2) by (simp add: Suc_le_eq)
      with less.hyps [of u "m + 1"] m less.prems(1) 2 show ?thesis by (simp add: unf)
    next
      case 3
      then have "rank k = rank (key (xs ! m))" using lt gt by auto
      then have "key (xs ! m) = k" using rank_inj [OF valid(2) okm] by simp
      with 3 mem show ?thesis by (simp add: unf)
    qed
  qed
qed

text \<open>Searching the sorted array finds exactly the entries of the unsorted one.\<close>

lemma bsearch_qsort:
  assumes "\<forall>x \<in> set xs. ok (key x)" and "ok k"
  shows "case bsearch (searchcmp k) (qsort sortcmp xs) of
      Some x \<Rightarrow> x \<in> set xs \<and> key x = k | None \<Rightarrow> \<forall>x \<in> set xs. key x \<noteq> k"
  using bsearch_loop_correct [OF qsort_in_order [OF assms(1)] _ assms(2), of "length (qsort sortcmp xs)" 0] assms(1)
  by (simp add: bsearch_def set_qsort split: option.splits)

lemma bsearch_qsort_unique:
  assumes "\<forall>x \<in> set xs. ok (key x)" and "ok k" and "inj_on key (set xs)"
  shows "bsearch (searchcmp k) (qsort sortcmp xs) = Some x \<longleftrightarrow> x \<in> set xs \<and> key x = k"
  using bsearch_qsort [OF assms(1,2)] assms(3)
  by (auto split: option.splits dest: inj_onD)

end

text \<open>The comparison of ids: the difference cut to 32 bits.\<close>

lemma ucast_word_of_int: "(ucast (word_of_int k :: 64 word) :: 32 word) = word_of_int k"
  by transfer (simp add: take_bit_take_bit)

lemma id_difference_eq: "id_difference a b = signed_take_bit 31 (uint a - uint b)"
proof -
  have "(ucast a :: 64 word) - ucast b = word_of_int (uint a - uint b)" by simp
  then have "id_difference a b = sint (word_of_int (uint a - uint b) :: 32 word)"
    unfolding id_difference_def by (simp only: ucast_word_of_int)
  also have "\<dots> = signed_take_bit 31 (uint a - uint b)" by transfer simp
  finally show ?thesis .
qed

lemma id_difference_small:
  assumes "uint a < 2 ^ 31" "uint b < 2 ^ 31"
  shows "id_difference a b = uint a - uint b"
proof -
  have "- (2 ^ 31) \<le> uint a - uint b" "uint a - uint b < 2 ^ 31"
    using assms uint_ge_0 [of a] uint_ge_0 [of b] by linarith+
  then show ?thesis unfolding id_difference_eq by (rule signed_take_bit_int_eq_self)
qed

lemma strcmp_order: "strcmp a b < 0 \<longleftrightarrow> map char_code a < map char_code b" "strcmp a b = 0 \<longleftrightarrow> a = b"
  "strcmp a b > 0 \<longleftrightarrow> map char_code b < map char_code a"
proof -
  have inj: "char_code c = char_code d \<longleftrightarrow> c = d" for c d by (simp add: char_code_def)
  show "strcmp a b < 0 \<longleftrightarrow> map char_code a < map char_code b"
    by (induction a b rule: strcmp.induct) (auto simp: inj)
  show "strcmp a b = 0 \<longleftrightarrow> a = b"
    by (induction a b rule: strcmp.induct) auto
  show "strcmp a b > 0 \<longleftrightarrow> map char_code b < map char_code a"
    by (induction a b rule: strcmp.induct) (auto simp: inj not_less_iff_gr_or_eq)
qed

definition small_id :: "32 word \<Rightarrow> bool" where
  "small_id u \<longleftrightarrow> uint u < 2 ^ 31"

interpretation by_uid: ordered_search uid_cache_uid_sortcmp uid_cache_uid_searchcmp ue_uid uint small_id
  by unfold_locales
     (auto simp: uid_cache_uid_sortcmp_def uid_cache_uid_searchcmp_def id_difference_small small_id_def
        simp: word_uint_eq_iff)

interpretation by_gid: ordered_search gid_cache_gid_sortcmp gid_cache_gid_searchcmp ge_gid uint small_id
  by unfold_locales
     (auto simp: gid_cache_gid_sortcmp_def gid_cache_gid_searchcmp_def id_difference_small small_id_def
        simp: word_uint_eq_iff)

interpretation by_name: ordered_search "uid_cache_name_sortcmp mb" "uid_cache_name_searchcmp mb" "username mb"
  "map char_code" "\<lambda>_. True" for mb
proof
  have inj: "inj char_code" by (auto simp: inj_def char_code_def)
  show "map char_code k = map char_code k' \<Longrightarrow> k = k'" for k k' using inj by (simp add: inj_map_eq_map)
qed (auto simp: uid_cache_name_sortcmp_def uid_cache_name_searchcmp_def strcmp_order linorder_not_less
       simp flip: linorder_not_less)

section \<open>Bytes and strings\<close>

lemma char_byte: "unat (word_of_nat (char_code c) :: byte) = char_code c"
proof -
  have "char_code c < 256" unfolding char_code_def by simp
  then show ?thesis by (simp add: unat_of_nat)
qed

lemma string_at_bytes:
  assumes "NUL \<notin> set s"
  shows "string_at (string_bytes s @ r) = s"
proof -
  let ?b = "\<lambda>c. word_of_nat (char_code c) :: byte"
  have nz: "?b c \<noteq> 0" if "c \<in> set s" for c
  proof
    assume "?b c = 0"
    then have "char_code c = 0" using char_byte [of c] by simp
    moreover have "char_code NUL = 0" by code_simp
    ultimately have "char_code c = char_code NUL" by simp
    then have "c = NUL" unfolding char_code_def of_char_eq_iff .
    with that assms show False by simp
  qed
  then have "takeWhile (\<lambda>b. b \<noteq> 0) (map ?b s @ 0 # r) = map ?b s" by (intro takeWhile_append_stop) auto
  then show ?thesis by (simp add: string_at_def string_bytes_def comp_def char_byte) (simp add: char_code_def)
qed

lemma uid_bytes_join:
  "(ucast (ucast u :: byte) :: uid_t) OR push_bit 8 (ucast (ucast (drop_bit 8 u) :: byte))
    OR push_bit 16 (ucast (ucast (drop_bit 16 u) :: byte)) OR push_bit 24 (ucast (ucast (drop_bit 24 u) :: byte)) = u"
proof (rule bit_word_eqI)
  fix n assume "n < LENGTH(32)"
  then consider "n < 8" | "8 \<le> n" "n < 16" | "16 \<le> n" "n < 24" | "24 \<le> n" "n < 32" by fastforce
  then show "bit ((ucast (ucast u :: byte) :: uid_t) OR push_bit 8 (ucast (ucast (drop_bit 8 u) :: byte))
    OR push_bit 16 (ucast (ucast (drop_bit 16 u) :: byte)) OR push_bit 24 (ucast (ucast (drop_bit 24 u) :: byte))) n = bit u n"
    by cases (auto simp: bit_simps)
qed

lemma uid_at_bytes:
  assumes "take 4 (drop (4 * i) bs) = uid_bytes u"
  shows "uid_at bs i = u"
proof -
  have "length (take 4 (drop (4 * i) bs)) = 4" unfolding assms by (simp add: uid_bytes_def)
  then have len: "4 * i + 4 \<le> length bs" by auto
  have nth: "bs ! (4 * i + k) = uid_bytes u ! k" if "k < 4" for k
    using that len by (simp flip: assms)
  have "bs ! (4 * i + 0) = ucast u" "bs ! (4 * i + 1) = ucast (drop_bit 8 u)"
    "bs ! (4 * i + 2) = ucast (drop_bit 16 u)" "bs ! (4 * i + 3) = ucast (drop_bit 24 u)"
    using nth [of 0] nth [of 1] nth [of 2] nth [of 3] by (simp_all add: uid_bytes_def)
  then show ?thesis unfolding uid_at_def Let_def by (simp only: uid_bytes_join)
qed

lemma length_uid_bytes [simp]: "length (uid_bytes u) = 4"
  by (simp add: uid_bytes_def)

lemma length_string_bytes [simp]: "length (string_bytes s) = Suc (length s)"
  by (simp add: string_bytes_def)

lemma nat_sint_small: "n < 2 ^ 31 \<Longrightarrow> nat (sint (of_nat n :: 32 word)) = n"
proof -
  assume n: "n < 2 ^ 31"
  have "sint (word_of_int (int n) :: 32 word) = signed_take_bit 31 (int n)" by transfer simp
  also have "\<dots> = int n" using n by (intro signed_take_bit_int_eq_self) auto
  finally show ?thesis by simp
qed

section \<open>The cache and its memory\<close>

text \<open>
  A block of bytes at an offset of the memory block.  What is stored stays where it is when the
  block grows.
\<close>

definition stored :: "memory_block \<Rightarrow> 32 word \<Rightarrow> byte list \<Rightarrow> bool" where
  "stored mb off bs \<longleftrightarrow>
     nat (sint off) + length bs \<le> length (mb_contents mb)
     \<and> take (length bs) (drop (nat (sint off)) (mb_contents mb)) = bs"

definition extends :: "memory_block \<Rightarrow> memory_block \<Rightarrow> bool" where
  "extends mb mb' \<longleftrightarrow> mb_ok mb' \<and> (\<exists>x. mb_contents mb' = mb_contents mb @ x)"

lemma extends_trans: "extends a b \<Longrightarrow> extends b c \<Longrightarrow> extends a c"
  by (auto simp: extends_def)

lemma stored_extends: "stored mb off bs \<Longrightarrow> extends mb mb' \<Longrightarrow> stored mb' off bs"
  by (auto simp: stored_def extends_def)

lemma stored_get:
  assumes "stored mb off bs" "mb_ok mb"
  shows "\<exists>r. memory_block_get mb off = bs @ r"
proof -
  have "memory_block_get mb off = drop (nat (sint off)) (mb_contents mb @ drop (unat (mb_size mb)) (mb_data mb))"
    by (simp add: memory_block_get_def mb_contents_def)
  also have "\<dots> = drop (nat (sint off)) (mb_contents mb) @ drop (unat (mb_size mb)) (mb_data mb)"
    using assms by (simp add: stored_def)
  also have "\<dots> = bs @ drop (length bs) (drop (nat (sint off)) (mb_contents mb)) @ drop (unat (mb_size mb)) (mb_data mb)"
    using assms(1) by (metis append.assoc append_take_drop_id stored_def)
  finally show ?thesis by blast
qed

lemma append_stored:
  assumes ok: "mb_ok mb" and fits: "length (mb_contents mb) + length bs < 2 ^ 31"
  shows "\<exists>mb' off. append_to_memory_block mb bs = Some (off, mb') \<and> extends mb mb' \<and> stored mb' off bs
    \<and> mb_contents mb' = mb_contents mb @ bs \<and> off = of_nat (length (mb_contents mb))"
proof -
  have lim: "length (mb_contents mb) + length bs \<le> 2 ^ 63" using fits by simp
  obtain mb' where mb': "append_to_memory_block mb bs = Some (of_nat (length (mb_contents mb)), mb')" "mb_ok mb'"
      "mb_contents mb' = mb_contents mb @ bs"
    using mb.append_contents [OF ok lim] by blast
  moreover have "nat (sint (of_nat (length (mb_contents mb)) :: 32 word)) = length (mb_contents mb)"
    using fits nat_sint_small by simp
  ultimately show ?thesis by (auto simp: stored_def extends_def)
qed

lemma extends_refl: "mb_ok mb \<Longrightarrow> extends mb mb"
  by (simp add: extends_def)

text \<open>The cache entry of a user: its ids, and its name in the memory block.\<close>

definition user_entry :: "memory_block \<Rightarrow> passwd \<Rightarrow> uid_cache_entry \<Rightarrow> bool" where
  "user_entry mb pw e \<longleftrightarrow>
     ue_uid e = pw_uid pw \<and> ue_main_gid e = pw_gid pw
     \<and> stored mb (ue_username_offset e) (string_bytes (pw_name pw))"

lemma user_entry_extends: "user_entry mb pw e \<Longrightarrow> extends mb mb' \<Longrightarrow> user_entry mb' pw e"
  by (auto simp: user_entry_def intro: stored_extends)

lemma user_entries_extend:
  "list_all2 (user_entry mb) pws es \<Longrightarrow> extends mb mb' \<Longrightarrow> list_all2 (user_entry mb') pws es"
  by (erule list_all2_mono) (erule user_entry_extends)

lemma user_entry_username:
  assumes "user_entry mb pw e" "mb_ok mb" "NUL \<notin> set (pw_name pw)"
  shows "username mb e = pw_name pw"
proof -
  obtain r where "memory_block_get mb (ue_username_offset e) = string_bytes (pw_name pw) @ r"
    using stored_get assms(1,2) unfolding user_entry_def by blast
  then show ?thesis using string_at_bytes [OF assms(3)] by (simp add: username_def)
qed

definition names_size :: "passwd list \<Rightarrow> nat" where
  "names_size pws = (\<Sum>pw\<leftarrow>pws. Suc (length (pw_name pw)))"

lemma rebuild_uid_loop_ok:
  assumes "mb_ok (cache_memory_block c)"
    and "length (mb_contents (cache_memory_block c)) + names_size pws < 2 ^ 31"
    and "list_all2 (user_entry (cache_memory_block c)) before (uid_cache c)"
  shows "\<exists>c'. rebuild_uid_loop pws c = Some c' \<and> extends (cache_memory_block c) (cache_memory_block c')
    \<and> list_all2 (user_entry (cache_memory_block c')) (before @ pws) (uid_cache c')
    \<and> length (mb_contents (cache_memory_block c')) = length (mb_contents (cache_memory_block c)) + names_size pws
    \<and> gid_cache c' = gid_cache c \<and> cache_rebuild_requested c' = cache_rebuild_requested c"
  using assms
proof (induction pws arbitrary: c before)
  case Nil
  then show ?case by (simp add: extends_refl names_size_def)
next
  case (Cons pw pws)
  let ?mb = "cache_memory_block c" and ?bs = "string_bytes (pw_name pw)"
  obtain mb' off where a: "append_to_memory_block ?mb ?bs = Some (off, mb')" "extends ?mb mb'" "stored mb' off ?bs"
      "mb_contents mb' = mb_contents ?mb @ ?bs"
    using append_stored [of ?mb ?bs] Cons.prems by (auto simp: names_size_def)
  let ?e = "\<lparr>ue_uid = pw_uid pw, ue_main_gid = pw_gid pw, ue_username_offset = off\<rparr>"
  let ?c = "c\<lparr>uid_cache_capacity := (if length (uid_cache c) = uid_cache_capacity c
      then grow_array_impl (uid_cache_capacity c) else uid_cache_capacity c),
      cache_memory_block := mb', uid_cache := uid_cache c @ [?e]\<rparr>"
  have e: "user_entry mb' pw ?e" using a(3) by (simp add: user_entry_def)
  have "list_all2 (user_entry mb') (before @ [pw]) (uid_cache c @ [?e])"
    using user_entries_extend [OF Cons.prems(3) a(2)] e by (simp add: list_all2_appendI)
  moreover have "mb_ok mb'" using a(2) by (simp add: extends_def)
  ultimately obtain c' where c': "rebuild_uid_loop pws ?c = Some c'" "extends mb' (cache_memory_block c')"
      "list_all2 (user_entry (cache_memory_block c')) ((before @ [pw]) @ pws) (uid_cache c')"
      "length (mb_contents (cache_memory_block c')) = length (mb_contents mb') + names_size pws"
      "gid_cache c' = gid_cache c" "cache_rebuild_requested c' = cache_rebuild_requested c"
    using Cons.IH [of ?c "before @ [pw]"] Cons.prems(2) a(4) by (auto simp: names_size_def)
  have "rebuild_uid_loop (pw # pws) c = Some c'" using a(1) c'(1) by (simp add: Let_def)
  with c' extends_trans [OF a(2) c'(2)] a(4) show ?case by (auto simp: names_size_def)
qed

text \<open>The user a member name stands for.\<close>

definition uid_of :: "passwd list \<Rightarrow> string \<Rightarrow> uid_t option" where
  "uid_of pws m = map_of (map (\<lambda>pw. (pw_name pw, pw_uid pw)) pws) m"

definition proper_names :: "passwd list \<Rightarrow> bool" where
  "proper_names pws \<longleftrightarrow> distinct (map pw_name pws) \<and> (\<forall>pw \<in> set pws. NUL \<notin> set (pw_name pw))"

lemma usernames:
  assumes "list_all2 (user_entry mb) pws es" "mb_ok mb" "proper_names pws"
  shows "map (username mb) es = map pw_name pws" "map ue_uid es = map pw_uid pws"
  using assms by (induction rule: list_all2_induct) (auto simp: proper_names_def user_entry_username user_entry_def)

lemma map_pair_zip: "map (\<lambda>x. (f x, g x)) xs = zip (map f xs) (map g xs)"
  by (induction xs) auto

lemma bsearch_name:
  assumes es: "list_all2 (user_entry mb0) pws es" "mb_ok mb0" "proper_names pws" and ext: "extends mb0 mb"
  shows "map_option ue_uid (bsearch (uid_cache_name_searchcmp mb m) (qsort (uid_cache_name_sortcmp mb0) es)) = uid_of pws m"
proof -
  let ?q = "qsort (uid_cache_name_sortcmp mb0) es"
  have ok: "mb_ok mb" using ext by (simp add: extends_def)
  note n0 = usernames [OF es] and n = usernames [OF user_entries_extend [OF es(1) ext] ok es(3)]
  have same: "username mb e = username mb0 e" if "e \<in> set es" for e
    using n(1) n0(1) that by (metis map_eq_conv)
  have keys: "map (\<lambda>x. map char_code (username mb x)) ?q = map (\<lambda>x. map char_code (username mb0 x)) ?q"
    using same by (simp add: by_name.set_qsort)
  have ord: "by_name.in_order mb ?q"
    using by_name.qsort_in_order [of es mb0] unfolding by_name.in_order_def keys by blast
  have b: "case bsearch (uid_cache_name_searchcmp mb m) ?q of
      Some x \<Rightarrow> x \<in> set es \<and> username mb x = m | None \<Rightarrow> \<forall>x \<in> set es. username mb x \<noteq> m"
    using by_name.bsearch_loop_correct [OF ord, where k = m and u = "length ?q" and l = 0]
    by (simp add: bsearch_def by_name.set_qsort split: option.splits)
  have zip: "map (\<lambda>pw. (pw_name pw, pw_uid pw)) pws = map (\<lambda>e. (username mb e, ue_uid e)) es"
    unfolding map_pair_zip using n by simp
  have dist: "distinct (map (username mb) es)" using n(1) es(3) by (simp add: proper_names_def)
  show ?thesis
  proof (cases "bsearch (uid_cache_name_searchcmp mb m) ?q")
    case None
    then have "m \<notin> fst ` set (map (\<lambda>e. (username mb e, ue_uid e)) es)" using b by force
    then have "map_of (map (\<lambda>e. (username mb e, ue_uid e)) es) m = None" unfolding map_of_eq_None_iff .
    then show ?thesis using None unfolding uid_of_def zip by simp
  next
    case (Some e)
    then have "(m, ue_uid e) \<in> set (map (\<lambda>e. (username mb e, ue_uid e)) es)" using b by force
    moreover have "distinct (map fst (map (\<lambda>e. (username mb e, ue_uid e)) es))" using dist by (simp add: comp_def)
    ultimately show ?thesis using Some unfolding uid_of_def zip by simp
  qed
qed


text \<open>Growing the block by four bytes and writing them at its end is an append.\<close>

lemma grow_write_append:
  "unat (mb_size mb) = k \<Longrightarrow>
   (case grow_memory_block mb 4 of None \<Rightarrow> None
    | Some mb' \<Rightarrow> F (mb'\<lparr>mb_data := write_bytes k (uid_bytes u) (mb_data mb')\<rparr>))
   = (case append_to_memory_block mb (uid_bytes u) of None \<Rightarrow> None | Some (off, mb') \<Rightarrow> F mb')"
  by (auto simp: append_to_memory_block_def Let_def split: option.split)

lemma member_loop_ok:
  assumes known: "\<And>mb' m. extends mb0 mb' \<Longrightarrow>
      map_option ue_uid (bsearch (uid_cache_name_searchcmp mb' m) ucache) = known m"
  shows "extends mb0 mb \<Longrightarrow> nat (sint (ge_uids_offset ent)) + 4 * ge_uid_count ent = length (mb_contents mb) \<Longrightarrow>
    length (mb_contents mb) + 4 * length ms < 2 ^ 31 \<Longrightarrow>
    \<exists>mb'. member_loop ucache ms ent mb
        = Some (ent\<lparr>ge_uid_count := ge_uid_count ent + length (List.map_filter known ms)\<rparr>, mb')
      \<and> extends mb mb' \<and> mb_contents mb' = mb_contents mb @ concat (map uid_bytes (List.map_filter known ms))"
proof (induction ms arbitrary: ent mb)
  case Nil
  then show ?case by (simp add: extends_def map_filter_simps)
next
  case (Cons m ms)
  have ok: "mb_ok mb" using Cons.prems(1) by (simp add: extends_def)
  note k = known [OF Cons.prems(1), of m]
  show ?case
  proof (cases "bsearch (uid_cache_name_searchcmp mb m) ucache")
    case None
    then have "known m = None" using k by simp
    with Cons.IH [OF Cons.prems(1,2)] Cons.prems(3) None show ?thesis by (simp add: map_filter_simps)
  next
    case (Some ue)
    then have km: "known m = Some (ue_uid ue)" using k by simp
    let ?bs = "uid_bytes (ue_uid ue)" and ?ent = "ent\<lparr>ge_uid_count := ge_uid_count ent + 1\<rparr>"
    obtain mb1 off where a: "append_to_memory_block mb ?bs = Some (off, mb1)" "extends mb mb1"
        "mb_contents mb1 = mb_contents mb @ ?bs"
      using append_stored [OF ok, of ?bs] Cons.prems(3) by auto
    have end_pos: "unat (mb_size mb) = nat (sint (ge_uids_offset ent)) + 4 * ge_uid_count ent"
      using Cons.prems(2) length_mb_contents [OF ok] by simp
    have step: "member_loop ucache (m # ms) ent mb = member_loop ucache ms ?ent mb1"
      using Some a(1) grow_write_append [OF end_pos, of "member_loop ucache ms ?ent" "ue_uid ue"] by simp
    obtain mb' where mb': "member_loop ucache ms ?ent mb1
          = Some (?ent\<lparr>ge_uid_count := ge_uid_count ?ent + length (List.map_filter known ms)\<rparr>, mb')"
        "extends mb1 mb'" "mb_contents mb' = mb_contents mb1 @ concat (map uid_bytes (List.map_filter known ms))"
      using Cons.IH [of mb1 ?ent] extends_trans [OF Cons.prems(1) a(2)] Cons.prems(2,3) a(3) by auto
    then show ?thesis using step km a(3) extends_trans [OF a(2) mb'(2)] by (simp add: map_filter_simps)
  qed
qed

definition group_entry :: "memory_block \<Rightarrow> (string \<Rightarrow> uid_t option) \<Rightarrow> group \<Rightarrow> gid_cache_entry \<Rightarrow> bool" where
  "group_entry mb known gr e \<longleftrightarrow>
     ge_gid e = gr_gid gr \<and> ge_uid_count e = length (List.map_filter known (gr_mem gr))
     \<and> stored mb (ge_uids_offset e) (concat (map uid_bytes (List.map_filter known (gr_mem gr))))"

lemma group_entries_extend:
  "list_all2 (group_entry mb known) grs es \<Longrightarrow> extends mb mb' \<Longrightarrow> list_all2 (group_entry mb' known) grs es"
  by (erule list_all2_mono) (auto simp: group_entry_def intro: stored_extends)

definition members_size :: "group list \<Rightarrow> nat" where
  "members_size grs = (\<Sum>gr\<leftarrow>grs. 4 * length (gr_mem gr))"

lemma length_map_filter_le: "length (List.map_filter f xs) \<le> length xs"
  by (induction xs) (auto simp: map_filter_simps split: option.split)

lemma length_concat_uid_bytes: "length (concat (map uid_bytes us)) = 4 * length us"
  by (induction us) auto

lemma rebuild_gid_loop_ok:
  assumes known: "\<And>mb' m. extends mb0 mb' \<Longrightarrow>
      map_option ue_uid (bsearch (uid_cache_name_searchcmp mb' m) ucache) = known m"
  shows "extends mb0 (cache_memory_block c) \<Longrightarrow> uid_cache c = ucache \<Longrightarrow>
    length (mb_contents (cache_memory_block c)) + members_size grs < 2 ^ 31 \<Longrightarrow>
    list_all2 (group_entry (cache_memory_block c) known) before (gid_cache c) \<Longrightarrow>
    \<exists>c'. rebuild_gid_loop grs c = Some c' \<and> extends (cache_memory_block c) (cache_memory_block c')
      \<and> uid_cache c' = ucache \<and> cache_rebuild_requested c' = cache_rebuild_requested c
      \<and> list_all2 (group_entry (cache_memory_block c') known) (before @ grs) (gid_cache c')"
proof (induction grs arbitrary: c before)
  case Nil
  then show ?case by (simp add: extends_def)
next
  case (Cons gr grs)
  let ?mb = "cache_memory_block c"
  let ?ent = "\<lparr>ge_gid = gr_gid gr, ge_uid_count = 0, ge_uids_offset = ucast (mb_size ?mb)\<rparr>"
  let ?us = "List.map_filter known (gr_mem gr)"
  have ok: "mb_ok ?mb" using Cons.prems(1) by (simp add: extends_def)
  have off: "ucast (mb_size ?mb) = (of_nat (length (mb_contents ?mb)) :: 32 word)"
    using length_mb_contents [OF ok] by simp
  have small: "length (mb_contents ?mb) < 2 ^ 31" using Cons.prems(3) by simp
  have start: "nat (sint (ge_uids_offset ?ent)) = length (mb_contents ?mb)"
    using nat_sint_small [OF small] unfolding off [symmetric] by simp
  obtain mb' where m: "member_loop ucache (gr_mem gr) ?ent ?mb = Some (?ent\<lparr>ge_uid_count := length ?us\<rparr>, mb')"
      "extends ?mb mb'" "mb_contents mb' = mb_contents ?mb @ concat (map uid_bytes ?us)"
    using member_loop_ok [OF known Cons.prems(1), of ?ent "gr_mem gr"] start Cons.prems(3)
    by (auto simp: members_size_def)
  let ?e = "?ent\<lparr>ge_uid_count := length ?us\<rparr>"
  have e: "group_entry mb' known gr ?e"
    using m(3) start by (auto simp: group_entry_def stored_def)
  let ?c = "c\<lparr>gid_cache_capacity := (if length (gid_cache c) = gid_cache_capacity c
      then grow_array_impl (gid_cache_capacity c) else gid_cache_capacity c),
      cache_memory_block := mb', gid_cache := gid_cache c @ [?e]\<rparr>"
  have "list_all2 (group_entry mb' known) (before @ [gr]) (gid_cache c @ [?e])"
    using group_entries_extend [OF Cons.prems(4) m(2)] e by (simp add: list_all2_appendI)
  moreover have "length (mb_contents mb') + members_size grs < 2 ^ 31"
    using Cons.prems(3) m(3) length_map_filter_le [of known "gr_mem gr"]
    by (simp add: members_size_def length_concat_uid_bytes)
  ultimately obtain c' where "rebuild_gid_loop grs ?c = Some c' \<and> extends mb' (cache_memory_block c')
      \<and> uid_cache c' = ucache \<and> cache_rebuild_requested c' = cache_rebuild_requested c
      \<and> list_all2 (group_entry (cache_memory_block c') known) ((before @ [gr]) @ grs) (gid_cache c')"
    using Cons.IH [of ?c "before @ [gr]"] extends_trans [OF Cons.prems(1) m(2)] Cons.prems(2) by auto
  moreover have "rebuild_gid_loop (gr # grs) c = rebuild_gid_loop grs ?c"
    using m(1) Cons.prems(2) by (simp add: Let_def)
  ultimately show ?case using extends_trans [OF m(2)] by auto
qed


section \<open>The cache answers like the databases\<close>

lemma uid_at_concat:
  "i < length us \<Longrightarrow> uid_at (concat (map uid_bytes us) @ r) i = us ! i"
proof (rule uid_at_bytes)
  show "i < length us \<Longrightarrow> take 4 (drop (4 * i) (concat (map uid_bytes us) @ r)) = uid_bytes (us ! i)"
  proof (induction us arbitrary: i)
    case (Cons u us)
    then show ?case by (cases i) simp_all
  qed simp
qed

lemma group_entry_members:
  assumes "group_entry mb known gr e" "mb_ok mb"
  shows "(\<exists>i \<in> set [0 ..< ge_uid_count e]. uid_at (memory_block_get mb (ge_uids_offset e)) i = u)
    \<longleftrightarrow> (\<exists>m \<in> set (gr_mem gr). known m = Some u)"
proof -
  let ?us = "List.map_filter known (gr_mem gr)"
  obtain r where "memory_block_get mb (ge_uids_offset e) = concat (map uid_bytes ?us) @ r"
    using stored_get assms unfolding group_entry_def by blast
  then have "(\<exists>i \<in> set [0 ..< ge_uid_count e]. uid_at (memory_block_get mb (ge_uids_offset e)) i = u)
      \<longleftrightarrow> u \<in> set ?us"
    using assms(1) by (auto simp: group_entry_def uid_at_concat in_set_conv_nth)
  also have "\<dots> \<longleftrightarrow> (\<exists>m \<in> set (gr_mem gr). known m = Some u)"
    by (force simp: List.map_filter_def)
  finally show ?thesis .
qed

text \<open>Databases the cache can represent.\<close>

definition db_ok :: "user_db \<Rightarrow> bool" where
  "db_ok db \<longleftrightarrow>
     \<not> enumeration_failed (pw_error db) \<and> \<not> enumeration_failed (gr_error db)
     \<and> proper_names (pw_entries db) \<and> distinct (map pw_uid (pw_entries db)) \<and> distinct (map gr_gid (gr_entries db))
     \<and> (\<forall>pw \<in> set (pw_entries db). small_id (pw_uid pw)) \<and> (\<forall>gr \<in> set (gr_entries db). small_id (gr_gid gr))
     \<and> names_size (pw_entries db) + members_size (gr_entries db) < 2 ^ 31"

definition is_member :: "user_db \<Rightarrow> uid_t \<Rightarrow> gid_t \<Rightarrow> bool" where
  "is_member db u g \<longleftrightarrow>
     (\<exists>pw \<in> set (pw_entries db). pw_uid pw = u \<and> pw_gid pw = g)
     \<or> (\<exists>gr \<in> set (gr_entries db). gr_gid gr = g
          \<and> (\<exists>pw \<in> set (pw_entries db). pw_name pw \<in> set (gr_mem gr) \<and> pw_uid pw = u))"

text \<open>Two collections matched by a relation, in whatever order.\<close>

definition matched :: "('a \<Rightarrow> 'b \<Rightarrow> bool) \<Rightarrow> 'a list \<Rightarrow> 'b list \<Rightarrow> bool" where
  "matched P xs ys \<longleftrightarrow> (\<forall>x \<in> set xs. \<exists>y \<in> set ys. P x y) \<and> (\<forall>y \<in> set ys. \<exists>x \<in> set xs. P x y)"

lemma list_all2_matched: "list_all2 P xs ys \<Longrightarrow> matched P xs ys"
  unfolding matched_def by (induction rule: list_all2_induct) auto

lemma matched_set: "set ys = set zs \<Longrightarrow> matched P xs ys \<longleftrightarrow> matched P xs zs"
  by (simp add: matched_def)

text \<open>A cache that holds the contents of a database.\<close>

definition represents :: "user_db \<Rightarrow> user_cache \<Rightarrow> bool" where
  "represents db c \<longleftrightarrow>
     mb_ok (cache_memory_block c)
     \<and> (\<exists>es. matched (user_entry (cache_memory_block c)) (pw_entries db) es
          \<and> uid_cache c = qsort uid_cache_uid_sortcmp es)
     \<and> (\<exists>gs. matched (group_entry (cache_memory_block c) (uid_of (pw_entries db))) (gr_entries db) gs
          \<and> gid_cache c = qsort gid_cache_gid_sortcmp gs)"

lemma lookup_user:
  assumes m: "matched (user_entry mb) pws es" and d: "distinct (map pw_uid pws)"
    and small: "\<forall>pw \<in> set pws. small_id (pw_uid pw)" "small_id u"
  shows "(case bsearch (uid_cache_uid_searchcmp u) (qsort uid_cache_uid_sortcmp es) of
      Some uent \<Rightarrow> ue_main_gid uent = g | None \<Rightarrow> False)
    \<longleftrightarrow> (\<exists>pw \<in> set pws. pw_uid pw = u \<and> pw_gid pw = g)"
proof -
  have "\<forall>e \<in> set es. small_id (ue_uid e)" using m small(1) by (auto simp: matched_def user_entry_def)
  note b = by_uid.bsearch_qsort [OF this small(2)]
  have inj: "pw = pw'" if "pw \<in> set pws" "pw' \<in> set pws" "pw_uid pw = pw_uid pw'" for pw pw'
    using d that by (metis distinct_map inj_onD)
  show ?thesis
  proof (cases "bsearch (uid_cache_uid_searchcmp u) (qsort uid_cache_uid_sortcmp es)")
    case None
    then have "\<forall>e \<in> set es. ue_uid e \<noteq> u" using b by simp
    then have "\<forall>pw \<in> set pws. pw_uid pw \<noteq> u" using m by (auto simp: matched_def user_entry_def)
    with None show ?thesis by auto
  next
    case (Some e)
    then have e: "e \<in> set es" "ue_uid e = u" using b by simp_all
    then obtain pw where pw: "pw \<in> set pws" "user_entry mb pw e" using m by (auto simp: matched_def)
    then have "pw_uid pw = u" "ue_main_gid e = pw_gid pw" using e by (auto simp: user_entry_def)
    with Some pw(1) inj show ?thesis by auto
  qed
qed

lemma lookup_group:
  assumes ok: "mb_ok mb" and m: "matched (group_entry mb known) grs gs" and d: "distinct (map gr_gid grs)"
    and small: "\<forall>gr \<in> set grs. small_id (gr_gid gr)" "small_id g"
  shows "(case bsearch (gid_cache_gid_searchcmp g) (qsort gid_cache_gid_sortcmp gs) of
      Some gent \<Rightarrow> let uids = memory_block_get mb (ge_uids_offset gent)
                   in \<exists>i \<in> set [0 ..< ge_uid_count gent]. uid_at uids i = u
    | None \<Rightarrow> False)
    \<longleftrightarrow> (\<exists>gr \<in> set grs. gr_gid gr = g \<and> (\<exists>n \<in> set (gr_mem gr). known n = Some u))"
proof -
  have "\<forall>e \<in> set gs. small_id (ge_gid e)" using m small(1) by (auto simp: matched_def group_entry_def)
  note b = by_gid.bsearch_qsort [OF this small(2)]
  have inj: "gr = gr'" if "gr \<in> set grs" "gr' \<in> set grs" "gr_gid gr = gr_gid gr'" for gr gr'
    using d that by (metis distinct_map inj_onD)
  show ?thesis
  proof (cases "bsearch (gid_cache_gid_searchcmp g) (qsort gid_cache_gid_sortcmp gs)")
    case None
    then have "\<forall>e \<in> set gs. ge_gid e \<noteq> g" using b by simp
    then have "\<forall>gr \<in> set grs. gr_gid gr \<noteq> g" using m by (auto simp: matched_def group_entry_def)
    with None show ?thesis by auto
  next
    case (Some e)
    then have e: "e \<in> set gs" "ge_gid e = g" using b by simp_all
    then obtain gr where gr: "gr \<in> set grs" "group_entry mb known gr e" using m by (auto simp: matched_def)
    then have "gr_gid gr = g" using e by (auto simp: group_entry_def)
    with Some gr(1) inj group_entry_members [OF gr(2) ok, of u] show ?thesis by (auto simp: Let_def)
  qed
qed

lemma uid_of_iff:
  assumes "proper_names pws"
  shows "uid_of pws n = Some u \<longleftrightarrow> (\<exists>pw \<in> set pws. pw_name pw = n \<and> pw_uid pw = u)"
proof -
  have "distinct (map fst (map (\<lambda>pw. (pw_name pw, pw_uid pw)) pws))"
    using assms by (simp add: proper_names_def comp_def)
  then show ?thesis by (auto simp: uid_of_def)
qed

lemma represents_lookup:
  assumes ok: "db_ok db" and r: "represents db c" and small: "small_id u" "small_id g"
  shows "lookup_membership c u g \<longleftrightarrow> is_member db u g"
proof -
  let ?mb = "cache_memory_block c"
  obtain es gs where es: "matched (user_entry ?mb) (pw_entries db) es" "uid_cache c = qsort uid_cache_uid_sortcmp es"
    and gs: "matched (group_entry ?mb (uid_of (pw_entries db))) (gr_entries db) gs"
      "gid_cache c = qsort gid_cache_gid_sortcmp gs" and mb: "mb_ok ?mb"
    using r by (auto simp: represents_def)
  have u: "(case uid_cache_lookup c u of Some uent \<Rightarrow> ue_main_gid uent = g | None \<Rightarrow> False)
      \<longleftrightarrow> (\<exists>pw \<in> set (pw_entries db). pw_uid pw = u \<and> pw_gid pw = g)"
    unfolding uid_cache_lookup_def es(2) using ok small(1) by (intro lookup_user [OF es(1)]) (auto simp: db_ok_def)
  have g: "(case gid_cache_lookup c g of
        Some gent \<Rightarrow> let uids = memory_block_get ?mb (ge_uids_offset gent)
                     in \<exists>i \<in> set [0 ..< ge_uid_count gent]. uid_at uids i = u
      | None \<Rightarrow> False)
      \<longleftrightarrow> (\<exists>gr \<in> set (gr_entries db). gr_gid gr = g \<and> (\<exists>n \<in> set (gr_mem gr). uid_of (pw_entries db) n = Some u))"
    unfolding gid_cache_lookup_def gs(2) using ok small(2) by (intro lookup_group [OF mb gs(1)]) (auto simp: db_ok_def)
  have "proper_names (pw_entries db)" using ok by (simp add: db_ok_def)
  then show ?thesis
    unfolding lookup_membership_def is_member_def u g uid_of_iff [OF \<open>proper_names (pw_entries db)\<close>] by blast
qed

lemma init_memory_block_ok: "mb_ok (init_memory_block n)" "mb_contents (init_memory_block n) = []"
  by (auto simp: init_memory_block_def mb_ok_def mb_contents_def realloc_bytes_def word_gt_0)

lemma init_user_cache_represents:
  assumes ok: "db_ok db" and req: "cache_rebuild_requested c"
  shows "\<exists>c'. init_user_cache db c = Some c' \<and> represents db c' \<and> \<not> cache_rebuild_requested c'"
proof -
  let ?pws = "pw_entries db" and ?grs = "gr_entries db"
  let ?c0 = "c\<lparr>cache_rebuild_requested := False, cache_memory_block := init_memory_block 1024, uid_cache := []\<rparr>"
  have dbf: "\<not> enumeration_failed (pw_error db)" "\<not> enumeration_failed (gr_error db)" "proper_names ?pws"
      "names_size ?pws + members_size ?grs < 2 ^ 31" using ok by (simp_all add: db_ok_def)
  obtain c1 where c1: "rebuild_uid_loop ?pws ?c0 = Some c1" "mb_ok (cache_memory_block c1)"
      "list_all2 (user_entry (cache_memory_block c1)) ?pws (uid_cache c1)"
      "length (mb_contents (cache_memory_block c1)) = names_size ?pws" "\<not> cache_rebuild_requested c1"
    using rebuild_uid_loop_ok [of ?c0 ?pws "[]"] dbf(4) init_memory_block_ok [of 1024] by (auto simp: extends_def)
  let ?mb = "cache_memory_block c1" and ?q = "qsort (uid_cache_name_sortcmp (cache_memory_block c1)) (uid_cache c1)"
  let ?c1 = "c1\<lparr>gid_cache := [], uid_cache := ?q\<rparr>"
  have "map_option ue_uid (bsearch (uid_cache_name_searchcmp mb' m) ?q) = uid_of ?pws m"
    if "extends ?mb mb'" for mb' m by (rule bsearch_name [OF c1(3,2) dbf(3) that])
  then obtain c2 where c2: "rebuild_gid_loop ?grs ?c1 = Some c2" "extends ?mb (cache_memory_block c2)"
      "uid_cache c2 = ?q" "\<not> cache_rebuild_requested c2"
      "list_all2 (group_entry (cache_memory_block c2) (uid_of ?pws)) ?grs (gid_cache c2)"
    using rebuild_gid_loop_ok [of ?mb ?q "uid_of ?pws" ?c1 ?grs "[]"] extends_refl [OF c1(2)] c1(4,5) dbf(4) by auto
  let ?c3 = "c2\<lparr>uid_cache := qsort uid_cache_uid_sortcmp (uid_cache c2),
      gid_cache := qsort gid_cache_gid_sortcmp (gid_cache c2)\<rparr>"
  have "matched (user_entry (cache_memory_block c2)) ?pws (uid_cache c1)"
    by (rule list_all2_matched [OF user_entries_extend [OF c1(3) c2(2)]])
  then have "matched (user_entry (cache_memory_block c2)) ?pws (uid_cache c2)"
    unfolding c2(3) using matched_set [OF by_name.set_qsort] by blast
  moreover have "mb_ok (cache_memory_block c2)" using c2(2) by (simp add: extends_def)
  ultimately have "represents db ?c3" using list_all2_matched [OF c2(5)] by (auto simp: represents_def)
  moreover have "init_user_cache db c = Some ?c3"
    using req c1(1) c2(1) dbf by (simp add: init_user_cache_def rebuild_uid_cache_def rebuild_gid_cache_def)
  ultimately show ?thesis using c2(4) by auto
qed

section \<open>Properties\<close>

lemma belongs_to_group_spec:
  assumes "db_ok db" and "cache_rebuild_requested c \<or> represents db c" and "small_id u" and "small_id g"
  shows "\<exists>c'. user_belongs_to_group db c u g = Some (is_member db u g, c') \<and> represents db c'
    \<and> \<not> cache_rebuild_requested c'"
proof (cases "cache_rebuild_requested c")
  case True
  then show ?thesis
    using init_user_cache_represents [OF assms(1)] represents_lookup [OF assms(1) _ assms(3,4)]
    by (auto simp: user_belongs_to_group_def)
next
  case False
  then show ?thesis
    using represents_lookup [OF assms(1) _ assms(3,4)] assms(2) by (simp add: user_belongs_to_group_def)
qed

text \<open>
  C12. The cache is a faithful copy of the user and group databases.  After a rebuild (at the first
  use, or when SIGUSR1 asked for one), and until the databases change, \<^verbatim>\<open>user_belongs_to_group\<close> answers
  yes exactly when the group is the user's primary group or lists one of the user's names as a
  member.  This holds for databases that can be enumerated, with distinct names and ids below 2^31,
  no entry embedding a NUL, and less than 2 GiB of names; the rebuild never runs out of its memory
  block and never aborts.
\<close>

theorem user_belongs_to_group_correct:
  assumes "db_ok db" and "cache_rebuild_requested c \<or> represents db c" and "small_id u" and "small_id g"
  shows "\<exists>c'. user_belongs_to_group db c u g = Some (is_member db u g, c') \<and> represents db c'
    \<and> \<not> cache_rebuild_requested c'"
  using assms by (rule belongs_to_group_spec)

definition example_db :: user_db where
  "example_db =
     \<lparr>pw_entries = [\<lparr>pw_name = ''root'', pw_uid = 0, pw_gid = 0\<rparr>, \<lparr>pw_name = ''bob'', pw_uid = 1001, pw_gid = 100\<rparr>,
                    \<lparr>pw_name = ''alice'', pw_uid = 1000, pw_gid = 100\<rparr>],
      pw_error = Some ENOENT,
      gr_entries = [\<lparr>gr_gid = 100, gr_mem = []\<rparr>, \<lparr>gr_gid = 27, gr_mem = [''alice'', ''ghost'', ''root'']\<rparr>],
      gr_error = None\<rparr>"

lemma example_db_ok: "db_ok example_db"
  by (simp add: db_ok_def example_db_def enumeration_failed_def proper_names_def names_size_def
      members_size_def small_id_def)

theorem user_belongs_to_group_correct_witness:
  "db_ok example_db \<and> fst (the (user_belongs_to_group example_db initial_cache 1000 27))
   \<and> \<not> fst (the (user_belongs_to_group example_db initial_cache 1001 27))"
proof -
  note ok = example_db_ok
  have req: "cache_rebuild_requested initial_cache" by (simp add: initial_cache_def)
  have s: "small_id 1000" "small_id 1001" "small_id 27" by (simp_all add: small_id_def)
  have m: "is_member example_db 1000 27" "\<not> is_member example_db 1001 27" by code_simp+
  show ?thesis
    using user_belongs_to_group_correct [OF ok disjI1 [OF req] s(1,3)]
      user_belongs_to_group_correct [OF ok disjI1 [OF req] s(2,3)] ok m by auto
qed

text \<open>
  The comparison functions of the cache return the difference of two ids cut to an \<^verbatim>\<open>int\<close>.  Its sign
  is that of the difference exactly when the difference fits; for ids further apart it is reversed,
  and the functions are then not even transitive, as \<^verbatim>\<open>qsort\<close> and \<^verbatim>\<open>bsearch\<close> require.
\<close>

lemma id_comparison_truncates:
  "(id_difference a b = uint a - uint b \<longleftrightarrow> - (2 ^ 31) \<le> uint a - uint b \<and> uint a - uint b < 2 ^ 31)
   \<and> id_difference 0 0x60000000 < 0 \<and> id_difference 0x60000000 0xC0000000 < 0 \<and> id_difference 0 0xC0000000 > 0"
proof -
  have "id_difference a b = uint a - uint b \<longleftrightarrow> - (2 ^ 31) \<le> uint a - uint b \<and> uint a - uint b < 2 ^ 31"
    unfolding id_difference_eq using signed_take_bit_int_eq_self_iff [of 31 "uint a - uint b"] by simp
  moreover have "id_difference 0 0x60000000 < 0" "id_difference 0x60000000 0xC0000000 < 0" "id_difference 0 0xC0000000 > 0"
    by code_simp+
  ultimately show ?thesis by blast
qed

lemma query_loop_doubling:
  "(\<And>j. j < k \<Longrightarrow> fst (query (n * 2 ^ j)) = Some ERANGE) \<Longrightarrow> fst (query (n * 2 ^ k)) \<noteq> Some ERANGE \<Longrightarrow>
   query_loop query n = Some (snd (query (n * 2 ^ k)))"
proof (induction k arbitrary: n)
  case 0
  then show ?case by (simp add: query_loop.simps [of query n])
next
  case (Suc k)
  have "fst (query n) = Some ERANGE" using Suc.prems(1) [of 0] by simp
  moreover have "query_loop query (n * 2) = Some (snd (query (n * 2 * 2 ^ k)))"
    using Suc.prems by (intro Suc.IH) (simp_all add: mult.assoc flip: power_Suc)
  ultimately show ?case by (simp add: query_loop.simps [of query n] mult.assoc)
qed

text \<open>
  C32. Parsing a user name ends and gives the user of the database, when the C library answers with
  something other than \<^verbatim>\<open>ERANGE\<close> for one of the buffer sizes 1024, 2048, ...; a text that is a number
  in base ten is taken as the id itself, and so is the empty text, as id 0.
\<close>

theorem user_uid_terminates:
  assumes "\<And>j. j < k \<Longrightarrow> fst (getpwnam_r name (1024 * 2 ^ j)) = Some ERANGE"
    and "fst (getpwnam_r name (1024 * 2 ^ k)) \<noteq> Some ERANGE"
  shows "user_uid getpwnam_r name =
      Some (if snd (strtol 10 name) = [] then Some (word_of_int (fst (strtol 10 name)))
            else map_option pw_uid (snd (getpwnam_r name (1024 * 2 ^ k))))
    \<and> user_uid getpwnam_r [] = Some (Some 0)"
proof
  show "user_uid getpwnam_r name =
      Some (if snd (strtol 10 name) = [] then Some (word_of_int (fst (strtol 10 name)))
            else map_option pw_uid (snd (getpwnam_r name (1024 * 2 ^ k))))"
    using query_loop_doubling [of k "getpwnam_r name" 1024, OF assms] by (simp add: user_uid_def split_beta)
  show "user_uid getpwnam_r [] = Some (Some 0)" by (simp add: user_uid_def strtol_def)
qed

theorem user_uid_terminates_witness:
  "user_uid (\<lambda>n sz. if sz < 4096 then (Some ERANGE, None)
      else (None, Some \<lparr>pw_name = n, pw_uid = 1000, pw_gid = 100\<rparr>)) ''alice'' = Some (Some 1000)"
proof -
  let ?g = "\<lambda>(n :: string) (sz :: size_t). if sz < 4096 then (Some ERANGE, None)
      else (None, Some \<lparr>pw_name = n, pw_uid = 1000, pw_gid = 100\<rparr>)"
  have "fst (?g ''alice'' (1024 * 2 ^ j)) = Some ERANGE" if "j < 2" for j
    using that by (auto simp: less_2_cases_iff)
  moreover have "fst (?g ''alice'' (1024 * 2 ^ 2)) \<noteq> Some ERANGE" by simp
  ultimately have "user_uid ?g ''alice'' = Some (if snd (strtol 10 ''alice'') = [] then Some (word_of_int (fst (strtol 10 ''alice'')))
            else map_option pw_uid (snd (?g ''alice'' (1024 * 2 ^ 2))))"
    using user_uid_terminates [of 2 ?g "''alice''"] by blast
  moreover have "snd (strtol 10 ''alice'') = ''alice''" by code_simp
  ultimately show ?thesis by simp
qed

end
