(* ===== verification/Cachelock.thy ===== *)
theory Cachelock
  imports Userinfo
begin

text \<open>
  Threads calling \<^verbatim>\<open>user_belongs_to_group\<close> (\<^verbatim>\<open>src/userinfo.c\<close>) at the same time: the read-write lock, the
  rebuild under the write lock in the steps the code takes, the signal handler that requests a
  rebuild, and a user database that changes.  Every interleaving of the steps is a run.
\<close>

section \<open>The steps of a call\<close>

text \<open>
  Where a thread is in its call, with the arguments of the call; \<open>Release_read\<close> and \<open>Return\<close> carry the answer.
\<close>

datatype pc =
    Idle
  | Check uid_t gid_t          \<comment> \<open>about to test \<open>cache_rebuild_requested\<close>\<close>
  | Want_write uid_t gid_t     \<comment> \<open>in \<open>init_user_cache\<close>, before \<open>pthread_rwlock_wrlock\<close>\<close>
  | Test uid_t gid_t           \<comment> \<open>write lock held, about to test the flag again\<close>
  | Rebuild_uid uid_t gid_t
  | Rebuild_gid uid_t gid_t
  | Sort uid_t gid_t
  | Release_write uid_t gid_t
  | Want_read uid_t gid_t      \<comment> \<open>before \<open>pthread_rwlock_rdlock\<close>\<close>
  | Lookup uid_t gid_t         \<comment> \<open>read lock held\<close>
  | Release_read uid_t gid_t bool
  | Return uid_t gid_t bool

text \<open>
  The flag \<^verbatim>\<open>cache_rebuild_requested\<close> is shared with the signal handler and kept apart from the cache it
  protects.  Two fields only record history: \<open>stale\<close>, whether the database has changed since the last request
  for a rebuild, and \<open>fresh\<close>, the calls that began when it had not and have seen no change since.
\<close>

record shared =
  db :: user_db
  flag :: bool
  cache :: user_cache
  writer :: "nat option"
  readers :: "nat set"
  pcs :: "nat \<Rightarrow> pc"
  stale :: bool
  fresh :: "nat \<Rightarrow> bool"

definition begin_rebuild :: "user_cache \<Rightarrow> user_cache" where
  "begin_rebuild c = c\<lparr>cache_rebuild_requested := False, cache_memory_block := init_memory_block 1024\<rparr>"

definition sort_caches :: "user_cache \<Rightarrow> user_cache" where
  "sort_caches c = c\<lparr>uid_cache := qsort uid_cache_uid_sortcmp (uid_cache c),
                     gid_cache := qsort gid_cache_gid_sortcmp (gid_cache c)\<rparr>"

definition goto :: "nat \<Rightarrow> pc \<Rightarrow> shared \<Rightarrow> shared" where
  "goto t p \<sigma> = \<sigma>\<lparr>pcs := (pcs \<sigma>)(t := p)\<rparr>"

inductive cache_step :: "shared \<Rightarrow> shared \<Rightarrow> bool" where
  call: "pcs \<sigma> t = Idle \<Longrightarrow> cache_step \<sigma> (goto t (Check u g) (\<sigma>\<lparr>fresh := (fresh \<sigma>)(t := \<not> stale \<sigma>)\<rparr>))"
| check_set: "pcs \<sigma> t = Check u g \<Longrightarrow> flag \<sigma> \<Longrightarrow> cache_step \<sigma> (goto t (Want_write u g) \<sigma>)"
| check_clear: "pcs \<sigma> t = Check u g \<Longrightarrow> \<not> flag \<sigma> \<Longrightarrow> cache_step \<sigma> (goto t (Want_read u g) \<sigma>)"
| wrlock: "pcs \<sigma> t = Want_write u g \<Longrightarrow> writer \<sigma> = None \<Longrightarrow> readers \<sigma> = {} \<Longrightarrow>
    cache_step \<sigma> (goto t (Test u g) (\<sigma>\<lparr>writer := Some t\<rparr>))"
| test_set: "pcs \<sigma> t = Test u g \<Longrightarrow> flag \<sigma> \<Longrightarrow>
    cache_step \<sigma> (goto t (Rebuild_uid u g) (\<sigma>\<lparr>flag := False, cache := begin_rebuild (cache \<sigma>)\<rparr>))"
| test_clear: "pcs \<sigma> t = Test u g \<Longrightarrow> \<not> flag \<sigma> \<Longrightarrow> cache_step \<sigma> (goto t (Release_write u g) \<sigma>)"
| rebuild_uid: "pcs \<sigma> t = Rebuild_uid u g \<Longrightarrow> rebuild_uid_cache (db \<sigma>) (cache \<sigma>) = Some (r, c) \<Longrightarrow>
    cache_step \<sigma> (goto t (Rebuild_gid u g) (\<sigma>\<lparr>cache := c\<rparr>))"
| rebuild_gid: "pcs \<sigma> t = Rebuild_gid u g \<Longrightarrow> rebuild_gid_cache (db \<sigma>) (cache \<sigma>) = Some (r, c) \<Longrightarrow>
    cache_step \<sigma> (goto t (Sort u g) (\<sigma>\<lparr>cache := c\<rparr>))"
| sort: "pcs \<sigma> t = Sort u g \<Longrightarrow>
    cache_step \<sigma> (goto t (Release_write u g) (\<sigma>\<lparr>cache := sort_caches (cache \<sigma>)\<rparr>))"
| wrunlock: "pcs \<sigma> t = Release_write u g \<Longrightarrow> cache_step \<sigma> (goto t (Want_read u g) (\<sigma>\<lparr>writer := None\<rparr>))"
| rdlock: "pcs \<sigma> t = Want_read u g \<Longrightarrow> writer \<sigma> = None \<Longrightarrow>
    cache_step \<sigma> (goto t (Lookup u g) (\<sigma>\<lparr>readers := insert t (readers \<sigma>)\<rparr>))"
| lookup: "pcs \<sigma> t = Lookup u g \<Longrightarrow>
    cache_step \<sigma> (goto t (Release_read u g (lookup_membership (cache \<sigma>) u g)) \<sigma>)"
| rdunlock: "pcs \<sigma> t = Release_read u g b \<Longrightarrow>
    cache_step \<sigma> (goto t (Return u g b) (\<sigma>\<lparr>readers := readers \<sigma> - {t}\<rparr>))"
| return: "pcs \<sigma> t = Return u g b \<Longrightarrow> cache_step \<sigma> (goto t Idle \<sigma>)"
| signal: "cache_step \<sigma> (\<sigma>\<lparr>flag := True, stale := False\<rparr>)"
| db_change: "db_ok d \<Longrightarrow> cache_step \<sigma> (\<sigma>\<lparr>db := d, stale := True, fresh := (\<lambda>_. False)\<rparr>)"

definition initial_shared :: "user_db \<Rightarrow> shared" where
  "initial_shared d =
     \<lparr>db = d, flag = cache_rebuild_requested initial_cache, cache = initial_cache, writer = None, readers = {},
      pcs = (\<lambda>_. Idle), stale = False, fresh = (\<lambda>_. False)\<rparr>"

text \<open>The steps under the write lock, taken without interruption, are \<^verbatim>\<open>init_user_cache\<close>.\<close>

lemma init_user_cache_steps:
  "cache_rebuild_requested c \<Longrightarrow> init_user_cache d c =
     Option.bind (rebuild_uid_cache d (begin_rebuild c)) (\<lambda>(_, c1).
       Option.bind (rebuild_gid_cache d c1) (\<lambda>(_, c2). Some (sort_caches c2)))"
  by (auto simp: init_user_cache_def begin_rebuild_def sort_caches_def Let_def split: option.split)

section \<open>The invariant\<close>

fun holds_write :: "pc \<Rightarrow> bool" where
  "holds_write (Test u g) = True"
| "holds_write (Rebuild_uid u g) = True"
| "holds_write (Rebuild_gid u g) = True"
| "holds_write (Sort u g) = True"
| "holds_write (Release_write u g) = True"
| "holds_write _ = False"

fun holds_read :: "pc \<Rightarrow> bool" where
  "holds_read (Lookup u g) = True"
| "holds_read (Release_read u g b) = True"
| "holds_read _ = False"

definition lock_ok :: "shared \<Rightarrow> bool" where
  "lock_ok \<sigma> \<longleftrightarrow> (\<forall>t. writer \<sigma> = Some t \<longleftrightarrow> holds_write (pcs \<sigma> t)) \<and> (\<forall>t. t \<in> readers \<sigma> \<longleftrightarrow> holds_read (pcs \<sigma> t))
     \<and> (writer \<sigma> = None \<or> readers \<sigma> = {})"

text \<open>What the cache holds at each point of a rebuild, if the database stays as it is.\<close>

fun content_at :: "user_db \<Rightarrow> user_cache \<Rightarrow> pc \<Rightarrow> bool" where
  "content_at d c (Rebuild_uid u g) \<longleftrightarrow> (\<exists>c0. c = begin_rebuild c0)"
| "content_at d c (Rebuild_gid u g) \<longleftrightarrow> (\<exists>c0 r. rebuild_uid_cache d (begin_rebuild c0) = Some (r, c))"
| "content_at d c (Sort u g) \<longleftrightarrow>
     (\<exists>c0 r1 c1 r2. rebuild_uid_cache d (begin_rebuild c0) = Some (r1, c1) \<and> rebuild_gid_cache d c1 = Some (r2, c))"
| "content_at d c _ \<longleftrightarrow> represents d c"

definition content_ok :: "shared \<Rightarrow> bool" where
  "content_ok \<sigma> \<longleftrightarrow> content_at (db \<sigma>) (cache \<sigma>) (case writer \<sigma> of Some t \<Rightarrow> pcs \<sigma> t | None \<Rightarrow> Idle)"

text \<open>Past the decision whether to rebuild, or rebuilding.\<close>

fun decided :: "pc \<Rightarrow> bool" where
  "decided Idle = False"
| "decided (Check u g) = False"
| "decided (Want_write u g) = False"
| "decided (Test u g) = False"
| "decided _ = True"

fun answer_ok :: "user_db \<Rightarrow> pc \<Rightarrow> bool" where
  "answer_ok d (Release_read u g b) \<longleftrightarrow> (small_id u \<and> small_id g \<longrightarrow> b = is_member d u g)"
| "answer_ok d (Return u g b) \<longleftrightarrow> (small_id u \<and> small_id g \<longrightarrow> b = is_member d u g)"
| "answer_ok d _ \<longleftrightarrow> True"

definition cache_inv :: "shared \<Rightarrow> bool" where
  "cache_inv \<sigma> \<longleftrightarrow>
     lock_ok \<sigma> \<and> db_ok (db \<sigma>) \<and> (\<forall>t. fresh \<sigma> t \<longrightarrow> \<not> stale \<sigma>) \<and> (\<not> stale \<sigma> \<longrightarrow> flag \<sigma> \<or> content_ok \<sigma>)
     \<and> (\<forall>t. fresh \<sigma> t \<longrightarrow> decided (pcs \<sigma> t) \<longrightarrow> content_ok \<sigma>) \<and> (\<forall>t. fresh \<sigma> t \<longrightarrow> answer_ok (db \<sigma>) (pcs \<sigma> t))"

lemma goto_simps [simp]:
  "db (goto t p \<sigma>) = db \<sigma>" "flag (goto t p \<sigma>) = flag \<sigma>" "cache (goto t p \<sigma>) = cache \<sigma>" "writer (goto t p \<sigma>) = writer \<sigma>"
  "readers (goto t p \<sigma>) = readers \<sigma>" "pcs (goto t p \<sigma>) = (pcs \<sigma>)(t := p)" "stale (goto t p \<sigma>) = stale \<sigma>"
  "fresh (goto t p \<sigma>) = fresh \<sigma>"
  by (simp_all add: goto_def)

lemma cache_inv_initial: "db_ok d \<Longrightarrow> cache_inv (initial_shared d)"
  by (simp add: cache_inv_def lock_ok_def initial_shared_def initial_cache_def)

lemma lock_ok_writer: "lock_ok \<sigma> \<Longrightarrow> holds_write (pcs \<sigma> t) \<Longrightarrow> writer \<sigma> = Some t"
  by (simp add: lock_ok_def)

lemma lock_ok_reader: "lock_ok \<sigma> \<Longrightarrow> holds_read (pcs \<sigma> t) \<Longrightarrow> writer \<sigma> = None"
  unfolding lock_ok_def by blast

lemma lock_ok_step: "cache_step \<sigma> \<sigma>' \<Longrightarrow> lock_ok \<sigma> \<Longrightarrow> lock_ok \<sigma>'"
proof (induction rule: cache_step.induct)
  case (wrunlock \<sigma> t u g)
  then have "writer \<sigma> = Some t" by (simp add: lock_ok_def)
  then show ?case using wrunlock by (auto simp: lock_ok_def)
qed (auto simp: lock_ok_def split: if_splits)

lemma sorted_represents:
  assumes "db_ok d" "rebuild_uid_cache d (begin_rebuild c0) = Some (r1, c1)" "rebuild_gid_cache d c1 = Some (r2, c2)"
  shows "represents d (sort_caches c2)"
proof -
  let ?c = "c0\<lparr>cache_rebuild_requested := True\<rparr>"
  have "begin_rebuild ?c = begin_rebuild c0" by (simp add: begin_rebuild_def)
  then have "init_user_cache d ?c = Some (sort_caches c2)" using assms(2,3) init_user_cache_steps [of ?c d] by simp
  then show ?thesis using init_user_cache_represents [OF assms(1), of ?c] by simp
qed

lemma lock_ok_writer_iff: "lock_ok \<sigma> \<Longrightarrow> writer \<sigma> = Some t \<longleftrightarrow> holds_write (pcs \<sigma> t)"
  by (simp add: lock_ok_def)

lemma content_ok_goto: "writer \<sigma> \<noteq> Some t \<Longrightarrow> content_ok (goto t p \<sigma>) = content_ok \<sigma>"
  by (cases "writer \<sigma>") (auto simp: content_ok_def)

lemma content_ok_upd [simp]:
  "content_ok (\<sigma>\<lparr>fresh := f\<rparr>) = content_ok \<sigma>" "content_ok (\<sigma>\<lparr>readers := r\<rparr>) = content_ok \<sigma>"
  "content_ok (\<sigma>\<lparr>flag := b\<rparr>) = content_ok \<sigma>" "content_ok (\<sigma>\<lparr>stale := b\<rparr>) = content_ok \<sigma>"
  by (simp_all add: content_ok_def split: option.split)

text \<open>No step but a change of the database spoils what the cache holds.\<close>

lemma content_ok_step:
  "cache_step \<sigma> \<sigma>' \<Longrightarrow> lock_ok \<sigma> \<Longrightarrow> db_ok (db \<sigma>) \<Longrightarrow> content_ok \<sigma> \<Longrightarrow> content_ok \<sigma>' \<or> stale \<sigma>' \<and> fresh \<sigma>' = (\<lambda>_. False)"
proof (induction rule: cache_step.induct)
  case (sort \<sigma> t u g)
  then show ?case using lock_ok_writer [of \<sigma> t] sorted_represents by (auto simp: content_ok_def)
next
  case (rebuild_uid \<sigma> t u g r c)
  then show ?case using lock_ok_writer [of \<sigma> t] by (auto simp: content_ok_def)
next
  case (rebuild_gid \<sigma> t u g r c)
  then show ?case using lock_ok_writer [of \<sigma> t] by (auto simp: content_ok_def)
next
  case (test_set \<sigma> t u g)
  then show ?case using lock_ok_writer [of \<sigma> t] by (auto simp: content_ok_def)
next
  case (test_clear \<sigma> t u g)
  then show ?case using lock_ok_writer [of \<sigma> t] by (auto simp: content_ok_def)
next
  case (wrunlock \<sigma> t u g)
  then show ?case using lock_ok_writer [of \<sigma> t] by (auto simp: content_ok_def)
next
  case (wrlock \<sigma> t u g)
  then show ?case by (auto simp: content_ok_def)
qed (auto simp: content_ok_goto lock_ok_writer_iff)

lemma cache_inv_step:
  assumes step: "cache_step \<sigma> \<sigma>'" and inv: "cache_inv \<sigma>"
  shows "cache_inv \<sigma>'"
proof -
  have l: "lock_ok \<sigma>" "lock_ok \<sigma>'" "db_ok (db \<sigma>)" using inv step lock_ok_step by (auto simp: cache_inv_def)
  have c: "content_ok \<sigma> \<Longrightarrow> content_ok \<sigma>' \<or> stale \<sigma>' \<and> fresh \<sigma>' = (\<lambda>_. False)"
    using content_ok_step [OF step l(1,3)] by blast
  show ?thesis using step
  proof cases
    case (lookup t u g)
    have "writer \<sigma> = None" by (rule lock_ok_reader [OF l(1), of t]) (simp add: lookup)
    then have "content_ok \<sigma> \<Longrightarrow> small_id u \<Longrightarrow> small_id g \<Longrightarrow> lookup_membership (cache \<sigma>) u g = is_member (db \<sigma>) u g"
      using represents_lookup [OF l(3)] by (simp add: content_ok_def)
    then show ?thesis using inv l c lookup by (auto simp: cache_inv_def)
  next
    case (test_set t u g)
    then have "content_ok \<sigma>'" using lock_ok_writer [OF l(1), of t] by (auto simp: content_ok_def)
    then show ?thesis using inv l c test_set by (auto simp: cache_inv_def)
  qed (use inv l c in \<open>auto simp: cache_inv_def\<close>)
qed

section \<open>Reachable states\<close>

interpretation cl: invariant_system "\<lambda>\<sigma>. \<exists>d. db_ok d \<and> \<sigma> = initial_shared d" cache_step cache_inv
  by unfold_locales (auto intro: cache_inv_initial cache_inv_step)

text \<open>
  A thread alone: from a state in which nobody holds the lock, a call can run through, and its answer
  and the cache it leaves are those of the sequential model \<open>user_belongs_to_group\<close>.
\<close>

lemma rtranclp_snoc: "r\<^sup>*\<^sup>* a b \<Longrightarrow> r b c \<Longrightarrow> r\<^sup>*\<^sup>* a c"
  by (rule rtranclp.rtrancl_into_rtrancl)

lemma lone_read:
  assumes "pcs \<sigma> t = Want_read u g" "writer \<sigma> = None" "t \<notin> readers \<sigma>"
  shows "cache_step\<^sup>*\<^sup>* \<sigma> (goto t (Return u g (lookup_membership (cache \<sigma>) u g)) \<sigma>)"
proof -
  let ?b = "lookup_membership (cache \<sigma>) u g"
  let ?s1 = "goto t (Lookup u g) (\<sigma>\<lparr>readers := insert t (readers \<sigma>)\<rparr>)"
  let ?s2 = "goto t (Release_read u g ?b) ?s1"
  let ?s3 = "goto t (Return u g ?b) (?s2\<lparr>readers := readers ?s2 - {t}\<rparr>)"
  have "cache_step \<sigma> ?s1" by (rule cache_step.rdlock [OF assms(1,2)])
  moreover have "cache_step ?s1 ?s2" using cache_step.lookup [of ?s1 t u g] by simp
  moreover have "cache_step ?s2 ?s3" by (rule cache_step.rdunlock) simp
  ultimately have "cache_step\<^sup>*\<^sup>* \<sigma> ?s3" by (meson converse_rtranclp_into_rtranclp r_into_rtranclp)
  moreover have "?s3 = goto t (Return u g ?b) \<sigma>" using assms(3) by (simp add: goto_def)
  ultimately show ?thesis by simp
qed

lemma lone_rebuild:
  assumes "pcs \<sigma> t = Want_write u g" "writer \<sigma> = None" "readers \<sigma> = {}" "flag \<sigma>"
    and "init_user_cache (db \<sigma>) ((cache \<sigma>)\<lparr>cache_rebuild_requested := True\<rparr>) = Some c"
  shows "cache_step\<^sup>*\<^sup>* \<sigma> (goto t (Want_read u g) (\<sigma>\<lparr>flag := False, cache := c\<rparr>))"
proof -
  obtain r1 c1 r2 c2 where c: "rebuild_uid_cache (db \<sigma>) (begin_rebuild (cache \<sigma>)) = Some (r1, c1)"
      "rebuild_gid_cache (db \<sigma>) c1 = Some (r2, c2)" "c = sort_caches c2"
    using assms(5) init_user_cache_steps [of "(cache \<sigma>)\<lparr>cache_rebuild_requested := True\<rparr>" "db \<sigma>"]
    by (auto simp: begin_rebuild_def bind_eq_Some_conv)
  let ?s1 = "goto t (Test u g) (\<sigma>\<lparr>writer := Some t\<rparr>)"
  let ?s2 = "goto t (Rebuild_uid u g) (?s1\<lparr>flag := False, cache := begin_rebuild (cache \<sigma>)\<rparr>)"
  let ?s3 = "goto t (Rebuild_gid u g) (?s2\<lparr>cache := c1\<rparr>)"
  let ?s4 = "goto t (Sort u g) (?s3\<lparr>cache := c2\<rparr>)"
  let ?s5 = "goto t (Release_write u g) (?s4\<lparr>cache := sort_caches c2\<rparr>)"
  let ?s6 = "goto t (Want_read u g) (?s5\<lparr>writer := None\<rparr>)"
  have "cache_step \<sigma> ?s1" by (rule cache_step.wrlock [OF assms(1-3)])
  moreover have "cache_step ?s1 ?s2" using cache_step.test_set [of ?s1 t u g] assms(4) by simp
  moreover have "cache_step ?s2 ?s3" by (rule cache_step.rebuild_uid [of ?s2 t u g r1]) (simp_all add: c)
  moreover have "cache_step ?s3 ?s4" by (rule cache_step.rebuild_gid [of ?s3 t u g r2]) (simp_all add: c)
  moreover have "cache_step ?s4 ?s5" using cache_step.sort [of ?s4 t u g] by simp
  moreover have "cache_step ?s5 ?s6" by (rule cache_step.wrunlock) simp
  ultimately have "cache_step\<^sup>*\<^sup>* \<sigma> ?s6" by (meson converse_rtranclp_into_rtranclp r_into_rtranclp)
  moreover have "?s6 = goto t (Want_read u g) (\<sigma>\<lparr>flag := False, cache := c\<rparr>)"
    using assms(2) c(3) by (simp add: goto_def)
  ultimately show ?thesis by simp
qed

lemma lookup_membership_flag: "lookup_membership (c\<lparr>cache_rebuild_requested := b\<rparr>) u g = lookup_membership c u g"
  by (simp add: lookup_membership_def uid_cache_lookup_def gid_cache_lookup_def split: option.split)

lemma lone_call:
  assumes "pcs \<sigma> t = Check u g" "writer \<sigma> = None" "readers \<sigma> = {}"
    and "user_belongs_to_group (db \<sigma>) ((cache \<sigma>)\<lparr>cache_rebuild_requested := flag \<sigma>\<rparr>) u g = Some (b, c)"
  shows "\<exists>\<sigma>'. cache_step\<^sup>*\<^sup>* \<sigma> \<sigma>' \<and> pcs \<sigma>' = (pcs \<sigma>)(t := Return u g b) \<and> fresh \<sigma>' = fresh \<sigma> \<and> db \<sigma>' = db \<sigma>
    \<and> writer \<sigma>' = None \<and> readers \<sigma>' = {} \<and> \<not> flag \<sigma>'"
proof (cases "flag \<sigma>")
  case True
  then have c: "init_user_cache (db \<sigma>) ((cache \<sigma>)\<lparr>cache_rebuild_requested := True\<rparr>) = Some c" "b = lookup_membership c u g"
    using assms(4) by (auto simp: user_belongs_to_group_def)
  let ?s1 = "goto t (Want_write u g) \<sigma>"
  let ?s2 = "goto t (Want_read u g) (?s1\<lparr>flag := False, cache := c\<rparr>)"
  have "cache_step \<sigma> ?s1" by (rule cache_step.check_set [OF assms(1) True])
  moreover have "cache_step\<^sup>*\<^sup>* ?s1 ?s2" by (rule lone_rebuild) (use assms(2,3) True c in simp_all)
  moreover have "cache_step\<^sup>*\<^sup>* ?s2 (goto t (Return u g b) ?s2)"
    using lone_read [of ?s2 t u g] assms(2,3) c(2) by simp
  ultimately have "cache_step\<^sup>*\<^sup>* \<sigma> (goto t (Return u g b) ?s2)"
    by (meson converse_rtranclp_into_rtranclp rtranclp_trans)
  then show ?thesis using assms(2,3) by (intro exI [of _ "goto t (Return u g b) ?s2"]) simp
next
  case False
  then have b: "b = lookup_membership (cache \<sigma>) u g"
    using assms(4) by (simp add: user_belongs_to_group_def lookup_membership_flag)
  let ?s1 = "goto t (Want_read u g) \<sigma>"
  have "cache_step \<sigma> ?s1" by (rule cache_step.check_clear [OF assms(1) False])
  moreover have "cache_step\<^sup>*\<^sup>* ?s1 (goto t (Return u g b) ?s1)"
    using lone_read [of ?s1 t u g] assms(2,3) b by simp
  ultimately have "cache_step\<^sup>*\<^sup>* \<sigma> (goto t (Return u g b) ?s1)" by (rule converse_rtranclp_into_rtranclp)
  then show ?thesis using assms(2,3) False by (intro exI [of _ "goto t (Return u g b) ?s1"]) simp
qed

section \<open>Properties\<close>

text \<open>
  C37. The lock: in every interleaving, a thread that is between taking and releasing the write lock in
  \<^verbatim>\<open>init_user_cache\<close> is alone, so no thread looks up the cache, or rebuilds it, while it is being
  rebuilt; and the lock is held only by threads that are about to release it.
\<close>

theorem cache_lock_exclusive:
  assumes "db_ok d" and "cache_step\<^sup>*\<^sup>* (initial_shared d) \<sigma>"
  shows "\<not> (holds_write (pcs \<sigma> t) \<and> t' \<noteq> t \<and> (holds_write (pcs \<sigma> t') \<or> holds_read (pcs \<sigma> t')))
    \<and> (writer \<sigma> = None \<or> (\<exists>t. writer \<sigma> = Some t \<and> holds_write (pcs \<sigma> t))) \<and> readers \<sigma> = {t. holds_read (pcs \<sigma> t)}"
proof -
  have l: "lock_ok \<sigma>" using cl.reachable_inv [OF _ assms(2)] assms(1) by (auto simp: cache_inv_def)
  then have "readers \<sigma> = {t. holds_read (pcs \<sigma> t)}" by (auto simp: lock_ok_def)
  moreover have "\<not> (holds_write (pcs \<sigma> t) \<and> t' \<noteq> t \<and> (holds_write (pcs \<sigma> t') \<or> holds_read (pcs \<sigma> t')))"
    using lock_ok_writer [OF l, of t] lock_ok_writer [OF l, of t'] lock_ok_reader [OF l, of t'] by auto
  ultimately show ?thesis using lock_ok_writer_iff [OF l] by (cases "writer \<sigma>") auto
qed

text \<open>
  C4. Answers are up to date: if the database has not changed since the last request for a rebuild
  (at the start of the program or by the signal handler) when a call of \<^verbatim>\<open>user_belongs_to_group\<close> begins,
  nor during the call, the call returns whether the user is a member according to the database, whatever
  other threads and further signals do.  Databases are those the cache can represent (read without error, names and ids not given
  twice, ids below 2^31, less than 2^31 bytes of names), and the ids asked for are below 2^31.
\<close>

theorem cache_answers_fresh:
  assumes "db_ok d" and "cache_step\<^sup>*\<^sup>* (initial_shared d) \<sigma>" and "pcs \<sigma> t = Return u g b" and "fresh \<sigma> t"
    and "small_id u" and "small_id g"
  shows "b = is_member (db \<sigma>) u g"
proof -
  have "cache_inv \<sigma>" using cl.reachable_inv [OF _ assms(2)] assms(1) by blast
  then have "answer_ok (db \<sigma>) (pcs \<sigma> t)" using assms(4) by (simp add: cache_inv_def)
  then show ?thesis using assms by simp
qed

lemma example_run:
  "\<exists>\<sigma>. cache_step\<^sup>*\<^sup>* (initial_shared example_db) \<sigma> \<and> pcs \<sigma> 0 = Return 1000 27 True \<and> fresh \<sigma> 0 \<and> db \<sigma> = example_db"
proof -
  let ?s = "goto 0 (Check 1000 27) ((initial_shared example_db)\<lparr>fresh := (fresh (initial_shared example_db))(0 := True)\<rparr>)"
  have "cache_step (initial_shared example_db) ?s"
    using cache_step.call [of "initial_shared example_db" 0 1000 27] by (simp add: initial_shared_def)
  moreover obtain c where c: "init_user_cache example_db initial_cache = Some c" "represents example_db c"
    using init_user_cache_represents [OF example_db_ok, of initial_cache] by (auto simp: initial_cache_def)
  have "is_member example_db 1000 27" by code_simp
  then have "lookup_membership c 1000 27"
    using represents_lookup [OF example_db_ok c(2), of 1000 27] by (simp add: small_id_def)
  then have b: "user_belongs_to_group (db ?s) ((cache ?s)\<lparr>cache_rebuild_requested := flag ?s\<rparr>) 1000 27 = Some (True, c)"
    using c(1) by (simp add: user_belongs_to_group_def initial_shared_def initial_cache_def)
  have "\<exists>\<sigma>'. cache_step\<^sup>*\<^sup>* ?s \<sigma>' \<and> pcs \<sigma>' = (pcs ?s)(0 := Return 1000 27 True) \<and> fresh \<sigma>' = fresh ?s \<and> db \<sigma>' = db ?s
      \<and> writer \<sigma>' = None \<and> readers \<sigma>' = {} \<and> \<not> flag \<sigma>'"
    by (rule lone_call [OF _ _ _ b]) (simp_all add: initial_shared_def)
  ultimately show ?thesis by (auto simp: initial_shared_def intro: converse_rtranclp_into_rtranclp)
qed

theorem cache_lock_exclusive_witness:
  "\<exists>\<sigma>. cache_step\<^sup>*\<^sup>* (initial_shared example_db) \<sigma> \<and> pcs \<sigma> 0 = Return 1000 27 True \<and> readers \<sigma> = {t. holds_read (pcs \<sigma> t)}"
  using example_run cache_lock_exclusive [OF example_db_ok] by blast

theorem cache_answers_fresh_witness:
  "\<exists>\<sigma>. cache_step\<^sup>*\<^sup>* (initial_shared example_db) \<sigma> \<and> pcs \<sigma> 0 = Return 1000 27 True \<and> True = is_member (db \<sigma>) 1000 27"
proof -
  obtain \<sigma> where s: "cache_step\<^sup>*\<^sup>* (initial_shared example_db) \<sigma>" "pcs \<sigma> 0 = Return 1000 27 True" "fresh \<sigma> 0"
    using example_run by blast
  have "True = is_member (db \<sigma>) 1000 27"
    by (rule cache_answers_fresh [OF example_db_ok s]) (simp_all add: small_id_def)
  with s show ?thesis by blast
qed

end
