(* ===== verification/Cacheprogress.thy ===== *)
theory Cacheprogress
  imports Cachelock
begin

text \<open>
  Progress of the user cache (\<^verbatim>\<open>src/userinfo.c\<close>): in no reachable state of the threads is a call of
  \<^verbatim>\<open>user_belongs_to_group\<close> blocked for good.
\<close>

section \<open>A rebuild does not abort\<close>

lemma grow_memory_block_size:
  assumes "unat (mb_size a) + unat n \<le> 2 ^ 63"
  shows "\<exists>b. grow_memory_block a n = Some b \<and> unat (mb_size b) = unat (mb_size a) + unat n"
proof -
  have sz: "unat (mb_size a + n) = unat (mb_size a) + unat n"
    using assms by (subst unat_add_lem [symmetric]) simp
  then show ?thesis
    using grow_cap_total [of "mb_size a + n" "mb_capacity a"] assms
    by (auto simp: grow_memory_block_def Let_def split: option.split)
qed

lemma member_loop_returns:
  "unat (mb_size mb) + 4 * length ms \<le> 2 ^ 63 \<Longrightarrow>
   \<exists>ent' mb'. member_loop ucache ms ent mb = Some (ent', mb') \<and> unat (mb_size mb') \<le> unat (mb_size mb) + 4 * length ms"
proof (induction ms arbitrary: ent mb)
  case (Cons m ms)
  show ?case
  proof (cases "bsearch (uid_cache_name_searchcmp mb m) ucache")
    case None
    then show ?thesis using Cons.IH [of mb ent] Cons.prems by fastforce
  next
    case (Some e)
    obtain b where b: "grow_memory_block mb 4 = Some b" "unat (mb_size b) = unat (mb_size mb) + 4"
      using grow_memory_block_size [of mb 4] Cons.prems by auto
    let ?mb = "b\<lparr>mb_data := write_bytes (nat (sint (ge_uids_offset ent)) + 4 * ge_uid_count ent) (uid_bytes (ue_uid e)) (mb_data b)\<rparr>"
    have "unat (mb_size ?mb) + 4 * length ms \<le> 2 ^ 63" using b(2) Cons.prems by simp
    from Cons.IH [OF this, of "ent\<lparr>ge_uid_count := ge_uid_count ent + 1\<rparr>"] show ?thesis using Some b by auto
  qed
qed simp

lemma rebuild_gid_loop_returns:
  "unat (mb_size (cache_memory_block c)) + members_size grs \<le> 2 ^ 63 \<Longrightarrow> rebuild_gid_loop grs c \<noteq> None"
proof (induction grs arbitrary: c)
  case (Cons gr grs)
  let ?mb = "cache_memory_block c"
  let ?e = "\<lparr>ge_gid = gr_gid gr, ge_uid_count = 0, ge_uids_offset = ucast (mb_size ?mb)\<rparr>"
  have "unat (mb_size ?mb) + 4 * length (gr_mem gr) \<le> 2 ^ 63" using Cons.prems by (simp add: members_size_def)
  from member_loop_returns [OF this, of "uid_cache c" ?e] obtain e mb where
    m: "member_loop (uid_cache c) (gr_mem gr) ?e ?mb = Some (e, mb)" "unat (mb_size mb) \<le> unat (mb_size ?mb) + 4 * length (gr_mem gr)"
    by blast
  have "unat (mb_size mb) + members_size grs \<le> 2 ^ 63" using m(2) Cons.prems by (simp add: members_size_def)
  then show ?case using m(1) Cons.IH by (simp add: Let_def del: not_None_eq)
qed simp

lemma rebuild_gid_cache_returns:
  "db_ok d \<Longrightarrow> unat (mb_size (cache_memory_block c)) < 2 ^ 31 \<Longrightarrow> \<exists>r c'. rebuild_gid_cache d c = Some (r, c')"
  using rebuild_gid_loop_returns
    [of "c\<lparr>gid_cache := [], uid_cache := qsort (uid_cache_name_sortcmp (cache_memory_block c)) (uid_cache c)\<rparr>" "gr_entries d"]
  by (auto simp: rebuild_gid_cache_def db_ok_def split: option.split)

lemma rebuild_uid_cache_returns:
  assumes "db_ok d" and "c = begin_rebuild c0"
  shows "\<exists>r c'. rebuild_uid_cache d c = Some (r, c') \<and> unat (mb_size (cache_memory_block c')) < 2 ^ 31"
proof -
  let ?c = "c\<lparr>uid_cache := []\<rparr>"
  have mb: "mb_ok (cache_memory_block ?c)" "mb_contents (cache_memory_block ?c) = []"
    using assms(2) by (simp_all add: begin_rebuild_def mb_ok_def mb_contents_def init_memory_block_def realloc_bytes_def)
  have d: "\<not> enumeration_failed (pw_error d)" "names_size (pw_entries d) < 2 ^ 31"
    using assms(1) by (simp_all add: db_ok_def)
  obtain c' where c': "rebuild_uid_loop (pw_entries d) ?c = Some c'" "mb_ok (cache_memory_block c')"
      "length (mb_contents (cache_memory_block c')) = names_size (pw_entries d)"
    using rebuild_uid_loop_ok [of ?c "pw_entries d" "[]"] mb d(2) by (auto simp: extends_def)
  then show ?thesis using d length_mb_contents [OF c'(2)] by (auto simp: rebuild_uid_cache_def)
qed

section \<open>The invariant\<close>

definition progress_inv :: "shared \<Rightarrow> bool" where
  "progress_inv \<sigma> \<longleftrightarrow>
     lock_ok \<sigma> \<and> db_ok (db \<sigma>) \<and> finite (readers \<sigma>)
     \<and> (\<forall>t u g. pcs \<sigma> t = Rebuild_uid u g \<longrightarrow> (\<exists>c. cache \<sigma> = begin_rebuild c))
     \<and> (\<forall>t u g. pcs \<sigma> t = Rebuild_gid u g \<longrightarrow> unat (mb_size (cache_memory_block (cache \<sigma>))) < 2 ^ 31)"

lemma sole_writer: "lock_ok \<sigma> \<Longrightarrow> holds_write (pcs \<sigma> t) \<Longrightarrow> t' \<noteq> t \<Longrightarrow> \<not> holds_write (pcs \<sigma> t')"
  unfolding lock_ok_def by (metis option.inject)

lemma progress_inv_initial: "db_ok d \<Longrightarrow> progress_inv (initial_shared d)"
  using cache_inv_initial [of d] by (simp add: progress_inv_def cache_inv_def initial_shared_def)

lemma progress_inv_step:
  assumes step: "cache_step \<sigma> \<sigma>'" and inv: "progress_inv \<sigma>"
  shows "progress_inv \<sigma>'"
proof -
  have l: "lock_ok \<sigma>" "lock_ok \<sigma>'" "db_ok (db \<sigma>)" using inv step lock_ok_step by (auto simp: progress_inv_def)
  note sole = sole_writer [OF l(2)]
  show ?thesis using step
  proof cases
    case (test_set t u g)
    then show ?thesis using inv l sole [of t] by (force simp: progress_inv_def)
  next
    case (rebuild_uid t u g r c)
    then obtain c0 where "cache \<sigma> = begin_rebuild c0" using inv by (auto simp: progress_inv_def)
    from rebuild_uid_cache_returns [OF l(3) this] have "unat (mb_size (cache_memory_block c)) < 2 ^ 31"
      using rebuild_uid by auto
    then show ?thesis using rebuild_uid inv l sole [of t] by (force simp: progress_inv_def)
  next
    case (rebuild_gid t u g r c)
    then show ?thesis using inv l sole [of t] by (force simp: progress_inv_def)
  next
    case (sort t u g)
    then show ?thesis using inv l sole [of t] by (force simp: progress_inv_def)
  qed (use inv l in \<open>auto simp: progress_inv_def\<close>)
qed

interpretation cp: invariant_system "\<lambda>\<sigma>. \<exists>d. db_ok d \<and> \<sigma> = initial_shared d" cache_step progress_inv
  by unfold_locales (auto intro: progress_inv_initial progress_inv_step)

lemma progress_inv_steps: "cache_step\<^sup>*\<^sup>* \<sigma> \<sigma>' \<Longrightarrow> progress_inv \<sigma> \<Longrightarrow> progress_inv \<sigma>'"
  by (induction rule: rtranclp_induct) (auto intro: progress_inv_step)

section \<open>Runs that set threads free\<close>

text \<open>The steps a writer has left until it has released the lock.\<close>

fun to_release :: "pc \<Rightarrow> nat" where
  "to_release (Test u g) = 4"
| "to_release (Rebuild_uid u g) = 3"
| "to_release (Rebuild_gid u g) = 2"
| "to_release (Sort u g) = 1"
| "to_release _ = 0"

lemma writer_step:
  assumes inv: "progress_inv \<sigma>" and w: "holds_write (pcs \<sigma> w)"
  shows "\<exists>\<sigma>' p. cache_step \<sigma> \<sigma>' \<and> pcs \<sigma>' = (pcs \<sigma>)(w := p) \<and> readers \<sigma>' = readers \<sigma>
    \<and> (holds_write p \<and> to_release p < to_release (pcs \<sigma> w) \<or> (\<exists>u g. p = Want_read u g) \<and> writer \<sigma>' = None)"
proof -
  have moves: ?thesis
    if "cache_step \<sigma> (goto w p s)" "pcs s = pcs \<sigma>" "readers s = readers \<sigma>"
      "holds_write p \<and> to_release p < to_release (pcs \<sigma> w) \<or> (\<exists>u g. p = Want_read u g) \<and> writer s = None" for p s
    using that by (intro exI [of _ "goto w p s"] exI [of _ p]) simp
  show ?thesis
  proof (cases "pcs \<sigma> w")
    case (Test u g)
    show ?thesis
    proof (cases "flag \<sigma>")
      case True
      show ?thesis by (rule moves [OF cache_step.test_set [OF Test True]]) (simp_all add: Test)
    next
      case False
      show ?thesis by (rule moves [OF cache_step.test_clear [OF Test False]]) (simp_all add: Test)
    qed
  next
    case (Rebuild_uid u g)
    then obtain c0 where "cache \<sigma> = begin_rebuild c0" using inv by (auto simp: progress_inv_def)
    from rebuild_uid_cache_returns [OF _ this] obtain r c where "rebuild_uid_cache (db \<sigma>) (cache \<sigma>) = Some (r, c)"
      using inv unfolding progress_inv_def by blast
    from moves [OF cache_step.rebuild_uid [OF Rebuild_uid this]] show ?thesis by (simp add: Rebuild_uid)
  next
    case (Rebuild_gid u g)
    with rebuild_gid_cache_returns [of "db \<sigma>" "cache \<sigma>"] inv obtain r c where "rebuild_gid_cache (db \<sigma>) (cache \<sigma>) = Some (r, c)"
      by (auto simp: progress_inv_def)
    from moves [OF cache_step.rebuild_gid [OF Rebuild_gid this]] show ?thesis by (simp add: Rebuild_gid)
  next
    case (Sort u g)
    from moves [OF cache_step.sort [OF this]] show ?thesis by (simp add: Sort)
  next
    case (Release_write u g)
    from moves [OF cache_step.wrunlock [OF this]] show ?thesis by (simp add: Release_write)
  qed (use w in simp_all)
qed

lemma writer_releases:
  "progress_inv \<sigma> \<Longrightarrow> holds_write (pcs \<sigma> w) \<Longrightarrow>
   \<exists>\<sigma>' u g. cache_step\<^sup>*\<^sup>* \<sigma> \<sigma>' \<and> pcs \<sigma>' = (pcs \<sigma>)(w := Want_read u g) \<and> readers \<sigma>' = readers \<sigma> \<and> writer \<sigma>' = None"
proof (induction "to_release (pcs \<sigma> w)" arbitrary: \<sigma> rule: less_induct)
  case less
  from writer_step [OF less.prems] obtain \<sigma>1 p where s1: "cache_step \<sigma> \<sigma>1" "pcs \<sigma>1 = (pcs \<sigma>)(w := p)" "readers \<sigma>1 = readers \<sigma>"
    and "holds_write p \<and> to_release p < to_release (pcs \<sigma> w) \<or> (\<exists>u g. p = Want_read u g) \<and> writer \<sigma>1 = None"
    by blast
  then consider (still) "holds_write p" "to_release p < to_release (pcs \<sigma> w)"
    | (released) "(\<exists>u g. p = Want_read u g) \<and> writer \<sigma>1 = None" by argo
  then show ?case
  proof cases
    case still
    then have "to_release (pcs \<sigma>1 w) < to_release (pcs \<sigma> w)" "holds_write (pcs \<sigma>1 w)" using s1 by simp_all
    from less.hyps [OF this(1) progress_inv_step [OF s1(1) less.prems(1)] this(2)] obtain \<sigma>2 u g where
      "cache_step\<^sup>*\<^sup>* \<sigma>1 \<sigma>2" "pcs \<sigma>2 = (pcs \<sigma>1)(w := Want_read u g)" "readers \<sigma>2 = readers \<sigma>1" "writer \<sigma>2 = None" by blast
    with s1 show ?thesis by (metis converse_rtranclp_into_rtranclp fun_upd_upd)
  next
    case released
    with s1 show ?thesis by blast
  qed
qed

text \<open>Nobody holds the write lock any more, and the other threads are where they were.\<close>

lemma writer_gone:
  assumes "progress_inv \<sigma>"
  shows "\<exists>\<sigma>'. cache_step\<^sup>*\<^sup>* \<sigma> \<sigma>' \<and> writer \<sigma>' = None \<and> (\<forall>t. \<not> holds_write (pcs \<sigma> t) \<longrightarrow> pcs \<sigma>' t = pcs \<sigma> t)"
proof (cases "writer \<sigma>")
  case None
  then show ?thesis by blast
next
  case (Some w)
  then have w: "holds_write (pcs \<sigma> w)" using assms lock_ok_writer_iff [of \<sigma> w] by (simp add: progress_inv_def)
  from writer_releases [OF assms w] show ?thesis using w by (metis fun_upd_other)
qed

lemma reader_leaves:
  assumes "lock_ok \<sigma>" and "r \<in> readers \<sigma>"
  shows "\<exists>\<sigma>' p. cache_step\<^sup>*\<^sup>* \<sigma> \<sigma>' \<and> writer \<sigma>' = writer \<sigma> \<and> readers \<sigma>' = readers \<sigma> - {r} \<and> pcs \<sigma>' = (pcs \<sigma>)(r := p)"
proof -
  have release: "\<exists>\<sigma>' p. cache_step\<^sup>*\<^sup>* \<sigma> \<sigma>' \<and> writer \<sigma>' = writer \<sigma> \<and> readers \<sigma>' = readers \<sigma> - {r} \<and> pcs \<sigma>' = (pcs \<sigma>)(r := p)"
    if "pcs \<sigma> r = Release_read u g b" for \<sigma> u g b
    using cache_step.rdunlock [OF that]
    by (intro exI [of _ "goto r (Return u g b) (\<sigma>\<lparr>readers := readers \<sigma> - {r}\<rparr>)"] exI [of _ "Return u g b"])
       (simp add: r_into_rtranclp)
  have "holds_read (pcs \<sigma> r)" using assms by (simp add: lock_ok_def)
  then show ?thesis
  proof (cases "pcs \<sigma> r")
    case (Lookup u g)
    let ?s = "goto r (Release_read u g (lookup_membership (cache \<sigma>) u g)) \<sigma>"
    have "cache_step \<sigma> ?s" by (rule cache_step.lookup [OF Lookup])
    with release [of ?s u g] show ?thesis
      by (auto intro: converse_rtranclp_into_rtranclp)
  next
    case (Release_read u g b)
    then show ?thesis by (rule release)
  qed simp_all
qed

lemma readers_gone:
  "finite (readers \<sigma>) \<Longrightarrow> progress_inv \<sigma> \<Longrightarrow> writer \<sigma> = None \<Longrightarrow>
   \<exists>\<sigma>'. cache_step\<^sup>*\<^sup>* \<sigma> \<sigma>' \<and> writer \<sigma>' = None \<and> readers \<sigma>' = {} \<and> (\<forall>t. \<not> holds_read (pcs \<sigma> t) \<longrightarrow> pcs \<sigma>' t = pcs \<sigma> t)"
proof (induction "card (readers \<sigma>)" arbitrary: \<sigma>)
  case 0
  then show ?case by auto
next
  case (Suc n)
  then obtain r where r: "r \<in> readers \<sigma>" by (metis card.empty equals0I nat.distinct(1))
  have l: "lock_ok \<sigma>" using Suc.prems by (simp add: progress_inv_def)
  from reader_leaves [OF l r] obtain \<sigma>1 p where s1: "cache_step\<^sup>*\<^sup>* \<sigma> \<sigma>1" "writer \<sigma>1 = None" "readers \<sigma>1 = readers \<sigma> - {r}"
      "pcs \<sigma>1 = (pcs \<sigma>)(r := p)" using Suc.prems(3) by auto
  have "n = card (readers \<sigma>1)" using Suc.hyps(2) Suc.prems(1) r s1(3) by simp
  from Suc.hyps(1) [OF this _ progress_inv_steps [OF s1(1) Suc.prems(2)] s1(2)] Suc.prems(1) s1(3)
  obtain \<sigma>2 where s2: "cache_step\<^sup>*\<^sup>* \<sigma>1 \<sigma>2" "writer \<sigma>2 = None" "readers \<sigma>2 = {}" "\<forall>t. \<not> holds_read (pcs \<sigma>1 t) \<longrightarrow> pcs \<sigma>2 t = pcs \<sigma>1 t"
    by auto
  have "pcs \<sigma>2 t = pcs \<sigma> t" if "\<not> holds_read (pcs \<sigma> t)" for t
  proof -
    have "t \<noteq> r" using that r l by (auto simp: lock_ok_def)
    then show ?thesis using that s2(4) [rule_format, of t] s1(4) by simp
  qed
  with s1(1) s2 show ?case by (metis rtranclp_trans)
qed

section \<open>Every call can complete\<close>

definition can_return :: "shared \<Rightarrow> nat \<Rightarrow> bool" where
  "can_return \<sigma> t \<longleftrightarrow> (\<exists>\<sigma>' u g b. cache_step\<^sup>*\<^sup>* \<sigma> \<sigma>' \<and> pcs \<sigma>' t = Return u g b)"

lemma can_return_steps: "cache_step\<^sup>*\<^sup>* \<sigma> \<sigma>' \<Longrightarrow> can_return \<sigma>' t \<Longrightarrow> can_return \<sigma> t"
  unfolding can_return_def by (blast intro: rtranclp_trans)

lemma can_return_step: "cache_step \<sigma> \<sigma>' \<Longrightarrow> can_return \<sigma>' t \<Longrightarrow> can_return \<sigma> t"
  by (blast intro: can_return_steps)

lemma want_read_returns:
  assumes inv: "progress_inv \<sigma>" and t: "pcs \<sigma> t = Want_read u g"
  shows "can_return \<sigma> t"
proof -
  from writer_gone [OF inv] obtain \<sigma>1 where s1: "cache_step\<^sup>*\<^sup>* \<sigma> \<sigma>1" "writer \<sigma>1 = None" "pcs \<sigma>1 t = Want_read u g"
    using t by auto
  have "t \<notin> readers \<sigma>1" using progress_inv_steps [OF s1(1) inv] s1(3) by (simp add: progress_inv_def lock_ok_def)
  from lone_read [OF s1(3,2) this] have "can_return \<sigma>1 t" unfolding can_return_def by (force intro: exI conjI)
  then show ?thesis by (rule can_return_steps [OF s1(1)])
qed

lemma holds_write_returns:
  assumes inv: "progress_inv \<sigma>" and t: "holds_write (pcs \<sigma> t)"
  shows "can_return \<sigma> t"
proof -
  from writer_releases [OF assms] obtain \<sigma>1 u g where s1: "cache_step\<^sup>*\<^sup>* \<sigma> \<sigma>1" "pcs \<sigma>1 t = Want_read u g" by auto
  from want_read_returns [OF progress_inv_steps [OF s1(1) inv] s1(2)] show ?thesis by (rule can_return_steps [OF s1(1)])
qed

lemma want_write_returns:
  assumes inv: "progress_inv \<sigma>" and t: "pcs \<sigma> t = Want_write u g"
  shows "can_return \<sigma> t"
proof -
  from writer_gone [OF inv] obtain \<sigma>1 where s1: "cache_step\<^sup>*\<^sup>* \<sigma> \<sigma>1" "writer \<sigma>1 = None" "pcs \<sigma>1 t = Want_write u g"
    using t by auto
  have inv1: "progress_inv \<sigma>1" by (rule progress_inv_steps [OF s1(1) inv])
  then have "finite (readers \<sigma>1)" by (simp add: progress_inv_def)
  from readers_gone [OF this inv1 s1(2)] obtain \<sigma>2 where s2: "cache_step\<^sup>*\<^sup>* \<sigma>1 \<sigma>2" "writer \<sigma>2 = None" "readers \<sigma>2 = {}"
      "pcs \<sigma>2 t = Want_write u g" using s1(3) by auto
  let ?s3 = "goto t (Test u g) (\<sigma>2\<lparr>writer := Some t\<rparr>)"
  have step: "cache_step \<sigma>2 ?s3" by (rule cache_step.wrlock [OF s2(4,2,3)])
  have "progress_inv ?s3" by (rule progress_inv_step [OF step progress_inv_steps [OF s2(1) inv1]])
  then have "can_return ?s3 t" by (rule holds_write_returns) simp
  then show ?thesis using can_return_step [OF step] can_return_steps s1(1) s2(1) by blast
qed

lemma release_read_returns: "pcs \<sigma> t = Release_read u g b \<Longrightarrow> can_return \<sigma> t"
  unfolding can_return_def
  by (rule exI [of _ "goto t (Return u g b) (\<sigma>\<lparr>readers := readers \<sigma> - {t}\<rparr>)"])
     (simp add: r_into_rtranclp cache_step.rdunlock)

lemma pending_returns:
  assumes inv: "progress_inv \<sigma>" and t: "pcs \<sigma> t \<noteq> Idle"
  shows "can_return \<sigma> t"
proof (cases "pcs \<sigma> t")
  case (Check u g)
  show ?thesis
  proof (cases "flag \<sigma>")
    case True
    from cache_step.check_set [OF Check this] show ?thesis
      by (rule can_return_step) (rule want_write_returns [OF progress_inv_step [OF cache_step.check_set [OF Check True] inv]], simp)
  next
    case False
    from cache_step.check_clear [OF Check this] show ?thesis
      by (rule can_return_step) (rule want_read_returns [OF progress_inv_step [OF cache_step.check_clear [OF Check False] inv]], simp)
  qed
next
  case (Lookup u g)
  let ?s = "goto t (Release_read u g (lookup_membership (cache \<sigma>) u g)) \<sigma>"
  have "can_return ?s t" by (rule release_read_returns) simp
  then show ?thesis by (rule can_return_step [OF cache_step.lookup [OF Lookup]])
next
  case (Release_read u g b)
  then show ?thesis by (rule release_read_returns)
next
  case (Return u g b)
  then show ?thesis unfolding can_return_def by blast
qed (use t inv in \<open>auto intro: want_read_returns want_write_returns holds_write_returns\<close>)

section \<open>Properties\<close>

text \<open>
  C5. No deadlock: in every state that threads, signals and changes of the database can lead to, each
  pending call of \<^verbatim>\<open>user_belongs_to_group\<close> can still run to its return, so that no thread waits for a lock
  that is never released and no rebuild aborts.  (Every database the cache meets fits in it.)
\<close>

theorem cache_calls_complete:
  assumes "db_ok d" and "cache_step\<^sup>*\<^sup>* (initial_shared d) \<sigma>" and "pcs \<sigma> t \<noteq> Idle"
  shows "\<exists>\<sigma>' u g b. cache_step\<^sup>*\<^sup>* \<sigma> \<sigma>' \<and> pcs \<sigma>' t = Return u g b"
proof -
  have "progress_inv \<sigma>" using cp.reachable_inv [OF _ assms(2)] assms(1) by blast
  from pending_returns [OF this assms(3)] show ?thesis by (simp add: can_return_def)
qed

theorem cache_calls_complete_witness:
  "\<exists>\<sigma> \<sigma>' u g b. cache_step\<^sup>*\<^sup>* (initial_shared example_db) \<sigma> \<and> pcs \<sigma> 0 = Check 1000 27 \<and> pcs \<sigma> 1 = Check 7 27
     \<and> cache_step\<^sup>*\<^sup>* \<sigma> \<sigma>' \<and> pcs \<sigma>' 1 = Return u g b"
proof -
  let ?s1 = "goto 0 (Check 1000 27) ((initial_shared example_db)\<lparr>fresh := (fresh (initial_shared example_db))(0 := True)\<rparr>)"
  let ?s2 = "goto 1 (Check 7 27) (?s1\<lparr>fresh := (fresh ?s1)(1 := True)\<rparr>)"
  have "cache_step (initial_shared example_db) ?s1"
    using cache_step.call [of "initial_shared example_db" 0 1000 27] by (simp add: initial_shared_def)
  moreover have "cache_step ?s1 ?s2"
    using cache_step.call [of ?s1 1 7 27] by (simp add: initial_shared_def)
  ultimately have s2: "cache_step\<^sup>*\<^sup>* (initial_shared example_db) ?s2" by (meson converse_rtranclp_into_rtranclp r_into_rtranclp)
  have p: "pcs ?s2 0 = Check 1000 27" "pcs ?s2 1 = Check 7 27" by simp_all
  then have "pcs ?s2 1 \<noteq> Idle" by simp
  from cache_calls_complete [OF example_db_ok s2 this] s2 p show ?thesis by blast
qed

end
