(* ===== verification/Syscalls.thy ===== *)
theory Syscalls
  imports Complex_Main Prelude
begin

text \<open>
  The boundary between bindfs and the kernel.  A file-system handler is a \<open>prog\<close>: a tree whose nodes
  are the system calls the handler makes, with their arguments, and whose branches are the possible
  answers.  Nothing is assumed about the answers.  \<open>safe P Q\<close> is the program logic used by the
  handlers' properties: whatever the kernel answers, every call satisfies \<open>P\<close>, no assertion fails
  and the result satisfies \<open>Q\<close>.  \<open>run\<close> executes a program against a kernel given as functions and
  returns the calls made; \<open>safe\<close> is sound for it.
\<close>

section \<open>Calls\<close>

type_synonym fd = int
type_synonym off_t = int
type_synonym dev_t = "64 word"
type_synonym flags = "32 word"
type_synonym timespec = "int \<times> int"

record stat =
  st_dev :: dev_t
  st_ino :: "64 word"
  st_mode :: mode_t
  st_nlink :: nat
  st_uid :: uid_t
  st_gid :: gid_t
  st_rdev :: dev_t
  st_size :: off_t
  st_atim :: timespec
  st_mtim :: timespec
  st_ctim :: timespec

datatype d_type = DT_LNK | DT_OTHER

record dirent =
  d_name :: string
  dirent_type :: d_type

text \<open>
  A directory stream: the entries \<^verbatim>\<open>readdir\<close> will return on it and the error, if any, with which it
  ends.
\<close>

record dir_stream =
  dir_entries :: "dirent list"
  dir_error :: "errno option"

datatype access_mode = R_OK | W_OK | X_OK

text \<open>Operations on one path, on two paths, on a descriptor, and the rest.\<close>

datatype path_op =
    Realpath
  | Lstat
  | Readlink size_t
  | Opendir
  | Pathconf_name_max
  | Open flags "mode_t option"
  | Access access_mode
  | Mkfifo mode_t
  | Mknod mode_t dev_t
  | Mkdir mode_t
  | Unlink
  | Rmdir
  | Symlink string                 \<comment> \<open>the text of the new link\<close>
  | Chmod mode_t
  | Chown uid_t gid_t
  | Lchown uid_t gid_t
  | Truncate off_t
  | Utimensat fd timespec timespec
  | Statvfs
  | Lsetxattr string "byte list" int
  | Lgetxattr string size_t
  | Llistxattr size_t
  | Lremovexattr string

datatype pair_op = Rename | Renameat2 flags | Link

datatype fd_op =
    Close
  | Blkgetsize64
  | Pread size_t off_t
  | Pwrite "byte list" off_t
  | Fcntl int
  | Flock int
  | Ioctl int
  | Fsync
  | Fdatasync
  | Fchdir

datatype other_op =
    Closedir
  | Filler string "stat option"        \<comment> \<open>the callback of libfuse that collects directory entries\<close>
  | Mmap size_t
  | Munmap size_t
  | Fuse_exit
  | Gettimeofday
  | Nanosleep timespec
  | User_belongs_to_group uid_t gid_t  \<comment> \<open>answered by the user cache (\<open>userinfo.c\<close>)\<close>

datatype syscall =
    On_path path_op string
  | On_paths pair_op string string
  | On_fd fd_op fd
  | Other other_op

text \<open>The paths a call hands to the kernel for resolution, and the descriptors it uses.\<close>

fun paths_of :: "syscall \<Rightarrow> string list" where
  "paths_of (On_path c p) = [p]"
| "paths_of (On_paths c p q) = [p, q]"
| "paths_of (On_fd c d) = []"
| "paths_of (Other c) = []"

fun fds_of :: "syscall \<Rightarrow> fd list" where
  "fds_of (On_fd c d) = [d]"
| "fds_of (On_path c p) = (case c of Utimensat d a m \<Rightarrow> [d] | _ \<Rightarrow> [])"
| "fds_of (On_paths c p q) = []"
| "fds_of (Other c) = []"

section \<open>Programs\<close>

text \<open>
  One constructor per type of answer.  For a call that returns 0 or -1 the answer is the error
  number, if any; a pair of numbers answers \<^verbatim>\<open>gettimeofday\<close> and an \<^verbatim>\<open>ioctl\<close> with its output.  \<open>Abort\<close> is a failed assertion.
\<close>

datatype 'a prog =
    Ret 'a
  | Abort
  | UnitCall syscall "errno option \<Rightarrow> 'a prog"
  | IntCall syscall "errno + int \<Rightarrow> 'a prog"
  | StatCall syscall "errno + stat \<Rightarrow> 'a prog"
  | PathCall syscall "errno + string \<Rightarrow> 'a prog"
  | DataCall syscall "errno + byte list \<Rightarrow> 'a prog"
  | DirCall syscall "errno + dir_stream \<Rightarrow> 'a prog"
  | BoolCall syscall "bool \<Rightarrow> 'a prog"
  | PairCall syscall "int \<times> int \<Rightarrow> 'a prog"

primrec pbind :: "'a prog \<Rightarrow> ('a \<Rightarrow> 'b prog) \<Rightarrow> 'b prog" where
  "pbind (Ret x) f = f x"
| "pbind Abort f = Abort"
| "pbind (UnitCall c k) f = UnitCall c (\<lambda>r. pbind (k r) f)"
| "pbind (IntCall c k) f = IntCall c (\<lambda>r. pbind (k r) f)"
| "pbind (StatCall c k) f = StatCall c (\<lambda>r. pbind (k r) f)"
| "pbind (PathCall c k) f = PathCall c (\<lambda>r. pbind (k r) f)"
| "pbind (DataCall c k) f = DataCall c (\<lambda>r. pbind (k r) f)"
| "pbind (DirCall c k) f = DirCall c (\<lambda>r. pbind (k r) f)"
| "pbind (BoolCall c k) f = BoolCall c (\<lambda>r. pbind (k r) f)"
| "pbind (PairCall c k) f = PairCall c (\<lambda>r. pbind (k r) f)"

text \<open>The frequent patterns: \<^verbatim>\<open>if (res == -1) return -errno\<close>, and a failed assertion as \<open>None\<close>.\<close>

definition or_fail :: "syscall \<Rightarrow> (errno + 'a) prog \<Rightarrow> (errno + 'a) prog" where
  "or_fail c p = UnitCall c (\<lambda>r. case r of Some e \<Rightarrow> Ret (Inl e) | None \<Rightarrow> p)"

definition bind_ok :: "(errno + 'a) prog \<Rightarrow> ('a \<Rightarrow> (errno + 'b) prog) \<Rightarrow> (errno + 'b) prog" where
  "bind_ok p f = pbind p (\<lambda>r. case r of Inl e \<Rightarrow> Ret (Inl e) | Inr x \<Rightarrow> f x)"

definition asserted :: "'a option \<Rightarrow> ('a \<Rightarrow> 'b prog) \<Rightarrow> 'b prog" where
  "asserted v f = (case v of None \<Rightarrow> Abort | Some x \<Rightarrow> f x)"

section \<open>The program logic\<close>

primrec safe :: "(syscall \<Rightarrow> bool) \<Rightarrow> ('a \<Rightarrow> bool) \<Rightarrow> 'a prog \<Rightarrow> bool" where
  "safe P Q (Ret x) \<longleftrightarrow> Q x"
| "safe P Q Abort \<longleftrightarrow> False"
| "safe P Q (UnitCall c k) \<longleftrightarrow> P c \<and> (\<forall>r. safe P Q (k r))"
| "safe P Q (IntCall c k) \<longleftrightarrow> P c \<and> (\<forall>r. safe P Q (k r))"
| "safe P Q (StatCall c k) \<longleftrightarrow> P c \<and> (\<forall>r. safe P Q (k r))"
| "safe P Q (PathCall c k) \<longleftrightarrow> P c \<and> (\<forall>r. safe P Q (k r))"
| "safe P Q (DataCall c k) \<longleftrightarrow> P c \<and> (\<forall>r. safe P Q (k r))"
| "safe P Q (DirCall c k) \<longleftrightarrow> P c \<and> (\<forall>r. safe P Q (k r))"
| "safe P Q (BoolCall c k) \<longleftrightarrow> P c \<and> (\<forall>r. safe P Q (k r))"
| "safe P Q (PairCall c k) \<longleftrightarrow> P c \<and> (\<forall>r. safe P Q (k r))"

lemma safe_pbind: "safe P Q (pbind p f) \<longleftrightarrow> safe P (\<lambda>x. safe P Q (f x)) p"
  by (induction p) auto

lemma safe_mono: "safe P Q p \<Longrightarrow> (\<And>c. P c \<Longrightarrow> P' c) \<Longrightarrow> (\<And>x. Q x \<Longrightarrow> Q' x) \<Longrightarrow> safe P' Q' p"
  by (induction p) auto

lemma safe_or_fail [simp]: "safe P Q (or_fail c p) \<longleftrightarrow> P c \<and> (\<forall>e. Q (Inl e)) \<and> safe P Q p"
  by (auto simp: or_fail_def split_option_all)

lemma all_sum: "(\<forall>x. P x) \<longleftrightarrow> (\<forall>a. P (Inl a)) \<and> (\<forall>b. P (Inr b))"
  by (metis sum.exhaust)

lemma safe_bind_ok:
  "safe P Q (bind_ok p f) \<longleftrightarrow> safe P (\<lambda>r. case r of Inl e \<Rightarrow> Q (Inl e) | Inr x \<Rightarrow> safe P Q (f x)) p"
proof -
  have "(\<lambda>x. safe P Q (case x of Inl e \<Rightarrow> Ret (Inl e) | Inr x \<Rightarrow> f x))
      = (\<lambda>r. case r of Inl e \<Rightarrow> Q (Inl e) | Inr x \<Rightarrow> safe P Q (f x))"
    by (auto split: sum.split)
  then show ?thesis by (simp add: bind_ok_def safe_pbind)
qed

lemma safe_bind_okI:
  assumes "safe P R p" and "\<And>e. R (Inl e) \<Longrightarrow> Q (Inl e)" and "\<And>x. R (Inr x) \<Longrightarrow> safe P Q (f x)"
  shows "safe P Q (bind_ok p f)"
  unfolding safe_bind_ok using assms(1) by (rule safe_mono) (auto split: sum.split intro: assms(2,3))

lemma safe_asserted: "safe P Q (asserted v f) \<longleftrightarrow> (\<exists>x. v = Some x \<and> safe P Q (f x))"
  by (cases v) (auto simp: asserted_def)

lemma safe_conj: "safe P Q p \<Longrightarrow> safe P' Q' p \<Longrightarrow> safe (\<lambda>c. P c \<and> P' c) (\<lambda>x. Q x \<and> Q' x) p"
  by (induction p) auto

section \<open>Running a program\<close>

text \<open>A kernel: the answer to each call and the next state.\<close>

record 's kernel =
  k_unit :: "syscall \<Rightarrow> 's \<Rightarrow> errno option \<times> 's"
  k_int :: "syscall \<Rightarrow> 's \<Rightarrow> (errno + int) \<times> 's"
  k_stat :: "syscall \<Rightarrow> 's \<Rightarrow> (errno + stat) \<times> 's"
  k_path :: "syscall \<Rightarrow> 's \<Rightarrow> (errno + string) \<times> 's"
  k_data :: "syscall \<Rightarrow> 's \<Rightarrow> (errno + byte list) \<times> 's"
  k_dir :: "syscall \<Rightarrow> 's \<Rightarrow> (errno + dir_stream) \<times> 's"
  k_bool :: "syscall \<Rightarrow> 's \<Rightarrow> bool \<times> 's"
  k_pair :: "syscall \<Rightarrow> 's \<Rightarrow> (int \<times> int) \<times> 's"

text \<open>The result (\<open>None\<close> for a failed assertion), the calls in order, and the final state.\<close>

type_synonym ('a, 's) outcome = "'a option \<times> syscall list \<times> 's"

definition logged :: "syscall \<Rightarrow> ('a, 's) outcome \<Rightarrow> ('a, 's) outcome" where
  "logged c out = (fst out, c # fst (snd out), snd (snd out))"

primrec run :: "'s kernel \<Rightarrow> 'a prog \<Rightarrow> 's \<Rightarrow> ('a, 's) outcome" where
  "run K (Ret x) s = (Some x, [], s)"
| "run K Abort s = (None, [], s)"
| "run K (UnitCall c k) s = (let (r, s') = k_unit K c s in logged c (run K (k r) s'))"
| "run K (IntCall c k) s = (let (r, s') = k_int K c s in logged c (run K (k r) s'))"
| "run K (StatCall c k) s = (let (r, s') = k_stat K c s in logged c (run K (k r) s'))"
| "run K (PathCall c k) s = (let (r, s') = k_path K c s in logged c (run K (k r) s'))"
| "run K (DataCall c k) s = (let (r, s') = k_data K c s in logged c (run K (k r) s'))"
| "run K (DirCall c k) s = (let (r, s') = k_dir K c s in logged c (run K (k r) s'))"
| "run K (BoolCall c k) s = (let (r, s') = k_bool K c s in logged c (run K (k r) s'))"
| "run K (PairCall c k) s = (let (r, s') = k_pair K c s in logged c (run K (k r) s'))"

lemma logged_simps [simp]:
  "fst (logged c out) = fst out" "fst (snd (logged c out)) = c # fst (snd out)"
  by (simp_all add: logged_def)

text \<open>Soundness: what \<open>safe\<close> says holds in every run, on every kernel.\<close>

lemma run_safe:
  "safe P Q p \<Longrightarrow> (\<exists>x. fst (run K p s) = Some x \<and> Q x) \<and> (\<forall>c \<in> set (fst (snd (run K p s))). P c)"
  by (induction p arbitrary: s) (auto split: prod.split)

lemma run_pbind:
  "run K (pbind p f) s =
     (case run K p s of
        (None, tr, s') \<Rightarrow> (None, tr, s')
      | (Some x, tr, s') \<Rightarrow> (case run K (f x) s' of (r, tr', s'') \<Rightarrow> (r, tr @ tr', s'')))"
proof (induction p arbitrary: s)
qed (auto simp: logged_def split: prod.split option.split)

end
