(* ===== verification/Settings.thy ===== *)
theory Settings
  imports Permchain Usermap Misc Ratelimiter Syscalls
begin

text \<open>
  The settings of a mount and the helpers all handlers of \<^verbatim>\<open>src/bindfs.c\<close> share: path processing,
  the owner offsets, what \<^verbatim>\<open>getattr\<close> reports, the owner of a new file, and deletion.  The
  configuration modelled is Linux with FUSE 3.
\<close>

section \<open>Settings\<close>

datatype CreatePolicy = CREATE_AS_USER | CREATE_AS_MOUNTER
datatype ChownPolicy = CHOWN_NORMAL | CHOWN_IGNORE | CHOWN_DENY
datatype ChgrpPolicy = CHGRP_NORMAL | CHGRP_IGNORE | CHGRP_DENY
datatype ChmodPolicy = CHMOD_NORMAL | CHMOD_IGNORE | CHMOD_DENY
datatype XAttrPolicy = XATTR_UNIMPLEMENTED | XATTR_READ_ONLY | XATTR_READ_WRITE
datatype ResolvedSymlinkDeletion =
    RESOLVED_SYMLINK_DELETION_DENY
  | RESOLVED_SYMLINK_DELETION_SYMLINK_ONLY
  | RESOLVED_SYMLINK_DELETION_SYMLINK_FIRST
  | RESOLVED_SYMLINK_DELETION_TARGET_FIRST

record Settings =
  progname :: string
  permchain_of :: chain
  new_uid :: uid_t
  new_gid :: gid_t
  create_for_uid :: uid_t
  create_for_gid :: gid_t
  mntsrc :: "string option"
  mntdest :: "string option"
  mntdest_len :: nat
  mntsrc_fd :: fd
  usermap :: UserMap
  usermap_reverse :: UserMap
  read_limiter :: "RateLimiter option"
  write_limiter :: "RateLimiter option"
  create_policy :: CreatePolicy
  create_permchain :: chain
  chown_policy :: ChownPolicy
  chgrp_policy :: ChgrpPolicy
  chmod_policy :: ChmodPolicy
  chmod_allow_x :: bool
  chmod_permchain :: chain
  xattr_policy :: XAttrPolicy
  delete_deny :: bool
  rename_deny :: bool
  mirrored_users_only :: bool
  mirrored_users :: "uid_t list"
  num_mirrored_users :: int
  mirrored_members :: "gid_t list"
  num_mirrored_members :: int
  hide_hard_links :: bool
  resolve_symlinks :: bool
  block_devices_as_files :: bool
  resolved_symlink_deletion_policy :: ResolvedSymlinkDeletion
  realistic_permissions :: bool
  ctime_from_mtime :: bool
  enable_lock_forwarding :: bool
  enable_ioctl :: bool
  forward_odirect :: bool
  odirect_alignment :: size_t
  direct_io :: bool
  uid_offset :: "64 word"
  gid_offset :: "64 word"
  original_working_dir :: string
  original_umask :: mode_t

record fuse_context =
  fc_uid :: uid_t
  fc_gid :: gid_t

record fuse_file_info =
  fi_flags :: flags
  fi_fh :: fd

section \<open>Mirrored users\<close>

definition is_mirroring_enabled :: "Settings \<Rightarrow> bool" where
  "is_mirroring_enabled s \<longleftrightarrow> num_mirrored_users s + num_mirrored_members s > 0"

text \<open>The second loop of \<^verbatim>\<open>is_mirrored_user\<close>: groups are asked for in order until one matches.\<close>

fun mirrored_member_loop :: "uid_t \<Rightarrow> gid_t list \<Rightarrow> bool prog" where
  "mirrored_member_loop u [] = Ret False"
| "mirrored_member_loop u (g # gs) =
     BoolCall (Other (User_belongs_to_group u g)) (\<lambda>b. if b then Ret True else mirrored_member_loop u gs)"

definition is_mirrored_user :: "Settings \<Rightarrow> uid_t \<Rightarrow> bool prog" where
  "is_mirrored_user s u =
     (if u \<in> set (take (nat (num_mirrored_users s)) (mirrored_users s)) then Ret True
      else mirrored_member_loop u (take (nat (num_mirrored_members s)) (mirrored_members s)))"

section \<open>Paths\<close>

text \<open>
  \<^verbatim>\<open>process_path\<close>: \<open>None\<close> is the null pointer.  \<open>Inl e\<close> stands for a null result with \<^verbatim>\<open>errno\<close> \<open>e\<close>.
\<close>

definition relative_part :: "string \<Rightarrow> string" where
  "relative_part path =
     (let p = dropWhile (\<lambda>c. c = slash) path in if p = [] then ''.'' else p)"

text \<open>The mount point; it is set before any handler runs.\<close>

definition dest_of :: "Settings \<Rightarrow> string" where
  "dest_of s = (case mntdest s of Some d \<Rightarrow> d | None \<Rightarrow> [])"

definition process_path :: "Settings \<Rightarrow> string option \<Rightarrow> bool \<Rightarrow> (errno + string) prog" where
  "process_path s path resolve =
     (case path of
        None \<Rightarrow> Ret (Inl EINVAL)
      | Some p0 \<Rightarrow>
          let p = relative_part p0
          in if resolve \<and> resolve_symlinks s then
               PathCall (On_path Realpath p) (\<lambda>r.
                 case r of
                   Inl e \<Rightarrow> if e = ENOENT then Ret (Inr p) else Ret (Inl e)
                 | Inr result \<Rightarrow>
                     if path_starts_with result (dest_of s) (mntdest_len s)
                     then Ret (Inl EPERM)
                     else Ret (Inr result))
             else Ret (Inr p))"

section \<open>Owner offsets\<close>

abbreviation UID_T_MAX :: "64 word" where "UID_T_MAX \<equiv> 0x7FFFFFFF"
abbreviation UID_GID_OVERFLOW_ERRNO :: errno where "UID_GID_OVERFLOW_ERRNO \<equiv> EIO"

text \<open>\<open>__builtin_add_overflow\<close> on \<open>int64_t\<close>: whether the sum leaves the type.\<close>

definition add_overflow :: "64 word \<Rightarrow> 64 word \<Rightarrow> bool" where
  "add_overflow a b \<longleftrightarrow> sint a + sint b < - (2 ^ 63) \<or> sint a + sint b \<ge> 2 ^ 63"

definition bounded_add :: "64 word \<Rightarrow> 64 word \<Rightarrow> 64 word \<Rightarrow> 64 word option" where
  "bounded_add a b mx =
     (let result = a + b
      in if \<not> add_overflow a b \<and> 0 \<le> sint result \<and> sint result \<le> sint mx then Some result else None)"

definition apply_uid_offset :: "Settings \<Rightarrow> uid_t \<Rightarrow> uid_t option" where
  "apply_uid_offset s u = map_option ucast (bounded_add (ucast u) (uid_offset s) UID_T_MAX)"

definition apply_gid_offset :: "Settings \<Rightarrow> gid_t \<Rightarrow> gid_t option" where
  "apply_gid_offset s g = map_option ucast (bounded_add (ucast g) (gid_offset s) UID_T_MAX)"

definition unapply_uid_offset :: "Settings \<Rightarrow> uid_t \<Rightarrow> uid_t option" where
  "unapply_uid_offset s u = map_option ucast (bounded_add (ucast u) (- uid_offset s) UID_T_MAX)"

definition unapply_gid_offset :: "Settings \<Rightarrow> gid_t \<Rightarrow> gid_t option" where
  "unapply_gid_offset s g = map_option ucast (bounded_add (ucast g) (- gid_offset s) UID_T_MAX)"

section \<open>What getattr reports\<close>

text \<open>The three \<open>access\<close> probes of \<^verbatim>\<open>--realistic-permissions\<close>.\<close>

definition probe_access :: "string \<Rightarrow> access_mode \<Rightarrow> mode_t \<Rightarrow> stat \<Rightarrow> (stat \<Rightarrow> 'a prog) \<Rightarrow> 'a prog" where
  "probe_access path a bits st k =
     UnitCall (On_path (Access a) path) (\<lambda>r.
       k (if r = None then st else st\<lparr>st_mode := st_mode st AND NOT bits\<rparr>))"

definition getattr_perms :: "Settings \<Rightarrow> string \<Rightarrow> stat \<Rightarrow> (errno + stat) prog" where
  "getattr_perms s procpath st =
     (if st_mode st AND S_IFLNK \<noteq> S_IFLNK then
        asserted (permchain_apply (permchain_of s) (st_mode st)) (\<lambda>m.
          let st = st\<lparr>st_mode := m\<rparr>
          in if realistic_permissions s then
               probe_access procpath R_OK o444 st (\<lambda>st.
               probe_access procpath W_OK o222 st (\<lambda>st.
               probe_access procpath X_OK o111 st (\<lambda>st. Ret (Inr st))))
             else Ret (Inr st))
      else Ret (Inr st))"

text \<open>
  A block device shown as a file: the size comes from \<^verbatim>\<open>BLKGETSIZE64\<close>.  The answer holds what the \<^verbatim>\<open>ioctl\<close> returns
  and what the variable \<^verbatim>\<open>size\<close> holds afterwards.  The code does not look at the former; when the \<^verbatim>\<open>ioctl\<close> fails, the
  latter is whatever the uninitialised variable held.
\<close>

definition getattr_block :: "Settings \<Rightarrow> string \<Rightarrow> stat \<Rightarrow> (stat \<Rightarrow> (errno + stat) prog) \<Rightarrow> (errno + stat) prog" where
  "getattr_block s procpath st k =
     (if block_devices_as_files s \<and> S_ISBLK (st_mode st) then
        let st = st\<lparr>st_mode := st_mode st XOR (S_IFBLK OR S_IFREG)\<rparr>
        in IntCall (On_path (Open 0 None) procpath) (\<lambda>r.
             case r of
               Inl e \<Rightarrow> Ret (Inl e)
             | Inr d \<Rightarrow>
                 PairCall (On_fd Blkgetsize64 d) (\<lambda>(_, size).
                   let st = st\<lparr>st_size := sint (word_of_int size :: 64 word)\<rparr>
                   in UnitCall (On_fd Close d) (\<lambda>_.
                        if st_size st < 0 then Ret (Inl EOVERFLOW) else k st)))
      else k st)"

definition getattr_owner :: "Settings \<Rightarrow> stat \<Rightarrow> stat option" where
  "getattr_owner s st =
     (let st = (if ctime_from_mtime s then st\<lparr>st_ctim := st_mtim st\<rparr> else st);
          st = st\<lparr>st_uid := usermap_get_uid_or_default (usermap s) (st_uid st) (st_uid st)\<rparr>;
          st = st\<lparr>st_gid := usermap_get_gid_or_default (usermap s) (st_gid st) (st_gid st)\<rparr>
      in case apply_uid_offset s (st_uid st) of
           None \<Rightarrow> None
         | Some u \<Rightarrow>
             (case apply_gid_offset s (st_gid st) of
                None \<Rightarrow> None
              | Some g \<Rightarrow>
                  let st = st\<lparr>st_uid := u, st_gid := g\<rparr>;
                      st = (if new_uid s \<noteq> no_id then st\<lparr>st_uid := new_uid s\<rparr> else st);
                      st = (if new_gid s \<noteq> no_id then st\<lparr>st_gid := new_gid s\<rparr> else st)
                  in Some st))"

definition getattr_common :: "Settings \<Rightarrow> fuse_context \<Rightarrow> string \<Rightarrow> stat \<Rightarrow> (errno + stat) prog" where
  "getattr_common s fc procpath st =
     (case getattr_owner s st of
        None \<Rightarrow> Ret (Inl UID_GID_OVERFLOW_ERRNO)
      | Some st \<Rightarrow>
          pbind (if is_mirroring_enabled s then is_mirrored_user s (fc_uid fc) else Ret False) (\<lambda>mirrored.
            if \<not> mirrored \<and> mirrored_users_only s \<and> fc_uid fc \<noteq> 0
            then Ret (Inr (st\<lparr>st_mode := st_mode st AND NOT o777\<rparr>))
            else
              let st = (if mirrored then st\<lparr>st_uid := fc_uid fc\<rparr> else st);
                  st = (if hide_hard_links s then st\<lparr>st_nlink := 1\<rparr> else st)
              in getattr_block s procpath st (getattr_perms s procpath)))"

section \<open>The owner of a new file\<close>

text \<open>\<open>chown_func\<close> is the call used: \<^verbatim>\<open>chown\<close>, or \<^verbatim>\<open>lchown\<close> for a symbolic link.\<close>

definition chown_new_file_ids ::
  "Settings \<Rightarrow> fuse_context \<Rightarrow> uid_t \<Rightarrow> gid_t \<Rightarrow> (uid_t \<times> gid_t) option" where
  "chown_new_file_ids s fc file_owner file_group =
     (let file_owner = usermap_get_uid_or_default (usermap_reverse s) (fc_uid fc) file_owner;
          file_group = usermap_get_gid_or_default (usermap_reverse s) (fc_gid fc) file_group
      in case (if file_owner \<noteq> no_id then unapply_uid_offset s file_owner else Some file_owner) of
           None \<Rightarrow> None
         | Some file_owner \<Rightarrow>
             (case (if file_group \<noteq> no_id then unapply_gid_offset s file_group else Some file_group) of
                None \<Rightarrow> None
              | Some file_group \<Rightarrow>
                  Some (if create_for_uid s \<noteq> no_id then create_for_uid s else file_owner,
                        if create_for_gid s \<noteq> no_id then create_for_gid s else file_group)))"

definition chown_new_file ::
  "Settings \<Rightarrow> string \<Rightarrow> fuse_context \<Rightarrow> (uid_t \<Rightarrow> gid_t \<Rightarrow> path_op) \<Rightarrow> (errno + unit) prog" where
  "chown_new_file s path fc chown_func =
     (let finish = (\<lambda>file_owner file_group.
        case chown_new_file_ids s fc file_owner file_group of
          None \<Rightarrow> Ret (Inl UID_GID_OVERFLOW_ERRNO)
        | Some (file_owner, file_group) \<Rightarrow>
            if file_owner \<noteq> no_id \<or> file_group \<noteq> no_id
            then UnitCall (On_path (chown_func file_owner file_group) path) (\<lambda>_. Ret (Inr ()))
            else Ret (Inr ()))
      in case create_policy s of
           CREATE_AS_USER \<Rightarrow>
             StatCall (On_path Lstat (my_dirname path)) (\<lambda>r.
               finish (fc_uid fc)
                 (case r of Inr st \<Rightarrow> if st_mode st AND S_ISGID \<noteq> 0 then no_id else fc_gid fc
                          | Inl e \<Rightarrow> fc_gid fc))
         | CREATE_AS_MOUNTER \<Rightarrow> finish no_id no_id)"

section \<open>Deletion\<close>

text \<open>
  The decision taken for a path before the main deletion: the call that deletes the path itself and
  what is to be deleted afterwards.
\<close>

definition delete_symlink ::
  "Settings \<Rightarrow> string \<Rightarrow> path_op \<Rightarrow> (errno + path_op \<times> string option) prog" where
  "delete_symlink s real_path target_delete_func =
     (case resolved_symlink_deletion_policy s of
        RESOLVED_SYMLINK_DELETION_DENY \<Rightarrow> Ret (Inl EPERM)
      | RESOLVED_SYMLINK_DELETION_SYMLINK_ONLY \<Rightarrow> Ret (Inr (Unlink, None))
      | RESOLVED_SYMLINK_DELETION_SYMLINK_FIRST \<Rightarrow>
          PathCall (On_path Realpath real_path) (\<lambda>r.
            case r of
              Inl e \<Rightarrow> if e \<noteq> ENOENT then Ret (Inl e) else Ret (Inr (Unlink, None))
            | Inr target \<Rightarrow> Ret (Inr (Unlink, Some target)))
      | RESOLVED_SYMLINK_DELETION_TARGET_FIRST \<Rightarrow>
          PathCall (On_path Realpath real_path) (\<lambda>r.
            case r of
              Inl e \<Rightarrow> if e \<noteq> ENOENT then Ret (Inl e) else Ret (Inr (target_delete_func, None))
            | Inr target \<Rightarrow> or_fail (On_path Unlink target) (Ret (Inr (target_delete_func, None)))))"

definition delete_file :: "Settings \<Rightarrow> string option \<Rightarrow> path_op \<Rightarrow> (errno + unit) prog" where
  "delete_file s path target_delete_func =
     (if delete_deny s then Ret (Inl EPERM)
      else bind_ok (process_path s path False) (\<lambda>real_path.
        bind_ok
          (if resolve_symlinks s then
             StatCall (On_path Lstat real_path) (\<lambda>r.
               case r of
                 Inl e \<Rightarrow> Ret (Inl e)
               | Inr st \<Rightarrow>
                   if S_ISLNK (st_mode st) then delete_symlink s real_path target_delete_func
                   else Ret (Inr (target_delete_func, None)))
           else Ret (Inr (target_delete_func, None)))
          (\<lambda>(main_delete_func, also_try_delete).
             or_fail (On_path main_delete_func real_path)
               (case also_try_delete of
                  None \<Rightarrow> Ret (Inr ())
                | Some target \<Rightarrow> UnitCall (On_path target_delete_func target) (\<lambda>_. Ret (Inr ()))))))"

section \<open>Direct I/O buffers\<close>

definition round_up_buffer_size_for_direct_io :: "Settings \<Rightarrow> size_t \<Rightarrow> size_t" where
  "round_up_buffer_size_for_direct_io s sz =
     (let alignment = odirect_alignment s; rem = sz mod alignment
      in if rem = 0 then sz else sz - rem + alignment)"

section \<open>Owner offsets: what the checked additions compute\<close>

lemma sint_ucast_id: "sint (ucast (u :: 32 word) :: 64 word) = uint u"
proof -
  have b: "0 \<le> uint u" "uint u < 2 ^ 32" using uint_lt2p [of u] by simp_all
  have "signed_take_bit 63 (uint u) = uint u" 
    by (rule signed_take_bit_int_eq_self, rule order.trans [OF _ b(1)]) (use b(2) in simp_all)
  moreover have "take_bit 64 (uint u) = uint u" by (rule take_bit_int_eq_self) (use b in simp_all)
  ultimately show ?thesis by (simp add: sint_uint unsigned_ucast_eq)
qed

text \<open>The machine addition agrees with the addition of the integers whenever the check passes.\<close>

definition offset_id :: "int \<Rightarrow> 32 word \<Rightarrow> 32 word option" where
  "offset_id off u =
     (if 0 \<le> uint u + off \<and> uint u + off < 2 ^ 31 then Some (word_of_int (uint u + off)) else None)"

lemma bounded_add_offset_id:
  "map_option ucast (bounded_add (ucast (u :: 32 word)) off UID_T_MAX) = offset_id (sint off) u"
proof (cases "uint u + sint off < 2 ^ 63")
  case False
  then have "add_overflow (ucast u) off" by (simp add: add_overflow_def sint_ucast_id)
  with False show ?thesis by (simp add: bounded_add_def offset_id_def)
next
  case True
  have ge: "- (2 ^ 63) \<le> uint u + sint off"
  proof -
    have "- (2 ^ 63) \<le> sint off" using sint_ge [of off] by simp
    moreover have "0 \<le> uint u" by simp
    ultimately show ?thesis by linarith
  qed
  with True have no: "\<not> add_overflow (ucast u) off" by (simp add: add_overflow_def sint_ucast_id)
  let ?w = "ucast u + off"
  have w: "sint ?w = uint u + sint off"
    using True ge by (simp add: sint_word_add sint_ucast_id signed_take_bit_int_eq_self)
  have mx: "sint UID_T_MAX = 2 ^ 31 - 1" by code_simp
  have "(ucast ?w :: 32 word) = word_of_int (uint u + sint off)" if "0 \<le> uint u + sint off"
  proof -
    have "uint ?w = sint ?w" using that w True by (simp add: uint_sint take_bit_int_eq_self)
    then have "(word_of_int (uint ?w) :: 32 word) = word_of_int (uint u + sint off)" by (simp only: w)
    then show ?thesis by simp
  qed
  then show ?thesis using no by (auto simp: bounded_add_def offset_id_def Let_def w mx)
qed

lemma apply_offset_eq:
  "apply_uid_offset s u = offset_id (sint (uid_offset s)) u"
  "apply_gid_offset s g = offset_id (sint (gid_offset s)) g"
  by (simp_all add: apply_uid_offset_def apply_gid_offset_def bounded_add_offset_id)

text \<open>Negating the offset is exact except for the smallest 64-bit value.\<close>

lemma sint_uminus: "x \<noteq> - (2 ^ 63) \<Longrightarrow> sint (- x :: 64 word) = - sint x"
proof -
  assume x: "x \<noteq> - (2 ^ 63)"
  have "sint x \<noteq> - (2 ^ 63)"
  proof
    assume "sint x = - (2 ^ 63)"
    then have "(word_of_int (sint x) :: 64 word) = word_of_int (- (2 ^ 63))" by simp
    then show False using x by simp
  qed
  moreover have "- (2 ^ 63) \<le> sint x" "sint x < 2 ^ 63" using sint_ge [of x] sint_lt [of x] by simp_all
  ultimately show ?thesis by (simp add: sint_word_minus signed_take_bit_int_eq_self)
qed

lemma unapply_offset_eq:
  "uid_offset s \<noteq> - (2 ^ 63) \<Longrightarrow> unapply_uid_offset s u = offset_id (- sint (uid_offset s)) u"
  "gid_offset s \<noteq> - (2 ^ 63) \<Longrightarrow> unapply_gid_offset s g = offset_id (- sint (gid_offset s)) g"
  by (simp_all add: unapply_uid_offset_def unapply_gid_offset_def bounded_add_offset_id sint_uminus)

lemma uint_offset_id:
  assumes "offset_id off u = Some v"
  shows "uint v = uint u + off \<and> uint v < 2 ^ 31"
proof -
  have b: "0 \<le> uint u + off" "uint u + off < 2 ^ 31" and v: "v = word_of_int (uint u + off)"
    using assms by (auto simp: offset_id_def split: if_splits)
  have "uint v = take_bit 32 (uint u + off)" unfolding v uint_word_of_int by (simp add: take_bit_eq_mod)
  also have "\<dots> = uint u + off" using b by (intro take_bit_int_eq_self) simp_all
  finally show ?thesis using b by simp
qed

lemma offset_id_inverse:
  assumes "offset_id off u = Some v"
  shows "offset_id (- off) v = (if uint u < 2 ^ 31 then Some u else None)"
  using uint_offset_id [OF assms] by (auto simp: offset_id_def)

lemma offset_id_0: "offset_id 0 u = (if uint u < 2 ^ 31 then Some u else None)"
  by (simp add: offset_id_def)


section \<open>Where paths lead\<close>

definition in_mount :: "Settings \<Rightarrow> string \<Rightarrow> bool" where
  "in_mount s p \<longleftrightarrow> path_starts_with p (dest_of s) (mntdest_len s)"

definition relative :: "string \<Rightarrow> bool" where
  "relative p \<longleftrightarrow> p \<noteq> [] \<and> hd p \<noteq> slash"

text \<open>A path a handler may touch: relative to the source directory, or resolved and outside the mount.\<close>

definition outside :: "Settings \<Rightarrow> string \<Rightarrow> bool" where
  "outside s p \<longleftrightarrow> relative p \<or> resolve_symlinks s \<and> \<not> in_mount s p"

lemma relative_relative_part: "relative (relative_part p)"
proof (cases "dropWhile (\<lambda>c. c = slash) p = []")
  case False
  then show ?thesis using hd_dropWhile [of "\<lambda>c. c = slash" p] by (simp add: relative_part_def relative_def Let_def)
qed (simp add: relative_part_def relative_def)

lemma outside_dirname:
  assumes len: "mntdest_len s \<le> length (dest_of s)" and out: "outside s p"
  shows "outside s (my_dirname p)"
proof (cases rule: my_dirname_cases [of p])
  case 1
  then show ?thesis by (auto simp: outside_def relative_def)
next
  case 2
  then show ?thesis using out by simp
next
  case (3 b)
  then have "\<not> relative p" by (simp add: relative_def)
  moreover have "in_mount s ''/'' \<Longrightarrow> in_mount s p"
    unfolding in_mount_def 3(1) by (rule path_starts_with_below_root [OF _ len])
  ultimately show ?thesis using out 3 by (auto simp: outside_def)
next
  case (4 d b)
  then show ?thesis using out path_starts_with_child [OF _ len]
    by (auto simp: outside_def relative_def in_mount_def)
qed

end
