(* ===== verification/Operations.thy ===== *)
theory Operations
  imports Settings
begin

text \<open>
  The FUSE callbacks of \<^verbatim>\<open>src/bindfs.c\<close>, in the order of the source, and their table
  \<^verbatim>\<open>bindfs_oper\<close> as a dispatch function on requests.
\<close>

section \<open>Attributes and directories\<close>

text \<open>
  The fields of libfuse's \<^verbatim>\<open>struct fuse_config\<close> that \<^verbatim>\<open>bindfs_init\<close> sets.  Its result is \<^verbatim>\<open>bindfs_init_failed\<close> and the
  new configuration.
\<close>

record fuse_config =
  cfg_use_ino :: int
  cfg_entry_timeout :: real
  cfg_attr_timeout :: real
  cfg_negative_timeout :: real
  cfg_direct_io :: bool

definition bindfs_init :: "Settings \<Rightarrow> fuse_config \<Rightarrow> (bool \<times> fuse_config) prog" where
  "bindfs_init s cfg =
     (let cfg = cfg\<lparr>cfg_use_ino := 1, cfg_entry_timeout := 0, cfg_attr_timeout := 0, cfg_negative_timeout := 0,
                    cfg_direct_io := direct_io s\<rparr>
      in if permchain_of s \<noteq> [] \<and> mntsrc_fd s > 0 then
           UnitCall (On_fd Fchdir (mntsrc_fd s)) (\<lambda>r.
             if r \<noteq> None then UnitCall (Other Fuse_exit) (\<lambda>_. Ret (True, cfg)) else Ret (False, cfg))
         else Abort)"

definition bindfs_destroy :: "unit prog" where
  "bindfs_destroy = Ret ()"

definition bindfs_getattr :: "Settings \<Rightarrow> fuse_context \<Rightarrow> string option \<Rightarrow> (errno + stat) prog" where
  "bindfs_getattr s fc path =
     bind_ok (process_path s path True) (\<lambda>real_path.
       StatCall (On_path Lstat real_path) (\<lambda>r.
         case r of Inl e \<Rightarrow> Ret (Inl e) | Inr st \<Rightarrow> getattr_common s fc real_path st))"

text \<open>The answer to \<open>Readlink\<close> holds the bytes written to the buffer of the given size.\<close>

definition bindfs_readlink :: "Settings \<Rightarrow> string option \<Rightarrow> size_t \<Rightarrow> (errno + string) prog" where
  "bindfs_readlink s path sz =
     bind_ok (process_path s path True) (\<lambda>real_path.
       PathCall (On_path (Readlink (sz - 1)) real_path) Ret)"

text \<open>
  The body of the \<open>readdir\<close> loop that finds out about one entry: the result is what is handed to
  \<open>filler\<close>, the attributes only with \<open>readdirplus\<close>.  \<open>path_buf\<close> is the directory path with the slash.
\<close>

definition entry_lstat :: "Settings \<Rightarrow> string \<Rightarrow> dirent \<Rightarrow> (errno + stat) prog" where
  "entry_lstat s path de =
     (if resolve_symlinks s \<and> dirent_type de = DT_LNK then
        PathCall (On_path Realpath path) (\<lambda>r.
          case r of
            Inr resolved \<Rightarrow> StatCall (On_path Lstat resolved) Ret
          | Inl e \<Rightarrow> StatCall (On_path Lstat path) Ret)
      else StatCall (On_path Lstat path) Ret)"

definition entry_stat ::
  "Settings \<Rightarrow> fuse_context \<Rightarrow> bool \<Rightarrow> string \<Rightarrow> dirent \<Rightarrow> (errno + stat option) prog" where
  "entry_stat s fc readdirplus path_buf de =
     (if (resolve_symlinks s \<and> dirent_type de = DT_LNK) \<or> readdirplus then
        let path = path_buf @ d_name de
        in bind_ok (entry_lstat s path de) (\<lambda>st.
             if readdirplus then bind_ok (getattr_common s fc path st) (\<lambda>st. Ret (Inr (Some st)))
             else Ret (Inr None))
      else Ret (Inr None))"

text \<open>
  The answer to \<open>filler\<close>: \<open>Inr 0\<close> is success, \<open>Inr n\<close> a failure with \<^verbatim>\<open>errno\<close> 0, \<open>Inl e\<close> a failure with
  \<^verbatim>\<open>errno\<close> \<open>e\<close>.
\<close>

fun readdir_loop ::
  "Settings \<Rightarrow> fuse_context \<Rightarrow> bool \<Rightarrow> string \<Rightarrow> dirent list \<Rightarrow> errno option \<Rightarrow> (errno + unit) prog" where
  "readdir_loop s fc readdirplus path_buf [] end_error =
     Ret (case end_error of Some e \<Rightarrow> Inl e | None \<Rightarrow> Inr ())"
| "readdir_loop s fc readdirplus path_buf (de # des) end_error =
     bind_ok (entry_stat s fc readdirplus path_buf de) (\<lambda>st.
       IntCall (Other (Filler (d_name de) st)) (\<lambda>r.
         case r of
           Inl e \<Rightarrow> Ret (Inl e)
         | Inr n \<Rightarrow> if n \<noteq> 0 then Ret (Inl EIO)
                    else readdir_loop s fc readdirplus path_buf des end_error))"

definition bindfs_readdir ::
  "Settings \<Rightarrow> fuse_context \<Rightarrow> string option \<Rightarrow> bool \<Rightarrow> (errno + unit) prog" where
  "bindfs_readdir s fc path readdirplus =
     bind_ok (process_path s path True) (\<lambda>real_path.
       DirCall (On_path Opendir real_path) (\<lambda>r.
         case r of
           Inl e \<Rightarrow> Ret (Inl e)
         | Inr dp \<Rightarrow>
             IntCall (On_path Pathconf_name_max real_path) (\<lambda>_.
               pbind (readdir_loop s fc readdirplus (real_path @ [slash]) (dir_entries dp) (dir_error dp))
                 (\<lambda>result. UnitCall (Other Closedir) (\<lambda>_. Ret result)))))"

section \<open>Creating and deleting\<close>

definition bindfs_mknod :: "Settings \<Rightarrow> fuse_context \<Rightarrow> string option \<Rightarrow> mode_t \<Rightarrow> dev_t \<Rightarrow> (errno + unit) prog" where
  "bindfs_mknod s fc path mode rdev =
     bind_ok (process_path s path True) (\<lambda>real_path.
       asserted (permchain_apply (create_permchain s) mode) (\<lambda>mode.
         or_fail (On_path (if S_ISFIFO mode then Mkfifo mode else Mknod mode rdev) real_path)
           (chown_new_file s real_path fc Chown)))"

definition bindfs_mkdir :: "Settings \<Rightarrow> fuse_context \<Rightarrow> string option \<Rightarrow> mode_t \<Rightarrow> (errno + unit) prog" where
  "bindfs_mkdir s fc path mode =
     bind_ok (process_path s path True) (\<lambda>real_path.
       asserted (permchain_apply (create_permchain s) (mode OR S_IFDIR)) (\<lambda>mode.
         or_fail (On_path (Mkdir (mode AND o777)) real_path)
           (chown_new_file s real_path fc Chown)))"

definition bindfs_unlink :: "Settings \<Rightarrow> string option \<Rightarrow> (errno + unit) prog" where
  "bindfs_unlink s path = delete_file s path Unlink"

definition bindfs_rmdir :: "Settings \<Rightarrow> string option \<Rightarrow> (errno + unit) prog" where
  "bindfs_rmdir s path = delete_file s path Rmdir"

definition bindfs_symlink :: "Settings \<Rightarrow> fuse_context \<Rightarrow> string \<Rightarrow> string option \<Rightarrow> (errno + unit) prog" where
  "bindfs_symlink s fc from to =
     (if resolve_symlinks s then Ret (Inl EPERM)
      else bind_ok (process_path s to False) (\<lambda>real_to.
        or_fail (On_path (Symlink from) real_to)
          (chown_new_file s real_to fc Lchown)))"

definition bindfs_rename :: "Settings \<Rightarrow> string option \<Rightarrow> string option \<Rightarrow> flags \<Rightarrow> (errno + unit) prog" where
  "bindfs_rename s from to flgs =
     (if rename_deny s then Ret (Inl EPERM)
      else bind_ok (process_path s from False) (\<lambda>real_from.
        bind_ok (process_path s to True) (\<lambda>real_to.
          or_fail (On_paths (if flgs = 0 then Rename else Renameat2 flgs) real_from real_to)
            (Ret (Inr ())))))"

definition bindfs_link :: "Settings \<Rightarrow> string option \<Rightarrow> string option \<Rightarrow> (errno + unit) prog" where
  "bindfs_link s from to =
     bind_ok (process_path s from True) (\<lambda>real_from.
       bind_ok (process_path s to True) (\<lambda>real_to.
         or_fail (On_paths Link real_from real_to) (Ret (Inr ()))))"

section \<open>Permissions and owners\<close>

text \<open>
  The part of \<^verbatim>\<open>bindfs_chmod\<close> after the path and, with \<^verbatim>\<open>--chmod-allow-x\<close>, the old mode are known;
  \<open>file_execute_only\<close> carries the attributes of a regular file.
\<close>

definition chmod_by_policy :: "Settings \<Rightarrow> string \<Rightarrow> stat option \<Rightarrow> mode_t \<Rightarrow> (errno + unit) prog" where
  "chmod_by_policy s real_path file_execute_only mode =
     (case chmod_policy s of
        CHMOD_NORMAL \<Rightarrow>
          asserted (permchain_apply (chmod_permchain s) mode) (\<lambda>mode.
            or_fail (On_path (Chmod mode) real_path) (Ret (Inr ())))
      | CHMOD_IGNORE \<Rightarrow>
          (case file_execute_only of
             Some st \<Rightarrow>
               let diff = ((st_mode st AND o7777) XOR (mode AND o7777)) AND o111
               in or_fail (On_path (Chmod (st_mode st XOR diff)) real_path) (Ret (Inr ()))
           | None \<Rightarrow> Ret (Inr ()))
      | CHMOD_DENY \<Rightarrow>
          (case file_execute_only of
             Some st \<Rightarrow>
               let diff = (st_mode st AND o7777) XOR (mode AND o7777)
               in if diff AND o7666 = 0
                  then or_fail (On_path (Chmod mode) real_path) (Ret (Inr ()))
                  else Ret (Inl EPERM)
           | None \<Rightarrow> Ret (Inl EPERM)))"

definition bindfs_chmod :: "Settings \<Rightarrow> string option \<Rightarrow> mode_t \<Rightarrow> (errno + unit) prog" where
  "bindfs_chmod s path mode =
     bind_ok (process_path s path True) (\<lambda>real_path.
       if chmod_allow_x s then
         StatCall (On_path Lstat real_path) (\<lambda>r.
           case r of
             Inl e \<Rightarrow> Ret (Inl e)
           | Inr st \<Rightarrow> chmod_by_policy s real_path (if S_ISREG (st_mode st) then Some st else None) mode)
       else chmod_by_policy s real_path None mode)"

text \<open>The two switches of \<^verbatim>\<open>bindfs_chown\<close>: the id to pass on, or the error.\<close>

definition chown_uid :: "Settings \<Rightarrow> uid_t \<Rightarrow> errno + uid_t" where
  "chown_uid s u =
     (if u \<noteq> no_id then
        (case chown_policy s of
           CHOWN_NORMAL \<Rightarrow>
             (case unapply_uid_offset s (usermap_get_uid_or_default (usermap_reverse s) u u) of
                None \<Rightarrow> Inl UID_GID_OVERFLOW_ERRNO | Some u' \<Rightarrow> Inr u')
         | CHOWN_IGNORE \<Rightarrow> Inr no_id
         | CHOWN_DENY \<Rightarrow> Inl EPERM)
      else Inr u)"

definition chown_gid :: "Settings \<Rightarrow> gid_t \<Rightarrow> errno + gid_t" where
  "chown_gid s g =
     (if g \<noteq> no_id then
        (case chgrp_policy s of
           CHGRP_NORMAL \<Rightarrow>
             (case unapply_gid_offset s (usermap_get_gid_or_default (usermap_reverse s) g g) of
                None \<Rightarrow> Inl UID_GID_OVERFLOW_ERRNO | Some g' \<Rightarrow> Inr g')
         | CHGRP_IGNORE \<Rightarrow> Inr no_id
         | CHGRP_DENY \<Rightarrow> Inl EPERM)
      else Inr g)"

definition bindfs_chown :: "Settings \<Rightarrow> string option \<Rightarrow> uid_t \<Rightarrow> gid_t \<Rightarrow> (errno + unit) prog" where
  "bindfs_chown s path u g =
     (case chown_uid s u of
        Inl e \<Rightarrow> Ret (Inl e)
      | Inr u \<Rightarrow>
          (case chown_gid s g of
             Inl e \<Rightarrow> Ret (Inl e)
           | Inr g \<Rightarrow>
               if u \<noteq> no_id \<or> g \<noteq> no_id
               then bind_ok (process_path s path True) (\<lambda>real_path.
                      or_fail (On_path (Lchown u g) real_path) (Ret (Inr ())))
               else Ret (Inr ())))"

definition bindfs_truncate :: "Settings \<Rightarrow> string option \<Rightarrow> off_t \<Rightarrow> (errno + unit) prog" where
  "bindfs_truncate s path sz =
     bind_ok (process_path s path True) (\<lambda>real_path.
       or_fail (On_path (Truncate sz) real_path) (Ret (Inr ())))"

definition bindfs_utimens :: "Settings \<Rightarrow> string option \<Rightarrow> timespec \<Rightarrow> timespec \<Rightarrow> (errno + unit) prog" where
  "bindfs_utimens s path atime mtime =
     bind_ok (process_path s path True) (\<lambda>real_path.
       or_fail (On_path (Utimensat (mntsrc_fd s) atime mtime) real_path) (Ret (Inr ())))"

section \<open>Open files\<close>

abbreviation O_DIRECT :: flags where "O_DIRECT \<equiv> 0x4000"

definition open_flags :: "Settings \<Rightarrow> flags \<Rightarrow> flags" where
  "open_flags s f = (if \<not> forward_odirect s then f AND NOT O_DIRECT else f)"

definition bindfs_create ::
  "Settings \<Rightarrow> fuse_context \<Rightarrow> string option \<Rightarrow> mode_t \<Rightarrow> fuse_file_info \<Rightarrow> (errno + fuse_file_info) prog" where
  "bindfs_create s fc path mode fi =
     bind_ok (process_path s path True) (\<lambda>real_path.
       asserted (permchain_apply (create_permchain s) (mode OR S_IFREG)) (\<lambda>mode.
         IntCall (On_path (Open (open_flags s (fi_flags fi)) (Some (mode AND o777))) real_path) (\<lambda>r.
           case r of
             Inl e \<Rightarrow> Ret (Inl e)
           | Inr d \<Rightarrow> pbind (chown_new_file s real_path fc Chown) (\<lambda>_. Ret (Inr (fi\<lparr>fi_fh := d\<rparr>))))))"

definition bindfs_open :: "Settings \<Rightarrow> string option \<Rightarrow> fuse_file_info \<Rightarrow> (errno + fuse_file_info) prog" where
  "bindfs_open s path fi =
     bind_ok (process_path s path True) (\<lambda>real_path.
       IntCall (On_path (Open (open_flags s (fi_flags fi)) None) real_path) (\<lambda>r.
         case r of Inl e \<Rightarrow> Ret (Inl e) | Inr d \<Rightarrow> Ret (Inr (fi\<lparr>fi_fh := d\<rparr>))))"

text \<open>
  \<^verbatim>\<open>rate_limiter_wait\<close> as the handlers use it: read the clock, update the limiter, sleep.  The limiter is
  shared state, so the new one is part of the result.
\<close>

definition limiter_wait :: "RateLimiter option \<Rightarrow> size_t \<Rightarrow> (RateLimiter option \<Rightarrow> 'a prog) \<Rightarrow> 'a prog" where
  "limiter_wait limiter sz k =
     (case limiter of
        None \<Rightarrow> k None
      | Some l \<Rightarrow>
          PairCall (Other Gettimeofday) (\<lambda>tv.
            let (ts, l') = rate_limiter_wait l (gettimeofday_clock tv) sz
            in UnitCall (Other (Nanosleep ts)) (\<lambda>_. k (Some l'))))"

definition uses_mmap :: "Settings \<Rightarrow> fuse_file_info \<Rightarrow> bool" where
  "uses_mmap s fi \<longleftrightarrow> fi_flags fi AND O_DIRECT \<noteq> 0 \<and> forward_odirect s"

text \<open>
  A buffer is the list of its bytes.  The answer to \<open>Pread\<close> holds the bytes the kernel stores at the
  start of the buffer, as many as it returns.
\<close>

definition fill_buffer :: "byte list \<Rightarrow> byte list \<Rightarrow> byte list" where
  "fill_buffer xs buf = xs @ drop (length xs) buf"

definition pread_result :: "errno + byte list \<Rightarrow> errno + nat" where
  "pread_result r = (case r of Inl e \<Rightarrow> Inl e | Inr xs \<Rightarrow> Inr (length xs))"

definition pread_bytes :: "errno + byte list \<Rightarrow> byte list" where
  "pread_bytes r = (case r of Inl e \<Rightarrow> [] | Inr xs \<Rightarrow> xs)"

definition bindfs_read ::
  "Settings \<Rightarrow> byte list \<Rightarrow> size_t \<Rightarrow> off_t \<Rightarrow> fuse_file_info
   \<Rightarrow> (RateLimiter option \<times> (errno + nat) \<times> byte list) prog" where
  "bindfs_read s buf sz offset fi =
     limiter_wait (read_limiter s) sz (\<lambda>limiter.
       if uses_mmap s fi then
         let mmap_size = round_up_buffer_size_for_direct_io s sz
         in UnitCall (Other (Mmap mmap_size)) (\<lambda>r.
              if r \<noteq> None then Ret (limiter, Inl ENOMEM, buf)
              else DataCall (On_fd (Pread sz offset) (fi_fh fi)) (\<lambda>r.
                let target_buf = fill_buffer (pread_bytes r) (replicate (unat mmap_size) 0)
                in UnitCall (Other (Munmap mmap_size)) (\<lambda>_.
                     Ret (limiter, pread_result r, fill_buffer (take (unat sz) target_buf) buf))))
       else DataCall (On_fd (Pread sz offset) (fi_fh fi)) (\<lambda>r.
              Ret (limiter, pread_result r, fill_buffer (pread_bytes r) buf)))"

definition bindfs_write ::
  "Settings \<Rightarrow> byte list \<Rightarrow> size_t \<Rightarrow> off_t \<Rightarrow> fuse_file_info
   \<Rightarrow> (RateLimiter option \<times> (errno + int)) prog" where
  "bindfs_write s buf sz offset fi =
     limiter_wait (write_limiter s) sz (\<lambda>limiter.
       if uses_mmap s fi then
         let mmap_size = round_up_buffer_size_for_direct_io s sz
         in UnitCall (Other (Mmap mmap_size)) (\<lambda>r.
              if r \<noteq> None then Ret (limiter, Inl ENOMEM)
              else let source_buf = fill_buffer (take (unat sz) buf) (replicate (unat mmap_size) 0)
                   in IntCall (On_fd (Pwrite (take (unat sz) source_buf) offset) (fi_fh fi)) (\<lambda>res.
                        UnitCall (Other (Munmap mmap_size)) (\<lambda>_. Ret (limiter, res))))
       else IntCall (On_fd (Pwrite (take (unat sz) buf) offset) (fi_fh fi)) (\<lambda>res. Ret (limiter, res)))"

definition bindfs_lock :: "fuse_file_info \<Rightarrow> int \<Rightarrow> (errno + unit) prog" where
  "bindfs_lock fi cmd = or_fail (On_fd (Fcntl cmd) (fi_fh fi)) (Ret (Inr ()))"

definition bindfs_flock :: "fuse_file_info \<Rightarrow> int \<Rightarrow> (errno + unit) prog" where
  "bindfs_flock fi op = or_fail (On_fd (Flock op) (fi_fh fi)) (Ret (Inr ()))"

definition bindfs_ioctl :: "fuse_file_info \<Rightarrow> int \<Rightarrow> (errno + int) prog" where
  "bindfs_ioctl fi cmd = IntCall (On_fd (Ioctl cmd) (fi_fh fi)) Ret"

definition bindfs_statfs :: "Settings \<Rightarrow> string option \<Rightarrow> (errno + unit) prog" where
  "bindfs_statfs s path =
     bind_ok (process_path s path True) (\<lambda>real_path.
       or_fail (On_path Statvfs real_path) (Ret (Inr ())))"

definition bindfs_release :: "fuse_file_info \<Rightarrow> (errno + unit) prog" where
  "bindfs_release fi = UnitCall (On_fd Close (fi_fh fi)) (\<lambda>_. Ret (Inr ()))"

definition bindfs_fsync :: "bool \<Rightarrow> fuse_file_info \<Rightarrow> (errno + unit) prog" where
  "bindfs_fsync isdatasync fi =
     or_fail (On_fd (if isdatasync then Fdatasync else Fsync) (fi_fh fi)) (Ret (Inr ()))"

section \<open>Extended attributes\<close>

definition bindfs_setxattr ::
  "Settings \<Rightarrow> string option \<Rightarrow> string \<Rightarrow> byte list \<Rightarrow> int \<Rightarrow> (errno + unit) prog" where
  "bindfs_setxattr s path name val flgs =
     (if xattr_policy s = XATTR_READ_ONLY then Ret (Inl EACCES)
      else bind_ok (process_path s path True) (\<lambda>real_path.
        or_fail (On_path (Lsetxattr name val flgs) real_path) (Ret (Inr ()))))"

definition bindfs_getxattr :: "Settings \<Rightarrow> string option \<Rightarrow> string \<Rightarrow> size_t \<Rightarrow> (errno + int) prog" where
  "bindfs_getxattr s path name sz =
     bind_ok (process_path s path True) (\<lambda>real_path.
       IntCall (On_path (Lgetxattr name sz) real_path) Ret)"

definition bindfs_listxattr :: "Settings \<Rightarrow> string option \<Rightarrow> size_t \<Rightarrow> (errno + int) prog" where
  "bindfs_listxattr s path sz =
     bind_ok (process_path s path True) (\<lambda>real_path.
       IntCall (On_path (Llistxattr sz) real_path) Ret)"

definition bindfs_removexattr :: "Settings \<Rightarrow> string option \<Rightarrow> string \<Rightarrow> (errno + unit) prog" where
  "bindfs_removexattr s path name =
     (if xattr_policy s = XATTR_READ_ONLY then Ret (Inl EACCES)
      else bind_ok (process_path s path True) (\<lambda>real_path.
        or_fail (On_path (Lremovexattr name) real_path) (Ret (Inr ()))))"

section \<open>The table of operations\<close>

text \<open>A request of the kernel, with the arguments FUSE passes to the callback.\<close>

datatype request =
    Getattr "string option"
  | Readlink_req "string option" size_t
  | Readdir "string option" bool
  | Mknod_req "string option" mode_t dev_t
  | Mkdir_req "string option" mode_t
  | Symlink_req string "string option"
  | Unlink_req "string option"
  | Rmdir_req "string option"
  | Rename_req "string option" "string option" flags
  | Link_req "string option" "string option"
  | Chmod_req "string option" mode_t
  | Chown_req "string option" uid_t gid_t
  | Truncate_req "string option" off_t
  | Utimens "string option" timespec timespec
  | Create "string option" mode_t fuse_file_info
  | Open_req "string option" fuse_file_info
  | Read_req "byte list" size_t off_t fuse_file_info
  | Write_req "byte list" size_t off_t fuse_file_info
  | Lock fuse_file_info int
  | Flock_req fuse_file_info int
  | Ioctl_req fuse_file_info int
  | Statfs "string option"
  | Release fuse_file_info
  | Fsync_req bool fuse_file_info
  | Setxattr "string option" string "byte list" int
  | Getxattr "string option" string size_t
  | Listxattr "string option" size_t
  | Removexattr "string option" string

text \<open>
  The entries \<^verbatim>\<open>main\<close> removes from the table: without an entry libfuse answers the request itself and
  bindfs runs nothing.
\<close>

definition installed :: "Settings \<Rightarrow> request \<Rightarrow> bool" where
  "installed s req =
     (case req of
        Setxattr _ _ _ _ \<Rightarrow> xattr_policy s \<noteq> XATTR_UNIMPLEMENTED
      | Getxattr _ _ _ \<Rightarrow> xattr_policy s \<noteq> XATTR_UNIMPLEMENTED
      | Listxattr _ _ \<Rightarrow> xattr_policy s \<noteq> XATTR_UNIMPLEMENTED
      | Removexattr _ _ \<Rightarrow> xattr_policy s \<noteq> XATTR_UNIMPLEMENTED
      | Lock _ _ \<Rightarrow> enable_lock_forwarding s
      | Flock_req _ _ \<Rightarrow> enable_lock_forwarding s
      | Ioctl_req _ _ \<Rightarrow> enable_ioctl s
      | _ \<Rightarrow> True)"

text \<open>The reply to a request; its data are those the properties speak about.\<close>

datatype reply =
    Failed errno
  | Done
  | Attr stat
  | Opened fuse_file_info
  | Count int
  | Bytes "byte list"
  | Target string

definition reply :: "('a \<Rightarrow> reply) \<Rightarrow> errno + 'a \<Rightarrow> reply" where
  "reply f r = (case r of Inl e \<Rightarrow> Failed e | Inr x \<Rightarrow> f x)"

definition replying :: "Settings \<Rightarrow> ('a \<Rightarrow> reply) \<Rightarrow> (errno + 'a) prog \<Rightarrow> (reply \<times> Settings) prog" where
  "replying s f p = pbind p (\<lambda>r. Ret (reply f r, s))"

text \<open>
  The table.  The only part of the settings a request changes are the rate limiters, which are
  shared by all requests.
\<close>

definition bindfs_oper :: "Settings \<Rightarrow> fuse_context \<Rightarrow> request \<Rightarrow> (reply \<times> Settings) prog" where
  "bindfs_oper s fc req =
     (case req of
        Getattr p \<Rightarrow> replying s Attr (bindfs_getattr s fc p)
      | Readlink_req p n \<Rightarrow> replying s Target (bindfs_readlink s p n)
      | Readdir p rdplus \<Rightarrow> replying s (\<lambda>_. Done) (bindfs_readdir s fc p rdplus)
      | Mknod_req p m d \<Rightarrow> replying s (\<lambda>_. Done) (bindfs_mknod s fc p m d)
      | Mkdir_req p m \<Rightarrow> replying s (\<lambda>_. Done) (bindfs_mkdir s fc p m)
      | Symlink_req t p \<Rightarrow> replying s (\<lambda>_. Done) (bindfs_symlink s fc t p)
      | Unlink_req p \<Rightarrow> replying s (\<lambda>_. Done) (bindfs_unlink s p)
      | Rmdir_req p \<Rightarrow> replying s (\<lambda>_. Done) (bindfs_rmdir s p)
      | Rename_req p q f \<Rightarrow> replying s (\<lambda>_. Done) (bindfs_rename s p q f)
      | Link_req p q \<Rightarrow> replying s (\<lambda>_. Done) (bindfs_link s p q)
      | Chmod_req p m \<Rightarrow> replying s (\<lambda>_. Done) (bindfs_chmod s p m)
      | Chown_req p u g \<Rightarrow> replying s (\<lambda>_. Done) (bindfs_chown s p u g)
      | Truncate_req p n \<Rightarrow> replying s (\<lambda>_. Done) (bindfs_truncate s p n)
      | Utimens p a m \<Rightarrow> replying s (\<lambda>_. Done) (bindfs_utimens s p a m)
      | Create p m fi \<Rightarrow> replying s Opened (bindfs_create s fc p m fi)
      | Open_req p fi \<Rightarrow> replying s Opened (bindfs_open s p fi)
      | Read_req buf n off fi \<Rightarrow>
          pbind (bindfs_read s buf n off fi) (\<lambda>(limiter, res, buf').
            Ret (reply (\<lambda>k. Bytes (take k buf')) res, s\<lparr>read_limiter := limiter\<rparr>))
      | Write_req buf n off fi \<Rightarrow>
          pbind (bindfs_write s buf n off fi) (\<lambda>(limiter, res).
            Ret (reply Count res, s\<lparr>write_limiter := limiter\<rparr>))
      | Lock fi cmd \<Rightarrow> replying s (\<lambda>_. Done) (bindfs_lock fi cmd)
      | Flock_req fi op \<Rightarrow> replying s (\<lambda>_. Done) (bindfs_flock fi op)
      | Ioctl_req fi cmd \<Rightarrow> replying s Count (bindfs_ioctl fi cmd)
      | Statfs p \<Rightarrow> replying s (\<lambda>_. Done) (bindfs_statfs s p)
      | Release fi \<Rightarrow> replying s (\<lambda>_. Done) (bindfs_release fi)
      | Fsync_req d fi \<Rightarrow> replying s (\<lambda>_. Done) (bindfs_fsync d fi)
      | Setxattr p n v f \<Rightarrow> replying s (\<lambda>_. Done) (bindfs_setxattr s p n v f)
      | Getxattr p n k \<Rightarrow> replying s Count (bindfs_getxattr s p n k)
      | Listxattr p k \<Rightarrow> replying s Count (bindfs_listxattr s p k)
      | Removexattr p n \<Rightarrow> replying s (\<lambda>_. Done) (bindfs_removexattr s p n))"

end
