(* ===== verification/Confinement.thy ===== *)
theory Confinement
  imports Operations
begin

text \<open>
  What the handlers of theory \<open>Operations\<close> ask of the kernel, for every request, every setting and
  every behaviour of the kernel: on which paths, and with which effects.
\<close>

section \<open>Well-formed settings\<close>

definition limiter_fine :: "RateLimiter option \<Rightarrow> bool" where
  "limiter_fine l \<longleftrightarrow> (case l of None \<Rightarrow> True | Some l \<Rightarrow> limiter_ok l)"

definition settings_ok :: "Settings \<Rightarrow> bool" where
  "settings_ok s \<longleftrightarrow>
     wf_chain (permchain_of s) \<and> wf_chain (create_permchain s) \<and> wf_chain (chmod_permchain s)
     \<and> permchain_of s \<noteq> [] \<and> usermap_bounds (usermap s) \<and> usermap_bounds (usermap_reverse s)
     \<and> limiter_fine (read_limiter s) \<and> limiter_fine (write_limiter s)
     \<and> (forward_odirect s \<longrightarrow> odirect_alignment s \<noteq> 0)
     \<and> mntdest_len s \<le> length (dest_of s)"

section \<open>Effects of system calls\<close>

datatype effect =
    Query | Create_node | Delete_node | Move_node | Set_mode | Set_owner | Set_size | Set_times
  | Open_file | File_data | Set_xattr

fun path_effect :: "path_op \<Rightarrow> effect" where
  "path_effect Realpath = Query"
| "path_effect Lstat = Query"
| "path_effect (Readlink n) = Query"
| "path_effect Opendir = Query"
| "path_effect Pathconf_name_max = Query"
| "path_effect (Open f m) = (if f = 0 \<and> m = None then Query else Open_file)"
| "path_effect (Access a) = Query"
| "path_effect (Mkfifo m) = Create_node"
| "path_effect (Mknod m d) = Create_node"
| "path_effect (Mkdir m) = Create_node"
| "path_effect Unlink = Delete_node"
| "path_effect Rmdir = Delete_node"
| "path_effect (Symlink t) = Create_node"
| "path_effect (Chmod m) = Set_mode"
| "path_effect (Chown u g) = Set_owner"
| "path_effect (Lchown u g) = Set_owner"
| "path_effect (Truncate n) = Set_size"
| "path_effect (Utimensat d a m) = Set_times"
| "path_effect Statvfs = Query"
| "path_effect (Lsetxattr n v f) = Set_xattr"
| "path_effect (Lgetxattr n k) = Query"
| "path_effect (Llistxattr k) = Query"
| "path_effect (Lremovexattr n) = Set_xattr"

fun fd_effect :: "fd_op \<Rightarrow> effect" where
  "fd_effect Close = Query"
| "fd_effect Blkgetsize64 = Query"
| "fd_effect (Pread n k) = File_data"
| "fd_effect (Pwrite b k) = File_data"
| "fd_effect (Fcntl c) = File_data"
| "fd_effect (Flock c) = File_data"
| "fd_effect (Ioctl c) = File_data"
| "fd_effect Fsync = File_data"
| "fd_effect Fdatasync = File_data"
| "fd_effect Fchdir = Query"

fun effect_of :: "syscall \<Rightarrow> effect" where
  "effect_of (On_path c p) = path_effect c"
| "effect_of (On_paths c p q) = (if c = Link then Create_node else Move_node)"
| "effect_of (On_fd c d) = fd_effect c"
| "effect_of (Other c) = Query"

section \<open>The shared helpers\<close>

lemma process_path_safe:
  assumes "\<And>p. relative p \<Longrightarrow> P (On_path Realpath p)" and "\<And>e. Q (Inl e)" and "\<And>p. outside s p \<Longrightarrow> Q (Inr p)"
  shows "safe P Q (process_path s path b)"
  using assms relative_relative_part
  by (auto simp: process_path_def outside_def in_mount_def Let_def split: option.split sum.split)

lemma with_path_safe:
  assumes "\<And>p. relative p \<Longrightarrow> P (On_path Realpath p)" and "\<And>e. Q (Inl e)"
    and "\<And>p. outside s p \<Longrightarrow> safe P Q (f p)"
  shows "safe P Q (bind_ok (process_path s path b) f)"
  unfolding safe_bind_ok using assms by (intro process_path_safe) auto

lemma with_raw_path_safe:
  assumes "\<And>e. Q (Inl e)" and "\<And>p. relative p \<Longrightarrow> safe P Q (f p)"
  shows "safe P Q (bind_ok (process_path s path False) f)"
  unfolding safe_bind_ok using assms relative_relative_part
  by (auto simp: process_path_def Let_def split: option.split)

text \<open>A query about one path, or about no path at all.\<close>

definition queries :: "string \<Rightarrow> syscall \<Rightarrow> bool" where
  "queries p c \<longleftrightarrow> effect_of c = Query \<and> set (paths_of c) \<subseteq> {p}"

lemma mirrored_member_loop_safe:
  "(\<And>c. queries p c \<Longrightarrow> P c) \<Longrightarrow> safe P (\<lambda>_. True) (mirrored_member_loop u gs)"
  by (induction gs) (auto simp: queries_def)

lemma is_mirrored_user_safe: "(\<And>c. queries p c \<Longrightarrow> P c) \<Longrightarrow> safe P (\<lambda>_. True) (is_mirrored_user s u)"
  using mirrored_member_loop_safe [of p P] by (simp add: is_mirrored_user_def)

lemma getattr_perms_safe:
  assumes "\<And>c. queries p c \<Longrightarrow> P c" and "wf_chain (permchain_of s)"
  shows "safe P (\<lambda>_. True) (getattr_perms s p st)"
  using assms permchain_apply_total [OF assms(2), of "st_mode st"]
  by (auto simp: getattr_perms_def probe_access_def safe_asserted queries_def Let_def)

lemma getattr_block_safe:
  assumes "\<And>c. queries p c \<Longrightarrow> P c" and "\<And>st. safe P (\<lambda>_. True) (k st)"
  shows "safe P (\<lambda>_. True) (getattr_block s p st k)"
  using assms by (auto simp: getattr_block_def queries_def Let_def split: sum.split)

lemma getattr_common_safe:
  assumes q: "\<And>c. queries p c \<Longrightarrow> P c" and wf: "wf_chain (permchain_of s)"
  shows "safe P (\<lambda>_. True) (getattr_common s fc p st)"
proof -
  have "safe P (\<lambda>_. True) (getattr_block s p st' (getattr_perms s p))" for st'
    by (rule getattr_block_safe [OF q getattr_perms_safe [OF q wf]])
  moreover have "safe P (\<lambda>_. True) (if is_mirroring_enabled s then is_mirrored_user s u else Ret False)" for u
    using is_mirrored_user_safe [OF q] by simp
  ultimately show ?thesis
    by (auto simp: getattr_common_def safe_pbind Let_def split: option.split intro: safe_mono)
qed

lemma chown_new_file_safe:
  assumes "\<And>u g. P (On_path (f u g) p)" and "P (On_path Lstat (my_dirname p))"
  shows "safe P (\<lambda>_. True) (chown_new_file s p fc f)"
proof -
  have "safe P (\<lambda>_. True)
      (case ids of None \<Rightarrow> Ret (Inl UID_GID_OVERFLOW_ERRNO)
       | Some (u, g) \<Rightarrow> if u \<noteq> no_id \<or> g \<noteq> no_id then UnitCall (On_path (f u g) p) (\<lambda>_. Ret (Inr ()))
                        else Ret (Inr ()))" for ids
    using assms(1) by (auto split: option.split prod.split)
  then show ?thesis
    using assms(2) by (auto simp: chown_new_file_def Let_def split: CreatePolicy.split)
qed

lemma limiter_wait_safe:
  assumes "P (Other Gettimeofday)" and "\<And>ts. P (Other (Nanosleep ts))" and "\<And>l. safe P Q (k l)"
  shows "safe P Q (limiter_wait l sz k)"
  using assms by (auto simp: limiter_wait_def split: option.split prod.split)

section \<open>Confinement\<close>

definition confined :: "Settings \<Rightarrow> syscall \<Rightarrow> bool" where
  "confined s c \<longleftrightarrow> (\<forall>p \<in> set (paths_of c). outside s p)"

lemma confined_simps [simp]:
  "confined s (On_path c p) \<longleftrightarrow> outside s p"
  "confined s (On_paths d p q) \<longleftrightarrow> outside s p \<and> outside s q"
  "confined s (On_fd e f)" "confined s (Other g)"
  by (simp_all add: confined_def)

lemma relative_outside [simp]: "relative p \<Longrightarrow> outside s p"
  by (simp add: outside_def)

lemma queries_confined: "outside s p \<Longrightarrow> queries p c \<Longrightarrow> confined s c"
  by (auto simp: queries_def confined_def)

lemma settings_okD:
  assumes "settings_ok s"
  shows "wf_chain (permchain_of s)" "wf_chain (create_permchain s)" "wf_chain (chmod_permchain s)"
    "mntdest_len s \<le> length (dest_of s)"
  using assms by (simp_all add: settings_ok_def)

lemma asserted_chain_safe:
  assumes "wf_chain ch" and "\<And>m'. non_perm m' = non_perm m \<Longrightarrow> safe P Q (f m')"
  shows "safe P Q (asserted (permchain_apply ch m) f)"
  using permchain_apply_total [OF assms(1), of m] assms(2) by (auto simp: safe_asserted)

lemma safe_replying: "safe P (\<lambda>_. True) (replying s f p) \<longleftrightarrow> safe P (\<lambda>_. True) p"
  by (simp add: replying_def safe_pbind)

lemma confined_chown_new_file:
  "settings_ok s \<Longrightarrow> outside s p \<Longrightarrow> safe (confined s) (\<lambda>_. True) (chown_new_file s p fc f)"
  using outside_dirname [OF settings_okD(4)] by (intro chown_new_file_safe) simp_all

lemma confined_getattr_common:
  "settings_ok s \<Longrightarrow> outside s p \<Longrightarrow> safe (confined s) (\<lambda>_. True) (getattr_common s fc p st)"
  by (rule getattr_common_safe [OF queries_confined settings_okD(1)])

lemma confined_with_path:
  assumes "\<And>p. outside s p \<Longrightarrow> safe (confined s) (\<lambda>_. True) (f p)"
  shows "safe (confined s) (\<lambda>_. True) (bind_ok (process_path s path b) f)"
  using assms by (intro with_path_safe) simp_all

lemma confined_getattr: "settings_ok s \<Longrightarrow> safe (confined s) (\<lambda>_. True) (bindfs_getattr s fc path)"
  unfolding bindfs_getattr_def
  by (intro confined_with_path) (simp add: confined_getattr_common split: sum.split)

lemma confined_create_handlers:
  assumes "settings_ok s"
  shows "safe (confined s) (\<lambda>_. True) (bindfs_mknod s fc path mode rdev)"
    "safe (confined s) (\<lambda>_. True) (bindfs_mkdir s fc path mode)"
    "safe (confined s) (\<lambda>_. True) (bindfs_symlink s fc t path)"
    "safe (confined s) (\<lambda>_. True) (bindfs_create s fc path mode fi)"
  using confined_chown_new_file [OF assms] settings_okD(2) [OF assms]
  unfolding bindfs_mknod_def bindfs_mkdir_def bindfs_symlink_def bindfs_create_def
  by (auto intro!: confined_with_path asserted_chain_safe simp: safe_pbind split: sum.split)

lemma confined_simple_handlers:
  "safe (confined s) (\<lambda>_. True) (bindfs_readlink s path n)"
  "safe (confined s) (\<lambda>_. True) (bindfs_rename s path path2 fl)"
  "safe (confined s) (\<lambda>_. True) (bindfs_link s path path2)"
  "safe (confined s) (\<lambda>_. True) (bindfs_chown s path u g)"
  "safe (confined s) (\<lambda>_. True) (bindfs_truncate s path sz)"
  "safe (confined s) (\<lambda>_. True) (bindfs_utimens s path a m)"
  "safe (confined s) (\<lambda>_. True) (bindfs_open s path fi)"
  "safe (confined s) (\<lambda>_. True) (bindfs_statfs s path)"
  "safe (confined s) (\<lambda>_. True) (bindfs_setxattr s path name v f)"
  "safe (confined s) (\<lambda>_. True) (bindfs_getxattr s path name k)"
  "safe (confined s) (\<lambda>_. True) (bindfs_listxattr s path k)"
  "safe (confined s) (\<lambda>_. True) (bindfs_removexattr s path name)"
  unfolding bindfs_readlink_def bindfs_rename_def bindfs_link_def bindfs_chown_def bindfs_truncate_def
    bindfs_utimens_def bindfs_open_def bindfs_statfs_def bindfs_setxattr_def bindfs_getxattr_def
    bindfs_listxattr_def bindfs_removexattr_def
  by (auto intro!: confined_with_path split: sum.split)

lemma confined_fd_handlers:
  "safe (confined s) (\<lambda>_. True) (bindfs_read s buf n k fi)"
  "safe (confined s) (\<lambda>_. True) (bindfs_write s buf n k fi)"
  "safe (confined s) (\<lambda>_. True) (bindfs_lock fi c)"
  "safe (confined s) (\<lambda>_. True) (bindfs_flock fi c)"
  "safe (confined s) (\<lambda>_. True) (bindfs_ioctl fi c)"
  "safe (confined s) (\<lambda>_. True) (bindfs_release fi)"
  "safe (confined s) (\<lambda>_. True) (bindfs_fsync d fi)"
  unfolding bindfs_read_def bindfs_write_def bindfs_lock_def bindfs_flock_def bindfs_ioctl_def
    bindfs_release_def bindfs_fsync_def
  by (auto intro!: limiter_wait_safe simp: Let_def)

lemma confined_chmod:
  assumes "settings_ok s"
  shows "safe (confined s) (\<lambda>_. True) (bindfs_chmod s path mode)"
proof -
  have "safe (confined s) (\<lambda>_. True) (chmod_by_policy s p x mode)" if "outside s p" for p x
    using that settings_okD(3) [OF assms] unfolding chmod_by_policy_def
    by (auto intro!: asserted_chain_safe simp: Let_def split: ChmodPolicy.split option.split)
  then show ?thesis
    unfolding bindfs_chmod_def by (auto intro!: confined_with_path split: sum.split)
qed

text \<open>Directory listing without \<^verbatim>\<open>--resolve-symlinks\<close>.\<close>

lemma relative_append: "relative p \<Longrightarrow> relative (p @ q)"
  by (cases p) (simp_all add: relative_def)

lemma confined_entry_stat:
  assumes "settings_ok s" and "\<not> resolve_symlinks s" and "relative path_buf"
  shows "safe (confined s) (\<lambda>_. True) (entry_stat s fc rdplus path_buf de)"
proof -
  have p: "outside s (path_buf @ d_name de)" using assms(3) by (simp add: relative_append)
  have g: "safe (confined s) (\<lambda>r. case r of Inl e \<Rightarrow> True | Inr x \<Rightarrow> True)
      (getattr_common s fc (path_buf @ d_name de) st)" for st
    by (rule safe_mono [OF confined_getattr_common [OF assms(1) p]]) (auto split: sum.split)
  show ?thesis
    using assms(2) p g by (auto simp: entry_stat_def entry_lstat_def safe_bind_ok Let_def split: sum.split)
qed

lemma confined_readdir_loop:
  assumes "settings_ok s" and "\<not> resolve_symlinks s" and "relative path_buf"
  shows "safe (confined s) (\<lambda>_. True) (readdir_loop s fc rdplus path_buf des err)"
proof (induction des)
  case (Cons de des)
  show ?case
    unfolding readdir_loop.simps
    by (rule safe_bind_okI [OF confined_entry_stat [OF assms]])
       (use Cons.IH in \<open>auto split: sum.split\<close>)
qed simp

lemma confined_readdir:
  assumes "settings_ok s" and "\<not> resolve_symlinks s"
  shows "safe (confined s) (\<lambda>_. True) (bindfs_readdir s fc path rdplus)"
  unfolding bindfs_readdir_def
proof (rule confined_with_path)
  fix p assume out: "outside s p"
  then have "relative p" using assms(2) by (simp add: outside_def)
  then have "relative (p @ [slash])" by (rule relative_append)
  from confined_readdir_loop [OF assms this] out
  show "safe (confined s) (\<lambda>_. True)
      (DirCall (On_path Opendir p) (\<lambda>r. case r of Inl e \<Rightarrow> Ret (Inl e)
        | Inr dp \<Rightarrow> IntCall (On_path Pathconf_name_max p) (\<lambda>_.
            pbind (readdir_loop s fc rdplus (p @ [slash]) (dir_entries dp) (dir_error dp))
              (\<lambda>result. UnitCall (Other Closedir) (\<lambda>_. Ret result)))))"
    by (simp add: safe_pbind split: sum.split)
qed

section \<open>Effects\<close>

text \<open>
  The effects a request may have, from its kind and the policies in force.  Every handler may ask
  questions; \<open>Query\<close> is always allowed.
\<close>

definition allowed :: "Settings \<Rightarrow> request \<Rightarrow> effect set" where
  "allowed s req =
     (case req of
        Mknod_req _ _ _ \<Rightarrow> {Create_node, Set_owner}
      | Mkdir_req _ _ \<Rightarrow> {Create_node, Set_owner}
      | Symlink_req _ _ \<Rightarrow> if resolve_symlinks s then {} else {Create_node, Set_owner}
      | Unlink_req _ \<Rightarrow> if delete_deny s then {} else {Delete_node}
      | Rmdir_req _ \<Rightarrow> if delete_deny s then {} else {Delete_node}
      | Rename_req _ _ _ \<Rightarrow> if rename_deny s then {} else {Move_node}
      | Link_req _ _ \<Rightarrow> {Create_node}
      | Chmod_req _ _ \<Rightarrow> if chmod_policy s = CHMOD_NORMAL \<or> chmod_allow_x s then {Set_mode} else {}
      | Chown_req _ u g \<Rightarrow>
          if (u = no_id \<or> chown_policy s = CHOWN_IGNORE) \<and> (g = no_id \<or> chgrp_policy s = CHGRP_IGNORE)
             \<or> u \<noteq> no_id \<and> chown_policy s = CHOWN_DENY \<or> g \<noteq> no_id \<and> chgrp_policy s = CHGRP_DENY
          then {} else {Set_owner}
      | Truncate_req _ _ \<Rightarrow> {Set_size}
      | Utimens _ _ _ \<Rightarrow> {Set_times}
      | Create _ _ _ \<Rightarrow> {Open_file, Set_owner}
      | Open_req _ _ \<Rightarrow> {Open_file}
      | Read_req _ _ _ _ \<Rightarrow> {File_data}
      | Write_req _ _ _ _ \<Rightarrow> {File_data}
      | Lock _ _ \<Rightarrow> {File_data}
      | Flock_req _ _ \<Rightarrow> {File_data}
      | Ioctl_req _ _ \<Rightarrow> {File_data}
      | Fsync_req _ _ \<Rightarrow> {File_data}
      | Setxattr _ _ _ _ \<Rightarrow> if xattr_policy s = XATTR_READ_ONLY then {} else {Set_xattr}
      | Removexattr _ _ \<Rightarrow> if xattr_policy s = XATTR_READ_ONLY then {} else {Set_xattr}
      | _ \<Rightarrow> {})"

definition limited_to :: "effect set \<Rightarrow> syscall \<Rightarrow> bool" where
  "limited_to E c \<longleftrightarrow> effect_of c \<in> insert Query E"

lemma limited_to_simps [simp]:
  "limited_to E (On_path c p) \<longleftrightarrow> path_effect c \<in> insert Query E"
  "limited_to E (On_paths d p q) \<longleftrightarrow> effect_of (On_paths d p q) \<in> insert Query E"
  "limited_to E (On_fd e f) \<longleftrightarrow> fd_effect e \<in> insert Query E"
  "limited_to E (Other g)"
  by (simp_all add: limited_to_def)

lemma within_with_path:
  assumes "\<And>p. safe (limited_to E) (\<lambda>_. True) (f p)"
  shows "safe (limited_to E) (\<lambda>_. True) (bind_ok (process_path s path b) f)"
  using assms by (intro with_path_safe) simp_all

lemma queries_within: "queries p c \<Longrightarrow> limited_to E c"
  by (simp add: queries_def limited_to_def)

lemma within_getattr_common:
  "settings_ok s \<Longrightarrow> safe (limited_to E) (\<lambda>_. True) (getattr_common s fc p st)"
  by (rule getattr_common_safe [OF queries_within settings_okD(1)])

lemma within_chown_new_file:
  assumes "\<And>u g. path_effect (f u g) \<in> insert Query E"
  shows "safe (limited_to E) (\<lambda>_. True) (chown_new_file s p fc f)"
  using assms by (intro chown_new_file_safe) simp_all

lemma within_create_handlers:
  assumes "settings_ok s"
  shows "safe (limited_to {Create_node, Set_owner}) (\<lambda>_. True) (bindfs_mknod s fc path mode rdev)"
    "safe (limited_to {Create_node, Set_owner}) (\<lambda>_. True) (bindfs_mkdir s fc path mode)"
    "safe (limited_to (allowed s (Symlink_req t path))) (\<lambda>_. True) (bindfs_symlink s fc t path)"
    "safe (limited_to {Open_file, Set_owner}) (\<lambda>_. True) (bindfs_create s fc path mode fi)"
  using settings_okD(2) [OF assms]
  unfolding bindfs_mknod_def bindfs_mkdir_def bindfs_symlink_def bindfs_create_def
  by (auto intro!: within_with_path asserted_chain_safe within_chown_new_file
      simp: safe_pbind allowed_def split: sum.split)

lemma within_delete:
  "f \<in> {Unlink, Rmdir} \<Longrightarrow>
   safe (limited_to (if delete_deny s then {} else {Delete_node})) (\<lambda>_. True) (delete_file s path f)"
  unfolding delete_file_def delete_symlink_def
  by (auto intro!: process_path_safe
      simp: safe_bind_ok split: sum.split option.split ResolvedSymlinkDeletion.split)

lemma within_entry_stat: "settings_ok s \<Longrightarrow> safe (limited_to E) (\<lambda>_. True) (entry_stat s fc rdplus path_buf de)"
  unfolding entry_stat_def entry_lstat_def Let_def
  by (auto simp: safe_bind_ok within_getattr_common split: sum.split)

lemma within_readdir_loop:
  assumes "settings_ok s"
  shows "safe (limited_to E) (\<lambda>_. True) (readdir_loop s fc rdplus path_buf des err)"
proof (induction des)
  case (Cons de des)
  then show ?case unfolding readdir_loop.simps
    by (intro safe_bind_okI [OF within_entry_stat [OF assms]]) (auto split: sum.split)
qed simp

lemma within_query_handlers:
  assumes "settings_ok s"
  shows "safe (limited_to E) (\<lambda>_. True) (bindfs_getattr s fc path)"
    "safe (limited_to E) (\<lambda>_. True) (bindfs_readdir s fc path rdplus)"
    "safe (limited_to E) (\<lambda>_. True) (bindfs_readlink s path n)"
    "safe (limited_to E) (\<lambda>_. True) (bindfs_statfs s path)"
    "safe (limited_to E) (\<lambda>_. True) (bindfs_getxattr s path name k)"
    "safe (limited_to E) (\<lambda>_. True) (bindfs_listxattr s path k)"
    "safe (limited_to E) (\<lambda>_. True) (bindfs_release fi)"
  using within_getattr_common [OF assms] within_readdir_loop [OF assms]
  unfolding bindfs_getattr_def bindfs_readdir_def bindfs_readlink_def bindfs_statfs_def
    bindfs_getxattr_def bindfs_listxattr_def bindfs_release_def
  by (auto intro!: within_with_path simp: safe_pbind split: sum.split)

lemma within_chmod:
  assumes "settings_ok s"
  shows "safe (limited_to (allowed s (Chmod_req path mode))) (\<lambda>_. True) (bindfs_chmod s path mode)"
  using settings_okD(3) [OF assms]
  unfolding bindfs_chmod_def chmod_by_policy_def
  by (auto intro!: within_with_path asserted_chain_safe
      simp: allowed_def Let_def split: sum.split option.split ChmodPolicy.split)

lemma within_chown:
  "safe (limited_to (allowed s (Chown_req path u g))) (\<lambda>_. True) (bindfs_chown s path u g)"
  unfolding bindfs_chown_def chown_uid_def chown_gid_def
  by (auto intro!: within_with_path
      simp: allowed_def split: sum.split option.split ChownPolicy.split ChgrpPolicy.split)

lemma within_simple_handlers:
  "safe (limited_to (allowed s (Rename_req path path2 fl))) (\<lambda>_. True) (bindfs_rename s path path2 fl)"
  "safe (limited_to {Create_node}) (\<lambda>_. True) (bindfs_link s path path2)"
  "safe (limited_to {Set_size}) (\<lambda>_. True) (bindfs_truncate s path sz)"
  "safe (limited_to {Set_times}) (\<lambda>_. True) (bindfs_utimens s path a m)"
  "safe (limited_to {Open_file}) (\<lambda>_. True) (bindfs_open s path fi)"
  "safe (limited_to (allowed s (Setxattr path name v f))) (\<lambda>_. True) (bindfs_setxattr s path name v f)"
  "safe (limited_to (allowed s (Removexattr path name))) (\<lambda>_. True) (bindfs_removexattr s path name)"
  unfolding bindfs_rename_def bindfs_link_def bindfs_truncate_def
    bindfs_utimens_def bindfs_open_def bindfs_setxattr_def bindfs_removexattr_def
  by (auto intro!: within_with_path simp: allowed_def split: sum.split)

lemma within_fd_handlers:
  "safe (limited_to {File_data}) (\<lambda>_. True) (bindfs_read s buf n k fi)"
  "safe (limited_to {File_data}) (\<lambda>_. True) (bindfs_write s buf n k fi)"
  "safe (limited_to {File_data}) (\<lambda>_. True) (bindfs_lock fi c)"
  "safe (limited_to {File_data}) (\<lambda>_. True) (bindfs_flock fi c)"
  "safe (limited_to {File_data}) (\<lambda>_. True) (bindfs_ioctl fi c)"
  "safe (limited_to {File_data}) (\<lambda>_. True) (bindfs_fsync d fi)"
  unfolding bindfs_read_def bindfs_write_def bindfs_lock_def bindfs_flock_def bindfs_ioctl_def
    bindfs_fsync_def
  by (auto intro!: limiter_wait_safe simp: Let_def)

lemma bindfs_oper_within:
  assumes "settings_ok s"
  shows "safe (limited_to (allowed s req)) (\<lambda>_. True) (bindfs_oper s fc req)"
  using within_create_handlers [OF assms] within_delete within_query_handlers [OF assms] within_chmod [OF assms]
    within_chown within_simple_handlers within_fd_handlers
  by (cases req)
     (simp_all add: bindfs_oper_def safe_replying safe_pbind split_beta bindfs_unlink_def bindfs_rmdir_def allowed_def)

text \<open>
  With \<^verbatim>\<open>--resolve-symlinks\<close>, deletion and directory listing resolve links themselves and do not compare the
  result with the mount point.  The calls that can reach a path inside the mount point this way: the ones that delete the
  target of a link, with the policies symlink-first and target-first, and the ones that list a directory, which only query.
\<close>

definition deletes_targets :: "Settings \<Rightarrow> bool" where
  "deletes_targets s \<longleftrightarrow> \<not> delete_deny s \<and> resolved_symlink_deletion_policy s
     \<in> {RESOLVED_SYMLINK_DELETION_SYMLINK_FIRST, RESOLVED_SYMLINK_DELETION_TARGET_FIRST}"

definition unguarded :: "Settings \<Rightarrow> request \<Rightarrow> syscall \<Rightarrow> bool" where
  "unguarded s req c \<longleftrightarrow>
     (case req of
        Unlink_req _ \<Rightarrow> deletes_targets s \<and> (\<exists>p. c = On_path Unlink p)
      | Rmdir_req _ \<Rightarrow> deletes_targets s \<and> (\<exists>p. c \<in> {On_path Unlink p, On_path Rmdir p})
      | Readdir _ _ \<Rightarrow> effect_of c = Query
      | _ \<Rightarrow> False)"

lemma delete_file_safe:
  assumes rel: "\<And>c p. relative p \<Longrightarrow> P (On_path c p)"
    and target: "\<And>t. resolve_symlinks s \<Longrightarrow> deletes_targets s \<Longrightarrow> P (On_path Unlink t) \<and> P (On_path f t)"
  shows "safe P (\<lambda>_. True) (delete_file s path f)"
proof (cases "delete_deny s")
  case False
  show ?thesis unfolding delete_file_def if_not_P [OF False]
  proof (rule with_raw_path_safe)
    fix p assume "relative p"
    with False rel target show "safe P (\<lambda>_. True)
        (bind_ok (if resolve_symlinks s
           then StatCall (On_path Lstat p) (\<lambda>r. case r of Inl e \<Rightarrow> Ret (Inl e)
             | Inr st \<Rightarrow> if S_ISLNK (st_mode st) then delete_symlink s p f else Ret (Inr (f, None)))
           else Ret (Inr (f, None)))
          (\<lambda>(main_delete_func, also_try_delete). or_fail (On_path main_delete_func p)
            (case also_try_delete of None \<Rightarrow> Ret (Inr ())
             | Some target \<Rightarrow> UnitCall (On_path f target) (\<lambda>_. Ret (Inr ())))))"
      by (cases "resolve_symlinks s"; cases "resolved_symlink_deletion_policy s")
         (auto simp: safe_bind_ok delete_symlink_def deletes_targets_def split: sum.split)
  qed simp
qed (simp add: delete_file_def)

lemma bindfs_oper_checked:
  assumes "settings_ok s"
  shows "safe (\<lambda>c. confined s c \<or> resolve_symlinks s \<and> unguarded s req c) (\<lambda>_. True) (bindfs_oper s fc req)"
proof (cases "case req of Unlink_req _ \<Rightarrow> True | Rmdir_req _ \<Rightarrow> True | Readdir _ _ \<Rightarrow> resolve_symlinks s | _ \<Rightarrow> False")
  case False
  then have "safe (confined s) (\<lambda>_. True) (bindfs_oper s fc req)"
    using assms
    by (cases req)
       (simp_all add: bindfs_oper_def safe_replying safe_pbind split_beta
          confined_getattr confined_create_handlers confined_simple_handlers confined_fd_handlers
          confined_chmod confined_readdir)
  then show ?thesis by (rule safe_mono) simp_all
next
  case True
  then consider p where "req = Unlink_req p" | p where "req = Rmdir_req p"
    | p r where "req = Readdir p r" "resolve_symlinks s" by (cases req) simp_all
  then show ?thesis
  proof cases
    case 3
    have "safe (limited_to {}) (\<lambda>_. True) (bindfs_oper s fc req)"
      using bindfs_oper_within [OF assms, of req fc] by (simp add: 3 allowed_def)
    then show ?thesis by (rule safe_mono) (simp_all add: 3 unguarded_def limited_to_def)
  qed (auto simp: bindfs_oper_def safe_replying bindfs_unlink_def bindfs_rmdir_def unguarded_def intro!: delete_file_safe)
qed

section \<open>Requests in sequence\<close>

text \<open>The settings a request leaves behind: the same but for the state of the rate limiters.\<close>

definition same_mount :: "Settings \<Rightarrow> Settings \<Rightarrow> bool" where
  "same_mount s s' \<longleftrightarrow>
     (\<exists>l m. s' = s\<lparr>read_limiter := l, write_limiter := m\<rparr> \<and> limiter_fine l \<and> limiter_fine m)"

lemma same_mountI: "limiter_fine l \<Longrightarrow> limiter_fine m \<Longrightarrow> same_mount s (s\<lparr>read_limiter := l, write_limiter := m\<rparr>)"
  by (auto simp: same_mount_def)

lemma same_mount_upd:
  assumes "settings_ok s" and "limiter_fine l"
  shows "same_mount s s" "same_mount s (s\<lparr>read_limiter := l\<rparr>)" "same_mount s (s\<lparr>write_limiter := l\<rparr>)"
  using same_mountI [of "read_limiter s" "write_limiter s" s] same_mountI [of l "write_limiter s" s]
    same_mountI [of "read_limiter s" l s] assms by (simp_all add: settings_ok_def)

lemma same_mount_trans: "same_mount s s' \<Longrightarrow> same_mount s' s'' \<Longrightarrow> same_mount s s''"
  unfolding same_mount_def by (elim exE conjE, hypsubst) (rule exI, rule exI, simp)

lemma allowed_limiters: "allowed (s\<lparr>read_limiter := l, write_limiter := m\<rparr>) r = allowed s r"
  by (cases r) (simp_all add: allowed_def)

lemma same_mount_fields:
  assumes "same_mount s s'"
  shows "settings_ok s \<Longrightarrow> settings_ok s'" "outside s' = outside s" "allowed s' = allowed s"
    "confined s' = confined s" "resolve_symlinks s' = resolve_symlinks s" "unguarded s' = unguarded s"
proof -
  obtain l m where s': "s' = s\<lparr>read_limiter := l, write_limiter := m\<rparr>" "limiter_fine l" "limiter_fine m"
    using assms by (auto simp: same_mount_def)
  have d: "dest_of s' = dest_of s" by (simp add: s' dest_of_def)
  then show o: "outside s' = outside s" by (simp add: s'(1) fun_eq_iff outside_def in_mount_def)
  then show "confined s' = confined s" by (simp add: fun_eq_iff confined_def)
  show "allowed s' = allowed s" by (simp add: s'(1) fun_eq_iff allowed_limiters)
  show "unguarded s' = unguarded s" by (simp add: s'(1) fun_eq_iff unguarded_def deletes_targets_def cong: request.case_cong)
  show "resolve_symlinks s' = resolve_symlinks s" by (simp add: s'(1))
  show "settings_ok s \<Longrightarrow> settings_ok s'" using s' d by (simp add: settings_ok_def)
qed

lemma limiter_wait_fine:
  assumes "limiter_fine l" and "\<And>l'. limiter_fine l' \<Longrightarrow> safe P Q (k l')"
    and "P (Other Gettimeofday)" and "\<And>ts. P (Other (Nanosleep ts))"
  shows "safe P Q (limiter_wait l sz k)"
  using assms step_ok
  by (auto simp: limiter_wait_def limiter_fine_def rate_limiter_wait_def split_beta split: option.split)

lemma replying_same_mount:
  assumes "safe P (\<lambda>_. True) p" and "settings_ok s"
  shows "safe (\<lambda>_. True) (\<lambda>x. same_mount s (snd x)) (replying s f p)"
  unfolding replying_def safe_pbind
  by (rule safe_mono [OF assms(1)]) (use assms(2) in \<open>auto simp: settings_ok_def intro: same_mount_upd\<close>)

lemma bindfs_oper_same_mount:
  assumes ok: "settings_ok s"
  shows "safe (\<lambda>_. True) (\<lambda>x. same_mount s (snd x)) (bindfs_oper s fc req)"
proof (cases "\<exists>buf n k fi. req = Read_req buf n k fi \<or> req = Write_req buf n k fi")
  case True
  then obtain buf n k fi where "req = Read_req buf n k fi \<or> req = Write_req buf n k fi" by blast
  moreover have "limiter_fine (read_limiter s)" "limiter_fine (write_limiter s)"
    using ok by (simp_all add: settings_ok_def)
  ultimately show ?thesis
    by (auto simp: bindfs_oper_def bindfs_read_def bindfs_write_def safe_pbind Let_def
        intro!: limiter_wait_fine same_mount_upd [OF ok])
next
  case False
  have "\<exists>P. safe P (\<lambda>_. True) (bindfs_oper s fc req)" using bindfs_oper_within [OF ok] by blast
  with False show ?thesis
    by (cases req) (auto simp: bindfs_oper_def safe_replying intro: replying_same_mount [OF _ ok])
qed

text \<open>A run of the file system: requests answered one after the other.\<close>

fun serve_all :: "Settings \<Rightarrow> (fuse_context \<times> request) list \<Rightarrow> (reply list \<times> Settings) prog" where
  "serve_all s [] = Ret ([], s)"
| "serve_all s ((fc, req) # reqs) =
     pbind (bindfs_oper s fc req) (\<lambda>(r, s').
       pbind (serve_all s' reqs) (\<lambda>(rs, s''). Ret (r # rs, s'')))"

lemma serve_all_safe:
  assumes "settings_ok s"
    and step: "\<And>s' fc req. same_mount s s' \<Longrightarrow> settings_ok s' \<Longrightarrow> (fc, req) \<in> set reqs \<Longrightarrow>
      safe P (\<lambda>_. True) (bindfs_oper s' fc req)"
  shows "safe P (\<lambda>x. same_mount s (snd x) \<and> settings_ok (snd x) \<and> length (fst x) = length reqs) (serve_all s reqs)"
  using assms
proof (induction reqs arbitrary: s)
  case Nil
  then show ?case using same_mount_upd(1) [of s None] by (simp add: limiter_fine_def)
next
  case (Cons r reqs)
  obtain fc req where r: "r = (fc, req)" by (cases r)
  have same: "same_mount s s" using Cons.prems(1) same_mount_upd(1) [of s None] by (simp add: limiter_fine_def)
  have "safe (\<lambda>c. P c \<and> True) (\<lambda>x. True \<and> same_mount s (snd x)) (bindfs_oper s fc req)"
    by (rule safe_conj [OF Cons.prems(2) [OF same Cons.prems(1)] bindfs_oper_same_mount [OF Cons.prems(1)]])
       (simp add: r)
  then have oper: "safe P (\<lambda>x. same_mount s (snd x)) (bindfs_oper s fc req)" by simp
  have "safe P (\<lambda>x. same_mount s (snd x) \<and> settings_ok (snd x) \<and> length (fst x) = length (r # reqs))
      (pbind (serve_all s' reqs) (\<lambda>(rs, s''). Ret (r' # rs, s'')))" if "same_mount s s'" for s' r'
  proof -
    have "settings_ok s'" by (rule same_mount_fields(1) [OF that Cons.prems(1)])
    then have "safe P (\<lambda>x. same_mount s' (snd x) \<and> settings_ok (snd x) \<and> length (fst x) = length reqs) (serve_all s' reqs)"
      using Cons.prems(2) that same_mount_trans by (intro Cons.IH) auto
    then show ?thesis unfolding safe_pbind
      by (rule safe_mono) (use that in \<open>auto intro: same_mount_trans\<close>)
  qed
  then show ?case unfolding r serve_all.simps safe_pbind [where p = "bindfs_oper s fc req"]
    by (intro safe_mono [OF oper]) (auto simp: r)
qed

section \<open>Properties\<close>

text \<open>
  Whole sequences of requests: every path a handler hands to the kernel is relative to the source
  directory (no handler ever passes on a path that begins with a slash it got from the caller), or,
  with \<^verbatim>\<open>--resolve-symlinks\<close>, is a resolved path that is not at or below the mount point, or belongs to one of the
  calls that are made without that check; and no assertion fails.
\<close>

lemma serve_all_checked:
  assumes "settings_ok s"
  shows "(\<forall>c \<in> set (fst (snd (run K (serve_all s reqs) st))). \<forall>p \<in> set (paths_of c).
           p \<noteq> [] \<and> hd p \<noteq> slash
           \<or> resolve_symlinks s \<and> (\<not> path_starts_with p (dest_of s) (mntdest_len s)
                                   \<or> (\<exists>(fc, req) \<in> set reqs. unguarded s req c)))
    \<and> fst (run K (serve_all s reqs) st) \<noteq> None"
proof -
  let ?P = "\<lambda>c. confined s c \<or> resolve_symlinks s \<and> (\<exists>(fc, req) \<in> set reqs. unguarded s req c)"
  have "safe ?P (\<lambda>_. True) (bindfs_oper s' fc req)"
    if "same_mount s s'" "settings_ok s'" "(fc, req) \<in> set reqs" for s' fc req
    using bindfs_oper_checked [OF that(2), of req fc]
    by (rule safe_mono) (use that(3) same_mount_fields [OF that(1)] in auto)
  then have "safe ?P (\<lambda>x. same_mount s (snd x) \<and> settings_ok (snd x) \<and> length (fst x) = length reqs) (serve_all s reqs)"
    using assms by (rule serve_all_safe [rotated])
  from run_safe [OF this, of K st]
  have "fst (run K (serve_all s reqs) st) \<noteq> None" and P: "\<And>c. c \<in> set (fst (snd (run K (serve_all s reqs) st))) \<Longrightarrow> ?P c"
    by auto
  moreover have "p \<noteq> [] \<and> hd p \<noteq> slash
      \<or> resolve_symlinks s \<and> (\<not> path_starts_with p (dest_of s) (mntdest_len s) \<or> (\<exists>(fc, req) \<in> set reqs. unguarded s req c))"
    if "c \<in> set (fst (snd (run K (serve_all s reqs) st)))" "p \<in> set (paths_of c)" for c p
    using P [OF that(1)] that(2) by (auto simp: confined_def outside_def relative_def in_mount_def)
  ultimately show ?thesis by blast
qed

lemma serve_all_limited:
  assumes "settings_ok s"
  shows "(\<forall>c \<in> set (fst (snd (run K (serve_all s reqs) st))).
      effect_of c = Query \<or> (\<exists>(fc, req) \<in> set reqs. effect_of c \<in> allowed s req))
    \<and> (\<exists>rs s'. fst (run K (serve_all s reqs) st) = Some (rs, s') \<and> length rs = length reqs
        \<and> same_mount s s' \<and> settings_ok s')"
proof -
  let ?P = "\<lambda>c. effect_of c = Query \<or> (\<exists>(fc, req) \<in> set reqs. effect_of c \<in> allowed s req)"
  have "safe ?P (\<lambda>_. True) (bindfs_oper s' fc req)"
    if "same_mount s s'" "settings_ok s'" "(fc, req) \<in> set reqs" for s' fc req
    using bindfs_oper_within [OF that(2), of req fc]
    by (rule safe_mono) (use that(3) same_mount_fields(3) [OF that(1)] in \<open>auto simp: limited_to_def\<close>)
  then have "safe ?P (\<lambda>x. same_mount s (snd x) \<and> settings_ok (snd x) \<and> length (fst x) = length reqs)
      (serve_all s reqs)"
    using assms by (rule serve_all_safe [rotated])
  from run_safe [OF this, of K st] show ?thesis by auto
qed

text \<open>
  C9. Policies.  In any sequence of requests, every request has only the effects its kind and the
  policies allow: nothing is deleted with \<^verbatim>\<open>--delete-deny\<close>, nothing renamed with \<^verbatim>\<open>--rename-deny\<close>, no mode
  is changed with \<^verbatim>\<open>--chmod-ignore\<close> or \<^verbatim>\<open>--chmod-deny\<close> (without \<^verbatim>\<open>--chmod-allow-x\<close>), no owner with the chown
  and chgrp policies that forbid it, no extended attribute with \<^verbatim>\<open>--xattr-ro\<close>, and requests that only
  read make no modifying call.  The mount settings other than the limiters never change.
\<close>

theorem handlers_limited_effects:
  assumes "settings_ok s"
  shows "(\<forall>c \<in> set (fst (snd (run K (serve_all s reqs) st))).
      effect_of c = Query \<or> (\<exists>(fc, req) \<in> set reqs. effect_of c \<in> allowed s req))
    \<and> (\<exists>rs s'. fst (run K (serve_all s reqs) st) = Some (rs, s') \<and> length rs = length reqs
        \<and> same_mount s s' \<and> settings_ok s')"
  using assms by (rule serve_all_limited)

text \<open>A mount used in examples, and a kernel that answers every question with the given values.\<close>

definition example_settings :: Settings where
  "example_settings =
     \<lparr>progname = ''bindfs'', permchain_of = permchain_create, new_uid = no_id, new_gid = no_id,
      create_for_uid = no_id, create_for_gid = no_id, mntsrc = Some ''/src'', mntdest = Some ''/mnt'',
      mntdest_len = 4, mntsrc_fd = 3, usermap = usermap_create, usermap_reverse = usermap_create,
      read_limiter = None, write_limiter = None, create_policy = CREATE_AS_MOUNTER,
      create_permchain = permchain_create, chown_policy = CHOWN_NORMAL, chgrp_policy = CHGRP_NORMAL,
      chmod_policy = CHMOD_NORMAL, chmod_allow_x = False, chmod_permchain = permchain_create,
      xattr_policy = XATTR_READ_WRITE, delete_deny = False, rename_deny = False,
      mirrored_users_only = False, mirrored_users = [], num_mirrored_users = 0, mirrored_members = [],
      num_mirrored_members = 0, hide_hard_links = False, resolve_symlinks = False,
      block_devices_as_files = False,
      resolved_symlink_deletion_policy = RESOLVED_SYMLINK_DELETION_SYMLINK_ONLY,
      realistic_permissions = False, ctime_from_mtime = False, enable_lock_forwarding = False,
      enable_ioctl = False, forward_odirect = False, odirect_alignment = 0, direct_io = False,
      uid_offset = 0, gid_offset = 0, original_working_dir = ''/'', original_umask = 18\<rparr>"

definition example_stat :: "mode_t \<Rightarrow> uid_t \<Rightarrow> stat" where
  "example_stat m u =
     \<lparr>st_dev = 0, st_ino = 1, st_mode = m, st_nlink = 2, st_uid = u, st_gid = u, st_rdev = 0, st_size = 0,
      st_atim = (0, 0), st_mtim = (7, 0), st_ctim = (9, 0)\<rparr>"

definition example_kernel :: "stat \<Rightarrow> string \<Rightarrow> unit kernel" where
  "example_kernel a target =
     \<lparr>k_unit = (\<lambda>c u. (None, u)), k_int = (\<lambda>c u. (Inr 5, u)), k_stat = (\<lambda>c u. (Inr a, u)),
      k_path = (\<lambda>c u. (Inr target, u)), k_data = (\<lambda>c u. (Inr [], u)),
      k_dir = (\<lambda>c u. (Inr \<lparr>dir_entries = [], dir_error = None\<rparr>, u)),
      k_bool = (\<lambda>c u. (False, u)), k_pair = (\<lambda>c u. ((0, 0), u))\<rparr>"

lemma example_settings_ok [simp]:
  "settings_ok example_settings"
  "settings_ok (example_settings\<lparr>delete_deny := True\<rparr>)"
  "settings_ok (example_settings\<lparr>resolve_symlinks := True\<rparr>)"
  by (simp_all add: settings_ok_def example_settings_def limiter_fine_def usermap_ok_bounds usermap_create_ok dest_of_def)
     (simp_all add: permchain_create_def)

theorem handlers_limited_effects_witness:
  "list_all (\<lambda>c. effect_of c = Query)
     (fst (snd (run (example_kernel (example_stat 0 0) []) (serve_all (example_settings\<lparr>delete_deny := True\<rparr>)
        [(\<lparr>fc_uid = 1, fc_gid = 1\<rparr>, Unlink_req (Some ''/etc/passwd''))]) ())))"
  using handlers_limited_effects [of "example_settings\<lparr>delete_deny := True\<rparr>" "example_kernel (example_stat 0 0) []"
      "[(\<lparr>fc_uid = 1, fc_gid = 1\<rparr>, Unlink_req (Some ''/etc/passwd''))]" "()"]
  by (auto simp: allowed_def list_all_iff)

text \<open>
  The check against the mount point is not made for the target of a link that is deleted with
  the target-first or symlink-first policy: whatever the link resolves to, a path inside the mount
  point included, is handed to \<^verbatim>\<open>unlink\<close> (and, symlink-first, to the deleting call of the request).
\<close>

lemma resolved_deletion_unchecked:
  assumes "resolve_symlinks s" and "\<not> delete_deny s"
    and "resolved_symlink_deletion_policy s = RESOLVED_SYMLINK_DELETION_TARGET_FIRST"
    and "\<And>u. k_stat K (On_path Lstat (relative_part p)) u = (Inr a, f u)" and "S_ISLNK (st_mode a)"
    and "\<And>u. k_path K (On_path Realpath (relative_part p)) u = (Inr target, g u)"
  shows "On_path Unlink target \<in> set (fst (snd (run K (bindfs_unlink s (Some p)) st)))"
  using assms
  by (simp add: bindfs_unlink_def delete_file_def bind_ok_def process_path_def delete_symlink_def or_fail_def
      Let_def split_beta)

lemma resolved_deletion_unchecked_example:
  "path_starts_with ''/mnt/x'' (dest_of example_settings) (mntdest_len example_settings)
   \<and> On_path Unlink ''/mnt/x'' \<in> set (fst (snd (run (example_kernel (example_stat S_IFLNK 0) ''/mnt/x'')
       (bindfs_unlink (example_settings\<lparr>resolve_symlinks := True,
          resolved_symlink_deletion_policy := RESOLVED_SYMLINK_DELETION_TARGET_FIRST\<rparr>) (Some ''/link'')) ())))"
proof
  show "path_starts_with ''/mnt/x'' (dest_of example_settings) (mntdest_len example_settings)" by code_simp
qed (rule resolved_deletion_unchecked [where a = "example_stat S_IFLNK 0" and f = id and g = id],
     simp_all add: example_settings_def example_kernel_def example_stat_def S_ISLNK_def)

text \<open>
  Nor is it made when a directory is listed: with \<^verbatim>\<open>--resolve-symlinks\<close>, every link in a directory is
  resolved and the result handed to \<^verbatim>\<open>lstat\<close>, wherever it leads.
\<close>

lemma readdir_resolves_unchecked:
  assumes "resolve_symlinks s" and "dirent_type de = DT_LNK"
    and "\<And>u. k_path K (On_path Realpath (path_buf @ d_name de)) u = (Inr target, g u)"
  shows "On_path Lstat target \<in> set (fst (snd (run K (readdir_loop s fc rdplus path_buf (de # des) err) st)))"
proof -
  have "entry_stat s fc rdplus path_buf de =
      PathCall (On_path Realpath (path_buf @ d_name de)) (\<lambda>r. case r of
          Inr resolved \<Rightarrow> StatCall (On_path Lstat resolved) (\<lambda>r. h r)
        | Inl e \<Rightarrow> StatCall (On_path Lstat (path_buf @ d_name de)) (\<lambda>r. h r))"
    if "h = (\<lambda>r. case r of Inl e \<Rightarrow> Ret (Inl e) | Inr st \<Rightarrow>
      (if rdplus then bind_ok (getattr_common s fc (path_buf @ d_name de) st) (\<lambda>st. Ret (Inr (Some st)))
       else Ret (Inr None)))" for h
    using assms(1,2) unfolding that
    by (auto simp: entry_stat_def entry_lstat_def bind_ok_def Let_def fun_eq_iff split: sum.split)
  then show ?thesis
    using assms(3) by (simp add: bind_ok_def split_beta)
qed

lemma readdir_resolves_unchecked_example:
  "path_starts_with ''/mnt/x'' (dest_of example_settings) (mntdest_len example_settings)
   \<and> On_path Lstat ''/mnt/x'' \<in> set (fst (snd (run (example_kernel (example_stat S_IFLNK 0) ''/mnt/x'')
       (readdir_loop (example_settings\<lparr>resolve_symlinks := True\<rparr>) \<lparr>fc_uid = 1, fc_gid = 1\<rparr> False ''/src/''
          [\<lparr>d_name = ''link'', dirent_type = DT_LNK\<rparr>] None) ())))"
proof
  show "path_starts_with ''/mnt/x'' (dest_of example_settings) (mntdest_len example_settings)" by code_simp
qed (rule readdir_resolves_unchecked [where g = id], simp_all add: example_kernel_def)

end
