(* ===== verification/Policies.thy ===== *)
theory Policies
  imports Confinement
begin

text \<open>
  What the policies mean for the caller: the owner and the permissions a file is shown with, what
  chown and chmod pass on, who owns a new file, what is deleted, and that direct I/O does not change
  the data read.
\<close>

section \<open>Owners: shown and stored\<close>

text \<open>
  An id is shadowed when it is not itself mapped but something else is mapped to it.
\<close>

definition shadowed :: "(uid_t \<rightharpoonup> uid_t) \<Rightarrow> uid_t \<Rightarrow> bool" where
  "shadowed f u \<longleftrightarrow> f u = None \<and> u \<in> ran f"

text \<open>
  A stored id sent through the map and the offset.  In \<^verbatim>\<open>getattr_common\<close> a forced owner and mirroring come after this.
\<close>

definition mapped_uid :: "Settings \<Rightarrow> uid_t \<Rightarrow> uid_t option" where
  "mapped_uid s u = apply_uid_offset s (usermap_get_uid_or_default (usermap s) u u)"

definition mapped_gid :: "Settings \<Rightarrow> gid_t \<Rightarrow> gid_t option" where
  "mapped_gid s g = apply_gid_offset s (usermap_get_gid_or_default (usermap s) g g)"

text \<open>
  The lookup of an id through a map and back, over the interface \<open>id_map\<close>: proved once for users and
  groups, in either direction.
\<close>

context id_map
begin

lemma get_there_and_back:
  assumes "invar f" "invar r" "inverse_maps (abs f) (abs r)" "\<not> shadowed (abs f) u"
  shows "get r (get f u u) (get f u u) = u"
proof (cases "abs f u")
  case None
  then have "abs r u = None"
    using assms(3,4) by (cases "abs r u") (auto simp: inverse_maps_def shadowed_def ran_def)
  with None show ?thesis using assms(1,2) by (simp add: get_abs)
next
  case (Some v)
  then have "abs r v = Some u" using assms(3) by (simp add: inverse_maps_def)
  with Some show ?thesis using assms(1,2) by (simp add: get_abs)
qed

end

lemma inverse_maps_sym: "inverse_maps f r \<Longrightarrow> inverse_maps r f"
  by (simp add: inverse_maps_def)

lemma inverse_maps_empty: "inverse_maps Map.empty r \<Longrightarrow> r = Map.empty"
  by (auto simp: inverse_maps_def fun_eq_iff) (metis option.exhaust)

lemma offset_id_iff: "offset_id off u = Some v \<longleftrightarrow> uint v = uint u + off \<and> uint v < 2 ^ 31"
proof
  assume v: "uint v = uint u + off \<and> uint v < 2 ^ 31"
  then have "0 \<le> uint u + off" using uint_ge_0 [of v] by simp
  moreover have "word_of_int (uint u + off) = v" using v by (metis word_of_int_uint)
  ultimately show "offset_id off u = Some v" using v by (simp add: offset_id_def)
qed (rule uint_offset_id)

lemma no_id_not_small: "uint v < 2 ^ 31 \<Longrightarrow> v \<noteq> no_id"
proof
  assume small: "uint v < 2 ^ 31" and v: "v = no_id"
  have "uint no_id = 2 ^ 32 - 1" by code_simp
  with small show False unfolding v by simp
qed

lemma unapply_apply:
  assumes "uid_offset s \<noteq> - (2 ^ 63)" and "apply_uid_offset s u = Some v" and "uint u < 2 ^ 31"
  shows "unapply_uid_offset s v = Some u" "v \<noteq> no_id"
  using assms offset_id_inverse [of "sint (uid_offset s)" u v] uint_offset_id [of "sint (uid_offset s)" u v]
    no_id_not_small [of v]
  by (simp_all add: apply_offset_eq unapply_offset_eq)

lemma chown_shown:
  assumes ok: "maps_ok (usermap s) (usermap_reverse s)" and normal: "chown_policy s = CHOWN_NORMAL"
    and one: "uid_offset s = 0 \<or> user_abs (usermap s) = Map.empty" "uid_offset s \<noteq> - (2 ^ 63)"
    and sh: "\<not> shadowed (user_abs (usermap s)) u" and small: "uint u < 2 ^ 31"
    and shown: "mapped_uid s u = Some v"
  shows "chown_uid s v = Inr u"
proof -
  have maps: "usermap_ok (usermap s)" "usermap_ok (usermap_reverse s)"
    and inv: "inverse_maps (user_abs (usermap s)) (user_abs (usermap_reverse s))" using ok by (simp_all add: maps_ok_def)
  let ?m = "usermap_get_uid_or_default (usermap s) u u"
  have bk: "usermap_get_uid_or_default (usermap_reverse s) ?m ?m = u"
    by (rule uids.get_there_and_back [OF maps inv sh])
  show ?thesis using one(1)
  proof
    assume off: "uid_offset s = 0"
    then have v: "v = ?m" "uint v < 2 ^ 31"
      using shown by (auto simp: mapped_uid_def apply_offset_eq offset_id_0 split: if_splits)
    then have "unapply_uid_offset s u = Some u" using off small by (simp add: unapply_offset_eq offset_id_0)
    then show ?thesis using no_id_not_small [OF v(2)] bk by (simp add: chown_uid_def normal v(1))
  next
    assume empty: "user_abs (usermap s) = Map.empty"
    then have "user_abs (usermap_reverse s) = Map.empty" using inv inverse_maps_empty by simp
    then have rev: "usermap_get_uid_or_default (usermap_reverse s) v v = v" using maps by (simp add: get_uid_abs)
    have "apply_uid_offset s u = Some v" using shown empty maps by (simp add: mapped_uid_def get_uid_abs)
    from unapply_apply [OF one(2) this small] show ?thesis by (simp add: chown_uid_def normal rev)
  qed
qed

section \<open>Attributes\<close>

lemma S_IFLNK_test: "m AND S_IFMT = t \<Longrightarrow> t \<in> {S_IFSOCK, S_IFLNK, S_IFREG, S_IFBLK, S_IFDIR, S_IFCHR, S_IFIFO} \<Longrightarrow>
   m AND S_IFLNK = S_IFLNK \<longleftrightarrow> S_ISLNK m"
proof -
  assume t: "m AND S_IFMT = t" "t \<in> {S_IFSOCK, S_IFLNK, S_IFREG, S_IFBLK, S_IFDIR, S_IFCHR, S_IFIFO}"
  have "m AND S_IFLNK = (m AND S_IFMT) AND S_IFLNK" by (simp add: and.assoc)
  then show ?thesis using t by (auto simp: S_ISLNK_def)
qed

text \<open>A mode that differs from another only by permissions taken away.\<close>

definition weaker :: "mode_t \<Rightarrow> mode_t \<Rightarrow> bool" where
  "weaker m' m \<longleftrightarrow> non_perm m' = non_perm m \<and> perms_of m' \<subseteq> perms_of m"

lemma weaker_and_not: "non_perm bits = 0 \<Longrightarrow> weaker m' m \<Longrightarrow> weaker (m' AND NOT bits) m"
  unfolding weaker_def perms_of_AND non_perm_AND_NOT by blast

lemma probe_access_weaker:
  assumes "non_perm bits = 0" and "weaker m1 m"
    and "\<And>m2. weaker m2 m \<Longrightarrow> safe (\<lambda>_. True) Q (k (st\<lparr>st_mode := m2\<rparr>))"
  shows "safe (\<lambda>_. True) Q (probe_access p a bits (st\<lparr>st_mode := m1\<rparr>) k)"
  using assms(2,3) weaker_and_not [OF assms(1,2)] by (auto simp: probe_access_def)

definition reported_mode :: "Settings \<Rightarrow> mode_t \<Rightarrow> mode_t \<Rightarrow> bool" where
  "reported_mode s m m' \<longleftrightarrow>
     non_perm m' = non_perm m
     \<and> (if m AND S_IFLNK = S_IFLNK then m' = m
        else perms_of m' \<subseteq> chmod_spec (S_ISDIR m) (perms_of m) (permchain_of s)
          \<and> (\<not> realistic_permissions s \<longrightarrow> perms_of m' = chmod_spec (S_ISDIR m) (perms_of m) (permchain_of s)))"

lemma getattr_perms_result:
  assumes wf: "wf_chain (permchain_of s)"
  shows "safe (\<lambda>_. True) (\<lambda>r. \<exists>m. r = Inr (st\<lparr>st_mode := m\<rparr>) \<and> reported_mode s (st_mode st) m) (getattr_perms s p st)"
proof (cases "st_mode st AND S_IFLNK = S_IFLNK")
  case True
  have "safe (\<lambda>_. True) (\<lambda>r. \<exists>m. r = Inr (st\<lparr>st_mode := m\<rparr>) \<and> reported_mode s (st_mode st) m) (Ret (Inr st))"
    using True by (auto simp: reported_mode_def intro!: exI [of _ "st_mode st"])
  then show ?thesis using True by (simp add: getattr_perms_def)
next
  case False
  obtain m where m: "permchain_apply (permchain_of s) (st_mode st) = Some m" "non_perm m = non_perm (st_mode st)"
      "perms_of m = chmod_spec (S_ISDIR (st_mode st)) (perms_of (st_mode st)) (permchain_of s)"
    using permchain_apply_spec [OF wf] by blast
  let ?Q = "\<lambda>r. \<exists>m'. r = Inr (st\<lparr>st_mode := m'\<rparr>) \<and> reported_mode s (st_mode st) m'"
  have bits: "non_perm o444 = 0" "non_perm o222 = 0" "non_perm o111 = 0" by (simp_all add: non_perm_def)
  have self: "weaker m m" by (simp add: weaker_def)
  have "safe (\<lambda>_. True) ?Q
      (probe_access p R_OK o444 (st\<lparr>st_mode := m\<rparr>) (\<lambda>st.
       probe_access p W_OK o222 st (\<lambda>st. probe_access p X_OK o111 st (\<lambda>st. Ret (Inr st)))))"
    if real: "realistic_permissions s"
  proof (intro probe_access_weaker [OF bits(1) self] probe_access_weaker [OF bits(2)] probe_access_weaker [OF bits(3)])
    fix m' assume w: "weaker m' m"
    then have "reported_mode s (st_mode st) m'" using False m real by (auto simp: reported_mode_def weaker_def)
    then show "safe (\<lambda>_. True) ?Q (Ret (Inr (st\<lparr>st_mode := m'\<rparr>)))" by auto
  qed
  moreover have "safe (\<lambda>_. True) ?Q (Ret (Inr (st\<lparr>st_mode := m\<rparr>)))" if "\<not> realistic_permissions s"
    using False m that by (auto simp: reported_mode_def)
  ultimately show ?thesis
    using False m(1) by (cases "realistic_permissions s") (simp_all add: getattr_perms_def asserted_def Let_def)
qed

text \<open>The mode before the permission rules: a block device may be shown as a regular file.\<close>

definition shown_type :: "Settings \<Rightarrow> mode_t \<Rightarrow> mode_t" where
  "shown_type s m =
     (if block_devices_as_files s \<and> S_ISBLK m then m XOR (S_IFBLK OR S_IFREG) else m)"

lemma getattr_block_result:
  assumes "wf_chain (permchain_of s)"
  shows "safe (\<lambda>_. True) (\<lambda>r. \<forall>b. r = Inr b \<longrightarrow>
      (\<exists>m n. b = a\<lparr>st_mode := m, st_size := n\<rparr> \<and> reported_mode s (shown_type s (st_mode a)) m
        \<and> (\<not> (block_devices_as_files s \<and> S_ISBLK (st_mode a)) \<longrightarrow> n = st_size a)))
    (getattr_block s p a (getattr_perms s p))"
proof -
  have perms: "safe (\<lambda>_. True) (\<lambda>r. \<forall>b. r = Inr b \<longrightarrow> Q b) (getattr_perms s p c)"
    if "\<And>m. reported_mode s (st_mode c) m \<Longrightarrow> Q (c\<lparr>st_mode := m\<rparr>)" for Q c
    by (rule safe_mono [OF getattr_perms_result [OF assms]]) (use that in auto)
  show ?thesis
  proof (cases "block_devices_as_files s \<and> S_ISBLK (st_mode a)")
    case True
    let ?a = "\<lambda>n. a\<lparr>st_mode := st_mode a XOR (S_IFBLK OR S_IFREG), st_size := n\<rparr>"
    have "safe (\<lambda>_. True) (\<lambda>r. \<forall>b. r = Inr b \<longrightarrow> (\<exists>m n. b = a\<lparr>st_mode := m, st_size := n\<rparr>
        \<and> reported_mode s (shown_type s (st_mode a)) m)) (getattr_perms s p (?a n))" for n
    proof (rule perms)
      fix m assume "reported_mode s (st_mode (?a n)) m"
      then have "?a n\<lparr>st_mode := m\<rparr> = a\<lparr>st_mode := m, st_size := n\<rparr> \<and> reported_mode s (shown_type s (st_mode a)) m"
        using True by (cases a) (simp add: shown_type_def)
      then show "\<exists>m' n'. ?a n\<lparr>st_mode := m\<rparr> = a\<lparr>st_mode := m', st_size := n'\<rparr>
          \<and> reported_mode s (shown_type s (st_mode a)) m'" by blast
    qed
    then show ?thesis using True by (auto simp: getattr_block_def Let_def split: sum.split)
  next
    case False
    have "safe (\<lambda>_. True) (\<lambda>r. \<forall>b. r = Inr b \<longrightarrow> (\<exists>m n. b = a\<lparr>st_mode := m, st_size := n\<rparr>
        \<and> reported_mode s (shown_type s (st_mode a)) m \<and> n = st_size a)) (getattr_perms s p a)"
      by (rule perms) (use False in \<open>auto simp: shown_type_def\<close>)
    moreover have "getattr_block s p a (getattr_perms s p) = getattr_perms s p a"
      using False by (auto simp: getattr_block_def)
    ultimately show ?thesis using False by simp
  qed
qed

lemma getattr_owner_fields:
  assumes "getattr_owner s a = Some b"
  shows "\<exists>u g. mapped_uid s (st_uid a) = Some u \<and> mapped_gid s (st_gid a) = Some g
    \<and> b = a\<lparr>st_uid := if new_uid s \<noteq> no_id then new_uid s else u,
            st_gid := if new_gid s \<noteq> no_id then new_gid s else g,
            st_ctim := if ctime_from_mtime s then st_mtim a else st_ctim a\<rparr>"
  using assms
  by (auto simp: getattr_owner_def mapped_uid_def mapped_gid_def Let_def split: option.splits if_splits)

lemma getattr_common_plain:
  assumes "\<not> is_mirroring_enabled s" "\<not> mirrored_users_only s" "getattr_owner s a = Some b"
  shows "getattr_common s fc p a =
    getattr_block s p (if hide_hard_links s then b\<lparr>st_nlink := 1\<rparr> else b) (getattr_perms s p)"
  using assms by (simp add: getattr_common_def)

text \<open>
  The owner in a successful answer: the forced one, or the mapped and shifted one, or the caller, when users are mirrored.
\<close>

lemma getattr_common_owner:
  assumes "settings_ok s" and res: "fst (run K (getattr_common s fc p a) st) = Some (Inr b)"
  shows "\<exists>u. mapped_uid s (st_uid a) = Some u
    \<and> (st_uid b = (if new_uid s \<noteq> no_id then new_uid s else u) \<or> is_mirroring_enabled s \<and> st_uid b = fc_uid fc)"
proof (cases "getattr_owner s a")
  case None
  then show ?thesis using res by (simp add: getattr_common_def)
next
  case (Some c)
  then obtain u where u: "mapped_uid s (st_uid a) = Some u" "st_uid c = (if new_uid s \<noteq> no_id then new_uid s else u)"
    using getattr_owner_fields [OF Some] by auto
  let ?Q = "\<lambda>r. \<forall>b. r = Inr b \<longrightarrow> st_uid b = st_uid c \<or> is_mirroring_enabled s \<and> st_uid b = fc_uid fc"
  have block: "safe (\<lambda>_. True) ?Q (getattr_block s p d (getattr_perms s p))"
    if "st_uid d = st_uid c \<or> is_mirroring_enabled s \<and> st_uid d = fc_uid fc" for d
    by (rule safe_mono [OF getattr_block_result [OF settings_okD(1) [OF assms(1)]]]) (use that in auto)
  have mirrored: "safe (\<lambda>_. True) (\<lambda>m. m \<longrightarrow> is_mirroring_enabled s)
      (if is_mirroring_enabled s then is_mirrored_user s (fc_uid fc) else Ret False)"
    using safe_mono [OF is_mirrored_user_safe [of "[]" "\<lambda>_. True"]] by simp
  have "safe (\<lambda>_. True) ?Q (getattr_common s fc p a)"
    unfolding getattr_common_def Some option.case safe_pbind
    by (rule safe_mono [OF mirrored])
       (use block [of c] block [of "c\<lparr>st_nlink := 1\<rparr>"] block [of "c\<lparr>st_uid := fc_uid fc\<rparr>"]
          block [of "c\<lparr>st_uid := fc_uid fc, st_nlink := 1\<rparr>"] in \<open>auto simp: Let_def\<close>)
  from run_safe [OF this, where K = K and s = st] res u show ?thesis by auto
qed

text \<open>
  The exact mode of an answer: the file type and the special bits stay, the permissions are those of the rules without
  the kinds of access that the kernel denies to bindfs itself, with \<^verbatim>\<open>--realistic-permissions\<close>.
\<close>

fun access_of :: "perm \<Rightarrow> access_mode" where
  "access_of Read = R_OK"
| "access_of Write = W_OK"
| "access_of Exec = X_OK"

definition exact_mode :: "Settings \<Rightarrow> (access_mode \<Rightarrow> bool) \<Rightarrow> mode_t \<Rightarrow> mode_t \<Rightarrow> bool" where
  "exact_mode s denied m m' \<longleftrightarrow>
     non_perm m' = non_perm m
     \<and> (if m AND S_IFLNK = S_IFLNK then m' = m
        else perms_of m' = chmod_spec (S_ISDIR m) (perms_of m) (permchain_of s)
               - {(w, q). realistic_permissions s \<and> denied (access_of q)})"

lemma run_probe_access:
  assumes "\<And>c u. fst (k_unit K c u) = err c"
  shows "fst (run K (probe_access p a bits st k) u) =
    fst (run K (k (if err (On_path (Access a) p) = None then st else st\<lparr>st_mode := st_mode st AND NOT bits\<rparr>))
           (snd (k_unit K (On_path (Access a) p) u)))"
  using assms by (simp add: probe_access_def split_beta)

lemma perms_of_probed:
  "perms_of ((if r then m else m AND NOT o444)) = perms_of m - {(w, q). q = Read \<and> \<not> r}"
  "perms_of ((if r then m else m AND NOT o222)) = perms_of m - {(w, q). q = Write \<and> \<not> r}"
  "perms_of ((if r then m else m AND NOT o111)) = perms_of m - {(w, q). q = Exec \<and> \<not> r}"
  by (simp_all only: perms_of_AND perms_of_NOT perms_of_o444 perms_of_o222 perms_of_o111 split: if_split) auto

lemma run_getattr_perms:
  assumes wf: "wf_chain (permchain_of s)" and err: "\<And>c u. fst (k_unit K c u) = err c"
  shows "\<exists>m. fst (run K (getattr_perms s p a) st) = Some (Inr (a\<lparr>st_mode := m\<rparr>))
    \<and> exact_mode s (\<lambda>x. err (On_path (Access x) p) \<noteq> None) (st_mode a) m"
proof (cases "st_mode a AND S_IFLNK = S_IFLNK")
  case True
  then show ?thesis by (auto simp: getattr_perms_def exact_mode_def intro!: exI [of _ "st_mode a"])
next
  case False
  obtain m where m: "permchain_apply (permchain_of s) (st_mode a) = Some m" "non_perm m = non_perm (st_mode a)"
      "perms_of m = chmod_spec (S_ISDIR (st_mode a)) (perms_of (st_mode a)) (permchain_of s)"
    using permchain_apply_spec [OF wf] by blast
  let ?ok = "\<lambda>x. err (On_path (Access x) p) = None"
  let ?m1 = "if ?ok R_OK then m else m AND NOT o444"
  let ?m2 = "if ?ok W_OK then ?m1 else ?m1 AND NOT o222"
  let ?m3 = "if ?ok X_OK then ?m2 else ?m2 AND NOT o111"
  have bits: "non_perm o444 = 0" "non_perm o222 = 0" "non_perm o111 = 0" by (simp_all add: non_perm_def)
  have "non_perm ?m3 = non_perm m" using non_perm_AND_NOT [OF bits(1)] non_perm_AND_NOT [OF bits(2)] non_perm_AND_NOT [OF bits(3)]
    by simp
  moreover have "perms_of ?m3 = perms_of m - {(w, q). \<not> ?ok (access_of q)}"
  proof (rule set_eqI)
    fix x :: "who \<times> perm"
    obtain w q where "x = (w, q)" by (cases x)
    then show "x \<in> perms_of ?m3 \<longleftrightarrow> x \<in> perms_of m - {(w, q). \<not> ?ok (access_of q)}"
      unfolding perms_of_probed by (cases q) simp_all
  qed
  ultimately have "exact_mode s (\<lambda>x. \<not> ?ok x) (st_mode a) (if realistic_permissions s then ?m3 else m)"
    using False m by (simp add: exact_mode_def)
  moreover have "fst (run K (getattr_perms s p a) st) = Some (Inr (a\<lparr>st_mode := if realistic_permissions s then ?m3 else m\<rparr>))"
    using False m(1) by (simp add: getattr_perms_def asserted_def Let_def run_probe_access [of K err, OF err])
  ultimately show ?thesis by blast
qed

text \<open>The size of an answer: for a block device shown as a file, the length of the device, if it can be opened and its length
  is below 2^63.\<close>

definition exact_size :: "Settings \<Rightarrow> errno + fd \<Rightarrow> (fd \<Rightarrow> int) \<Rightarrow> stat \<Rightarrow> errno + int" where
  "exact_size s opened len a =
     (if block_devices_as_files s \<and> S_ISBLK (st_mode a)
      then case opened of Inl e \<Rightarrow> Inl e | Inr d \<Rightarrow> if len d < 2 ^ 63 then Inr (len d) else Inl EOVERFLOW
      else Inr (st_size a))"

lemma sint_of_uint64:
  assumes "0 \<le> n" and "n < 2 ^ 64"
  shows "sint (word_of_int n :: 64 word) = (if n < 2 ^ 63 then n else n - 2 ^ 64)"
proof -
  have small: "sint (word_of_int m :: 64 word) = m" if "- (2 ^ 63) \<le> m" "m < 2 ^ 63" for m
    using that by (simp add: sint_sbintrunc' signed_take_bit_int_eq_self_iff)
  show ?thesis
  proof (cases "n < 2 ^ 63")
    case False
    have eq: "(word_of_int n :: 64 word) = word_of_int (n - 2 ^ 64)" by simp
    have "sint (word_of_int (n - 2 ^ 64) :: 64 word) = n - 2 ^ 64" using False assms by (intro small) simp_all
    then show ?thesis unfolding eq if_not_P [OF False] .
  qed (use small [of n] assms in simp)
qed

lemma run_getattr_block:
  assumes "\<And>u. fst (k_int K (On_path (Open 0 None) p) u) = opened"
    and "\<And>d u. snd (fst (k_pair K (On_fd Blkgetsize64 d) u)) = len d" and "\<And>d. 0 \<le> len d \<and> len d < 2 ^ 64"
  shows "case exact_size s opened len a of
      Inl e \<Rightarrow> fst (run K (getattr_block s p a k) st) = Some (Inl e)
    | Inr n \<Rightarrow> \<exists>u. fst (run K (getattr_block s p a k) st)
        = fst (run K (k (a\<lparr>st_mode := shown_type s (st_mode a), st_size := n\<rparr>)) u)"
proof (cases "block_devices_as_files s \<and> S_ISBLK (st_mode a)")
  case True
  show ?thesis
  proof (cases opened)
    case (Inr d)
    from assms(3) [of d] have "sint (word_of_int (len d) :: 64 word) = (if len d < 2 ^ 63 then len d else len d - 2 ^ 64)"
      by (intro sint_of_uint64) simp_all
    with True Inr assms(1,2) assms(3) [of d] show ?thesis
      by (cases "len d < 2 ^ 63")
         (auto simp: exact_size_def getattr_block_def shown_type_def Let_def split_beta linorder_not_less)
  qed (use True assms in \<open>simp add: exact_size_def getattr_block_def Let_def split_beta\<close>)
qed (auto simp: exact_size_def getattr_block_def shown_type_def)

section \<open>Changing the mode\<close>

text \<open>Flipping the bits of \<open>x\<close> in which two modes differ, and the bits that changes.\<close>

lemma xor_within:
  fixes m :: mode_t
  assumes "a AND x = x"
  shows "(m XOR (((m AND a) XOR (n AND a)) AND x)) XOR m = (m XOR n) AND x"
proof (rule bit_word_eqI)
  fix i
  have "bit x i \<Longrightarrow> bit a i" using assms bit_and_iff [of a x i] by simp
  then show "bit ((m XOR (((m AND a) XOR (n AND a)) AND x)) XOR m) i = bit ((m XOR n) AND x) i"
    by (auto simp: bit_simps)
qed

section \<open>Properties\<close>

text \<open>
  C11. What \<^verbatim>\<open>getattr\<close> reports, exactly, when no users are mirrored, for any kernel whose answers to calls that return only an
  error number, to the opening of the file and to the question for the length of a device do not depend on when they are asked.
  The request fails with EIO when the mapped owner or group plus its offset is out of range, and for a block device shown as a
  file it fails as the opening of the device does, or with EOVERFLOW when the device has 2^63 bytes or more.  Otherwise the owner
  and group are the forced ones, or the stored ones sent through the user map and the offset; the file type is the stored one
  (regular for a block device shown as a file); the permissions are those the permission rules give, less, with
  \<^verbatim>\<open>--realistic-permissions\<close>, each kind of access that \<^verbatim>\<open>access\<close> denies on the path (a symbolic link keeps its mode); the size is
  the stored one, or the length of the device; the link count and the change time follow their options; everything else is
  passed through.
\<close>

theorem getattr_reports:
  assumes "settings_ok s" and "\<not> is_mirroring_enabled s" and "\<not> mirrored_users_only s"
    and err: "\<And>c u. fst (k_unit K c u) = err c"
    and opened: "\<And>u. fst (k_int K (On_path (Open 0 None) p) u) = opened"
    and len: "\<And>d u. snd (fst (k_pair K (On_fd Blkgetsize64 d) u)) = len d" "\<And>d. 0 \<le> len d \<and> len d < 2 ^ 64"
  shows "case (mapped_uid s (st_uid a), mapped_gid s (st_gid a), exact_size s opened len a) of
      (Some u, Some g, Inr n) \<Rightarrow>
        \<exists>m. exact_mode s (\<lambda>x. err (On_path (Access x) p) \<noteq> None) (shown_type s (st_mode a)) m
          \<and> fst (run K (getattr_common s fc p a) st) = Some (Inr
              (a\<lparr>st_uid := if new_uid s \<noteq> no_id then new_uid s else u,
                 st_gid := if new_gid s \<noteq> no_id then new_gid s else g,
                 st_ctim := if ctime_from_mtime s then st_mtim a else st_ctim a,
                 st_nlink := if hide_hard_links s then 1 else st_nlink a,
                 st_mode := m, st_size := n\<rparr>))
    | (Some u, Some g, Inl e) \<Rightarrow> fst (run K (getattr_common s fc p a) st) = Some (Inl e)
    | _ \<Rightarrow> fst (run K (getattr_common s fc p a) st) = Some (Inl EIO)"
proof (cases "getattr_owner s a")
  case None
  then show ?thesis
    by (auto simp: getattr_common_def getattr_owner_def mapped_uid_def mapped_gid_def Let_def split: option.splits if_splits)
next
  case (Some c)
  let ?c = "if hide_hard_links s then c\<lparr>st_nlink := 1\<rparr> else c"
  obtain u g where c: "mapped_uid s (st_uid a) = Some u" "mapped_gid s (st_gid a) = Some g"
      "c = a\<lparr>st_uid := if new_uid s \<noteq> no_id then new_uid s else u,
             st_gid := if new_gid s \<noteq> no_id then new_gid s else g,
             st_ctim := if ctime_from_mtime s then st_mtim a else st_ctim a\<rparr>"
    using getattr_owner_fields [OF Some] by blast
  have size: "exact_size s opened len ?c = exact_size s opened len a" by (auto simp: exact_size_def c(3))
  have mode: "st_mode ?c = st_mode a" by (simp add: c(3))
  note block = run_getattr_block [of K p opened len s ?c "getattr_perms s p" st, OF opened len]
  show ?thesis
  proof (cases "exact_size s opened len a")
    case (Inl e)
    then show ?thesis using block by (simp add: c(1,2) size getattr_common_plain [OF assms(2,3) Some])
  next
    case (Inr n)
    let ?d = "?c\<lparr>st_mode := shown_type s (st_mode a), st_size := n\<rparr>"
    obtain v where "fst (run K (getattr_common s fc p a) st) = fst (run K (getattr_perms s p ?d) v)"
      using block by (auto simp: size mode Inr getattr_common_plain [OF assms(2,3) Some])
    with run_getattr_perms [of s K err p ?d v, OF settings_okD(1) [OF assms(1)] err] obtain m where
      "exact_mode s (\<lambda>x. err (On_path (Access x) p) \<noteq> None) (shown_type s (st_mode a)) m"
      "fst (run K (getattr_common s fc p a) st) = Some (Inr (?d\<lparr>st_mode := m\<rparr>))" by auto
    then show ?thesis by (auto simp: c Inr)
  qed
qed

text \<open>
  A block device of 512 bytes of user 1000, which bindfs may read and write but not execute, shown as a file owned by user 77.
\<close>

theorem getattr_reports_witness:
  "\<exists>m. fst (run ((example_kernel (example_stat 0 0) [])\<lparr>k_unit := \<lambda>c u. (if c = On_path (Access X_OK) ''x'' then Some EACCES else None, u),
        k_pair := \<lambda>c u. ((0, 512), u)\<rparr>)
      (getattr_common (example_settings\<lparr>new_uid := 77, block_devices_as_files := True, realistic_permissions := True\<rparr>)
        \<lparr>fc_uid = 1, fc_gid = 1\<rparr> ''x'' (example_stat 0x61FF 1000)) ()) = Some (Inr (example_stat m 1000\<lparr>st_uid := 77, st_size := 512\<rparr>))
    \<and> perms_of m = UNIV \<times> {Read, Write} \<and> S_ISREG m"
proof -
  let ?s = "example_settings\<lparr>new_uid := 77, block_devices_as_files := True, realistic_permissions := True\<rparr>"
  let ?a = "example_stat 0x61FF 1000" and ?err = "\<lambda>c. if c = On_path (Access X_OK) ''x'' then Some EACCES else None"
  let ?K = "(example_kernel (example_stat 0 0) [])\<lparr>k_unit := \<lambda>c u. (?err c, u), k_pair := \<lambda>c u. ((0, 512), u)\<rparr>"
  have ok: "settings_ok ?s" using example_settings_ok(1) by (simp add: settings_ok_def dest_of_def)
  have m: "\<not> is_mirroring_enabled ?s" "\<not> mirrored_users_only ?s"
    by (simp_all add: is_mirroring_enabled_def example_settings_def)
  have k: "fst (k_unit ?K c u) = ?err c" "fst (k_int ?K c u) = Inr 5" "snd (fst (k_pair ?K c u)) = 512"
    for c u by (simp_all add: example_kernel_def)
  have ids: "mapped_uid ?s (st_uid ?a) = Some 1000" "mapped_gid ?s (st_gid ?a) = Some 1000" by code_simp+
  have size: "exact_size ?s (Inr 5) (\<lambda>_. 512) ?a = Inr 512" by code_simp
  have type: "shown_type ?s (st_mode ?a) = 0x81FF" by code_simp
  have reg: "S_ISREG m" if "non_perm m = non_perm 0x81FF" for m
    using arg_cong [OF that, of "\<lambda>x. x AND S_IFMT"] by (simp add: non_perm_def and.assoc S_ISREG_def)
  have "bit (0x81FF :: mode_t) (who_ix w + perm_ix q)" for w q by (cases w; cases q) simp_all
  then have all: "perms_of 0x81FF = UNIV" by (auto simp: perms_of_def)
  have chain: "permchain_of ?s = permchain_create" "realistic_permissions ?s" "\<not> hide_hard_links ?s" "\<not> ctime_from_mtime ?s"
    "new_gid ?s = no_id" "new_uid ?s = 77" by (simp_all add: example_settings_def)
  have spec: "chmod_spec d P permchain_create = P" for d P
    by (simp add: chmod_spec_def permchain_create_def chmod_spec_node_def permchain_node_def)
  have left: "UNIV - {(w, q). True \<and> ?err (On_path (Access (access_of q)) ''x'') \<noteq> None} = UNIV \<times> {Read, Write}"
    by (auto split: if_splits elim!: access_of.elims) (metis access_of.simps perm.exhaust)
  from getattr_reports [OF ok m k(1) k(2) k(3), where p = "''x''" and a = ?a and fc = "\<lparr>fc_uid = 1, fc_gid = 1\<rparr>" and st = "()"]
  obtain m where "exact_mode ?s (\<lambda>x. ?err (On_path (Access x) ''x'') \<noteq> None) 0x81FF m"
    and run: "fst (run ?K (getattr_common ?s \<lparr>fc_uid = 1, fc_gid = 1\<rparr> ''x'' ?a) ())
      = Some (Inr (example_stat m 1000\<lparr>st_uid := 77, st_size := 512\<rparr>))"
    unfolding ids size type by (auto simp: chain example_stat_def)
  then have "S_ISREG m" "perms_of m = UNIV \<times> {Read, Write}"
    using reg left by (simp_all add: exact_mode_def chain all spec)
  with run show ?thesis by blast
qed

text \<open>
  With \<^verbatim>\<open>--mirror-only\<close>, a caller other than root either sees a file as its own or sees no
  permission on it at all.
\<close>

lemma mirror_only_denies:
  assumes "settings_ok s" and "mirrored_users_only s" and "fc_uid fc \<noteq> 0"
    and "fst (run K (getattr_common s fc p a) st) = Some (Inr b)"
  shows "st_uid b = fc_uid fc \<or> perms_of (st_mode b) = {}"
proof (cases "getattr_owner s a")
  case None
  then show ?thesis using assms(4) by (simp add: getattr_common_def)
next
  case (Some c)
  let ?Q = "\<lambda>r. \<forall>b. r = Inr b \<longrightarrow> st_uid b = fc_uid fc \<or> perms_of (st_mode b) = {}"
  have block: "safe (\<lambda>_. True) ?Q (getattr_block s p d (getattr_perms s p))" if "st_uid d = fc_uid fc" for d
    by (rule safe_mono [OF getattr_block_result [OF settings_okD(1) [OF assms(1)]]]) (use that in auto)
  have denied: "perms_of (m AND NOT o777) = {}" for m
    unfolding perms_of_AND perms_of_NOT perms_of_o777 by simp
  have "safe (\<lambda>_. True) (\<lambda>_. True) (if is_mirroring_enabled s then is_mirrored_user s (fc_uid fc) else Ret False)"
    using is_mirrored_user_safe [of "[]" "\<lambda>_. True"] by simp
  then have "safe (\<lambda>_. True) ?Q (getattr_common s fc p a)"
    unfolding getattr_common_def Some option.case safe_pbind
    by (rule safe_mono)
       (use assms(2,3) block [of "c\<lparr>st_uid := fc_uid fc\<rparr>"] block [of "c\<lparr>st_uid := fc_uid fc, st_nlink := 1\<rparr>"]
          denied [of "st_mode c"] in \<open>simp_all add: Let_def\<close>)
  from run_safe [OF this, where K = K and s = st] assms(4) show ?thesis by auto
qed

lemma mirror_only_denies_example:
  "\<exists>b. fst (run (example_kernel (example_stat 0 0) []) (getattr_common (example_settings\<lparr>mirrored_users_only := True\<rparr>)
      \<lparr>fc_uid = 1, fc_gid = 1\<rparr> ''x'' (example_stat 0x81FF 1000)) ()) = Some (Inr b)
     \<and> (st_uid b = 1 \<or> perms_of (st_mode b) = {})"
proof -
  let ?s = "example_settings\<lparr>mirrored_users_only := True\<rparr>" and ?fc = "\<lparr>fc_uid = 1, fc_gid = 1\<rparr>"
  have ok: "settings_ok ?s" using example_settings_ok(1) by (simp add: settings_ok_def dest_of_def)
  have run: "fst (run (example_kernel (example_stat 0 0) []) (getattr_common ?s ?fc ''x'' (example_stat 0x81FF 1000)) ())
      = Some (Inr (example_stat 0x8000 1000))" by code_simp
  from mirror_only_denies [OF ok _ _ run] run show ?thesis by auto
qed

text \<open>
  C13. Chown and getattr are inverse: setting the owner that \<^verbatim>\<open>getattr\<close> reports for a file asks the kernel to store the owner the
  file already has, and for nothing else.  This is for the normal chown policy, without \<^verbatim>\<open>--force-user\<close>, \<^verbatim>\<open>--mirror\<close> and
  \<^verbatim>\<open>--resolve-symlinks\<close>; the two maps are inverse to each other and at most one of map and offset is used; the stored owner
  is below 2^31 and no other user is shown under its id.
\<close>

theorem chown_getattr_roundtrip:
  assumes "settings_ok s" and "maps_ok (usermap s) (usermap_reverse s)" and "chown_policy s = CHOWN_NORMAL"
    and "uid_offset s = 0 \<or> user_abs (usermap s) = Map.empty" and "uid_offset s \<noteq> - (2 ^ 63)"
    and "new_uid s = no_id" and "\<not> is_mirroring_enabled s" and "\<not> resolve_symlinks s"
    and "fst (k_stat K (On_path Lstat (relative_part p)) st) = Inr a"
    and "\<not> shadowed (user_abs (usermap s)) (st_uid a)" and "uint (st_uid a) < 2 ^ 31"
    and "fst (run K (bindfs_getattr s fc (Some p)) st) = Some (Inr b)"
  shows "fst (snd (run K' (bindfs_chown s (Some p) (st_uid b) no_id) st')) = [On_path (Lchown (st_uid a) no_id) (relative_part p)]"
proof -
  have "fst (run K (getattr_common s fc (relative_part p) a) (snd (k_stat K (On_path Lstat (relative_part p)) st))) = Some (Inr b)"
    using assms(8,9,12) by (simp add: bindfs_getattr_def bind_ok_def process_path_def split_beta)
  then have "mapped_uid s (st_uid a) = Some (st_uid b)"
    using getattr_common_owner [OF assms(1)] assms(6,7) by fastforce
  then have "chown_uid s (st_uid b) = Inr (st_uid a)" by (rule chown_shown [OF assms(2-5,10,11)])
  moreover have "st_uid a \<noteq> no_id" using assms(11) by (rule no_id_not_small)
  ultimately show ?thesis
    using assms(8)
    by (simp add: bindfs_chown_def chown_gid_def bind_ok_def process_path_def or_fail_def split_beta split: option.split)
qed

theorem chown_getattr_roundtrip_witness:
  "\<exists>b. fst (run (example_kernel (example_stat 0x81A4 7) []) (bindfs_getattr (example_settings\<lparr>uid_offset := 100\<rparr>)
        \<lparr>fc_uid = 1, fc_gid = 1\<rparr> (Some ''/x'')) ()) = Some (Inr b) \<and> st_uid b = 107
   \<and> fst (snd (run (example_kernel (example_stat 0 0) []) (bindfs_chown (example_settings\<lparr>uid_offset := 100\<rparr>) (Some ''/x'') (st_uid b) no_id) ()))
     = [On_path (Lchown 7 no_id) ''x'']"
proof -
  let ?s = "example_settings\<lparr>uid_offset := 100\<rparr>" and ?a = "example_stat 0x81A4 7" and ?b = "(example_stat 0x81A4 7)\<lparr>st_uid := 107\<rparr>"
  have ok: "maps_ok (usermap ?s) (usermap_reverse ?s)" "settings_ok ?s" "chown_policy ?s = CHOWN_NORMAL" "new_uid ?s = no_id"
      "\<not> is_mirroring_enabled ?s" "\<not> resolve_symlinks ?s"
    using example_settings_ok(1)
    by (simp_all add: settings_ok_def dest_of_def maps_ok_def usermap_create_ok inverse_maps_def is_mirroring_enabled_def)
       (simp_all add: example_settings_def usermap_create_ok)
  have m: "user_abs (usermap ?s) = Map.empty" by (simp add: example_settings_def usermap_create_ok)
  have k: "fst (k_stat (example_kernel ?a []) (On_path Lstat (relative_part ''/x'')) ()) = Inr ?a" by (simp add: example_kernel_def)
  have got: "fst (run (example_kernel ?a []) (bindfs_getattr ?s \<lparr>fc_uid = 1, fc_gid = 1\<rparr> (Some ''/x'')) ()) = Some (Inr ?b)"
    by code_simp
  have p: "relative_part ''/x'' = ''x''" "st_uid ?a = 7" "st_uid ?b = 107" by (simp_all add: relative_part_def example_stat_def)
  have "fst (snd (run (example_kernel (example_stat 0 0) []) (bindfs_chown ?s (Some ''/x'') (st_uid ?b) no_id) ()))
      = [On_path (Lchown (st_uid ?a) no_id) (relative_part ''/x'')]"
    by (rule chown_getattr_roundtrip [OF ok(2,1,3) _ _ ok(4-6) k _ _ got]) (simp_all only: m shadowed_def p, simp_all)
  with got p show ?thesis by metis
qed

text \<open>
  When a map and an offset are both in force (\<^verbatim>\<open>--map-passwd\<close> with \<^verbatim>\<open>--uid-offset\<close> is accepted), the
  two directions do not match: \<^verbatim>\<open>getattr\<close> maps first and then adds the offset, while \<^verbatim>\<open>chown\<close> looks the
  shown id up in the reverse map before it subtracts the offset.
\<close>

lemma map_and_offset_do_not_invert:
  "\<exists>f r. usermap_ok f \<and> usermap_ok r \<and> inverse_maps (user_abs f) (user_abs r)
     \<and> (let s = example_settings\<lparr>usermap := f, usermap_reverse := r, uid_offset := 10\<rparr>
        in mapped_uid s 1000 = Some 2010 \<and> chown_uid s 2010 = Inr 2000)"
proof -
  define f where "f = snd (usermap_add_uid usermap_create 1000 2000)"
  define r where "r = snd (usermap_add_uid usermap_create 2000 1000)"
  have fst: "fst (usermap_add_uid usermap_create 1000 2000) = usermap_status_ok"
    "fst (usermap_add_uid usermap_create 2000 1000) = usermap_status_ok" by code_simp+
  have add: "usermap_add_uid usermap_create 1000 2000 = (usermap_status_ok, f)"
    "usermap_add_uid usermap_create 2000 1000 = (usermap_status_ok, r)"
    unfolding f_def r_def using fst by (metis prod.collapse)+
  have inv: "inverse_maps (user_abs usermap_create) (user_abs usermap_create)"
    by (simp add: usermap_create_ok inverse_maps_def)
  from uids.add_both_inverse [OF usermap_create_ok(1) usermap_create_ok(1) inv add]
  have ok: "usermap_ok f \<and> usermap_ok r \<and> inverse_maps (user_abs f) (user_abs r)"
    by simp
  have shown: "mapped_uid (example_settings\<lparr>usermap := f, usermap_reverse := r, uid_offset := 10\<rparr>) 1000 = Some 2010"
    unfolding f_def r_def by code_simp
  have "chown_uid (example_settings\<lparr>usermap := f, usermap_reverse := r, uid_offset := 10\<rparr>) 2010 = Inr 2000"
    unfolding f_def r_def by code_simp
  with shown ok show ?thesis by (auto simp: Let_def)
qed

text \<open>
  C28. The offset arithmetic, for users and groups: the 64-bit addition with overflow check succeeds exactly when the integer sum
  (difference, when the offset is taken off again) lies between 0 and 2^31 - 1, and then yields it, and the two directions undo
  each other on ids below 2^31.  The offset is any 64-bit number but the smallest, whose negation overflows.
\<close>

theorem uid_offset_roundtrip:
  assumes "uid_offset s \<noteq> - (2 ^ 63)" and "gid_offset s \<noteq> - (2 ^ 63)"
  shows "(\<forall>v. apply_uid_offset s u = Some v \<longleftrightarrow> uint v = uint u + sint (uid_offset s) \<and> uint v < 2 ^ 31)
    \<and> (\<forall>v. unapply_uid_offset s u = Some v \<longleftrightarrow> uint v = uint u - sint (uid_offset s) \<and> uint v < 2 ^ 31)
    \<and> (\<forall>v. apply_gid_offset s u = Some v \<longleftrightarrow> uint v = uint u + sint (gid_offset s) \<and> uint v < 2 ^ 31)
    \<and> (\<forall>v. unapply_gid_offset s u = Some v \<longleftrightarrow> uint v = uint u - sint (gid_offset s) \<and> uint v < 2 ^ 31)
    \<and> ((\<exists>v. apply_uid_offset s u = Some v) \<longleftrightarrow> uint u + sint (uid_offset s) \<in> {0..<2 ^ 31})
    \<and> (uint u < 2 ^ 31 \<longrightarrow> (\<forall>v. apply_uid_offset s u = Some v \<longleftrightarrow> unapply_uid_offset s v = Some u \<and> uint v < 2 ^ 31)
         \<and> (\<forall>v. apply_gid_offset s u = Some v \<longleftrightarrow> unapply_gid_offset s v = Some u \<and> uint v < 2 ^ 31))"
proof -
  have "(\<exists>v. apply_uid_offset s u = Some v) \<longleftrightarrow> uint u + sint (uid_offset s) \<in> {0..<2 ^ 31}"
    by (simp add: apply_offset_eq offset_id_def)
  then show ?thesis using assms by (auto simp: apply_offset_eq unapply_offset_eq offset_id_iff)
qed

theorem uid_offset_roundtrip_witness:
  "apply_uid_offset (example_settings\<lparr>uid_offset := - 5\<rparr>) 1000 = Some 995
   \<and> unapply_uid_offset (example_settings\<lparr>uid_offset := - 5\<rparr>) 995 = Some 1000
   \<and> apply_uid_offset (example_settings\<lparr>uid_offset := - 5\<rparr>) 3 = None"
proof -
  have "uid_offset (example_settings\<lparr>uid_offset := - 5\<rparr>) \<noteq> - (2 ^ 63)" "gid_offset (example_settings\<lparr>uid_offset := - 5\<rparr>) \<noteq> - (2 ^ 63)"
    by (simp_all add: example_settings_def)
  note r = uid_offset_roundtrip [OF this]
  show ?thesis using r [of 1000] r [of 3] by auto
qed

text \<open>
  C39. Even with no offset configured, the range check applies: a file whose (mapped) owner is 2^31 or
  more cannot be stat'ed at all; the request fails with EIO before any attribute is looked at.
\<close>

theorem getattr_large_uid_fails:
  assumes "uid_offset s = 0" and "2 ^ 31 \<le> uint (usermap_get_uid_or_default (usermap s) (st_uid a) (st_uid a))"
  shows "run K (getattr_common s fc p a) st = (Some (Inl EIO), [], st)"
  using assms by (simp add: getattr_common_def getattr_owner_def Let_def apply_offset_eq offset_id_0)

theorem getattr_large_uid_fails_witness:
  "run (example_kernel (example_stat 0 0) []) (getattr_common example_settings \<lparr>fc_uid = 0, fc_gid = 0\<rparr> ''x''
      (example_stat 0x81A4 0xFFFFFFFE)) () = (Some (Inl EIO), [], ())"
proof (rule getattr_large_uid_fails)
  show "uid_offset example_settings = 0" by (simp add: example_settings_def)
  show "2 ^ 31 \<le> uint (usermap_get_uid_or_default (usermap example_settings) (st_uid (example_stat 0x81A4 0xFFFFFFFE))
      (st_uid (example_stat 0x81A4 0xFFFFFFFE)))" by code_simp
qed

lemma xor_masked:
  fixes m :: mode_t
  assumes "a AND x = x"
  shows "((m AND a) XOR (n AND a)) AND x = (n XOR m) AND x"
proof (rule bit_word_eqI)
  fix i
  have "bit x i \<Longrightarrow> bit a i" using assms bit_and_iff [of a x i] by simp
  then show "bit (((m AND a) XOR (n AND a)) AND x) i = bit ((n XOR m) AND x) i"
    by (auto simp: bit_simps)
qed

text \<open>Without the normal policy, either nothing is done or one mode is set that keeps all but execute bits.\<close>

lemma chmod_by_policy_calls:
  assumes "chmod_policy s \<noteq> CHMOD_NORMAL"
  shows "(\<exists>r. chmod_by_policy s q x mode = Ret r) \<or>
    (\<exists>a m. x = Some a \<and> (m XOR st_mode a) AND o7666 = 0
       \<and> chmod_by_policy s q x mode = or_fail (On_path (Chmod m) q) (Ret (Inr ())))"
proof (cases x)
  case None
  then show ?thesis using assms by (cases "chmod_policy s") (simp_all add: chmod_by_policy_def)
next
  case (Some a)
  let ?m = "st_mode a XOR (((st_mode a AND o7777) XOR (mode AND o7777)) AND o111)"
  have "?m XOR st_mode a = (st_mode a XOR mode) AND o111" by (rule xor_within) simp
  then have i: "(?m XOR st_mode a) AND o7666 = 0" by (simp only:) (simp add: and.assoc)
  have d: "((st_mode a AND o7777) XOR (mode AND o7777)) AND o7666 = (mode XOR st_mode a) AND o7666"
    by (rule xor_masked) simp
  show ?thesis
  proof (cases "chmod_policy s")
    case CHMOD_IGNORE
    then have "chmod_by_policy s q x mode = or_fail (On_path (Chmod ?m) q) (Ret (Inr ()))"
      by (simp add: chmod_by_policy_def Some Let_def)
    with i Some show ?thesis by blast
  next
    case CHMOD_DENY
    then show ?thesis using d by (auto simp: chmod_by_policy_def Some Let_def)
  qed (use assms in simp)
qed

text \<open>
  C24. \<^verbatim>\<open>--chmod-allow-x\<close> under the ignore and deny policies: the only mode ever set is that of a regular
  file, on the requested path, and it differs from the mode the file has in execute bits alone.
  With the deny policy a request to change other bits of a regular file fails with EPERM and sets
  nothing.
\<close>

theorem chmod_allow_x_only_execute:
  assumes "chmod_allow_x s" and "chmod_policy s \<noteq> CHMOD_NORMAL" and "\<not> resolve_symlinks s"
    and "k_stat K (On_path Lstat (relative_part p)) st = (Inr a, st')"
  shows "(\<forall>m q. On_path (Chmod m) q \<in> set (fst (snd (run K (bindfs_chmod s (Some p) mode) st))) \<longrightarrow>
      q = relative_part p \<and> S_ISREG (st_mode a) \<and> (m XOR st_mode a) AND o7666 = 0)
    \<and> (chmod_policy s = CHMOD_DENY \<and> (mode XOR st_mode a) AND o7666 \<noteq> 0 \<longrightarrow>
        run K (bindfs_chmod s (Some p) mode) st = (Some (Inl EPERM), [On_path Lstat (relative_part p)], st'))"
proof -
  let ?x = "if S_ISREG (st_mode a) then Some a else None"
  have run: "run K (bindfs_chmod s (Some p) mode) st =
      logged (On_path Lstat (relative_part p)) (run K (chmod_by_policy s (relative_part p) ?x mode) st')"
    using assms by (simp add: bindfs_chmod_def bind_ok_def process_path_def)
  have deny: "chmod_by_policy s (relative_part p) ?x mode = Ret (Inl EPERM)"
    if "chmod_policy s = CHMOD_DENY" "(mode XOR st_mode a) AND o7666 \<noteq> 0"
    using that xor_masked [of o7777 o7666 "st_mode a" mode] by (simp add: chmod_by_policy_def Let_def)
  show ?thesis
    using chmod_by_policy_calls [OF assms(2), of "relative_part p" ?x mode] deny
    by (auto simp: run or_fail_def logged_def split_beta split: option.splits if_splits)
qed

theorem chmod_allow_x_only_execute_witness:
  "run (example_kernel (example_stat 0x81A4 0) []) (bindfs_chmod (example_settings\<lparr>chmod_allow_x := True,
      chmod_policy := CHMOD_DENY\<rparr>) (Some ''/f'') 0x1FF) () = (Some (Inl EPERM), [On_path Lstat ''f''], ())
   \<and> fst (snd (run (example_kernel (example_stat 0x81A4 0) []) (bindfs_chmod (example_settings\<lparr>chmod_allow_x := True,
      chmod_policy := CHMOD_DENY\<rparr>) (Some ''/f'') 0x1ED) ())) = [On_path Lstat ''f'', On_path (Chmod 0x1ED) ''f'']"
proof
  let ?s = "example_settings\<lparr>chmod_allow_x := True, chmod_policy := CHMOD_DENY\<rparr>"
  have p: "relative_part ''/f'' = ''f''" by (simp add: relative_part_def)
  have "(0x1FF XOR st_mode (example_stat 0x81A4 0)) AND o7666 \<noteq> 0" by (simp add: example_stat_def)
  then show "run (example_kernel (example_stat 0x81A4 0) []) (bindfs_chmod ?s (Some ''/f'') 0x1FF) ()
      = (Some (Inl EPERM), [On_path Lstat ''f''], ())"
    using chmod_allow_x_only_execute [of ?s "example_kernel (example_stat 0x81A4 0) []" "''/f''" "()" "example_stat 0x81A4 0" "()" "0x1FF"]
    by (simp add: p example_settings_def example_kernel_def)
  show "fst (snd (run (example_kernel (example_stat 0x81A4 0) []) (bindfs_chmod ?s (Some ''/f'') 0x1ED) ()))
      = [On_path Lstat ''f'', On_path (Chmod 0x1ED) ''f'']" by code_simp
qed

text \<open>
  C23. What is deleted, when the path is a symbolic link and \<^verbatim>\<open>--resolve-symlinks\<close> is in force: for each
  policy, the exact calls, in order, and the result, for any answers of the kernel to the deleting
  calls, when the link can be resolved.  The link is only removed after its target (target-first), the target only after the link
  (symlink-first, where a failure to delete the target is not reported).
\<close>

theorem delete_symlink_policies:
  assumes "resolve_symlinks s" and "\<not> delete_deny s"
    and "\<And>u. k_stat K (On_path Lstat (relative_part p)) u = (Inr a, u)" and "S_ISLNK (st_mode a)"
    and "\<And>u. k_path K (On_path Realpath (relative_part p)) u = (Inr target, u)"
    and "\<And>c u. k_unit K c u = (err c, u)"
  shows "run K (delete_file s (Some p) f) st =
    (let q = relative_part p; result = (\<lambda>c. case err c of None \<Rightarrow> Inr () | Some e \<Rightarrow> Inl e) in
     case resolved_symlink_deletion_policy s of
       RESOLVED_SYMLINK_DELETION_DENY \<Rightarrow> (Some (Inl EPERM), [On_path Lstat q], st)
     | RESOLVED_SYMLINK_DELETION_SYMLINK_ONLY \<Rightarrow>
         (Some (result (On_path Unlink q)), [On_path Lstat q, On_path Unlink q], st)
     | RESOLVED_SYMLINK_DELETION_SYMLINK_FIRST \<Rightarrow>
         (Some (result (On_path Unlink q)),
          [On_path Lstat q, On_path Realpath q, On_path Unlink q]
          @ (if err (On_path Unlink q) = None then [On_path f target] else []), st)
     | RESOLVED_SYMLINK_DELETION_TARGET_FIRST \<Rightarrow>
         (Some (if err (On_path Unlink target) = None then result (On_path f q) else result (On_path Unlink target)),
          [On_path Lstat q, On_path Realpath q, On_path Unlink target]
          @ (if err (On_path Unlink target) = None then [On_path f q] else []), st))"
  using assms
  by (auto simp: delete_file_def bind_ok_def process_path_def delete_symlink_def or_fail_def Let_def logged_def
      split: ResolvedSymlinkDeletion.split option.split)

theorem delete_symlink_policies_witness:
  "run (example_kernel (example_stat S_IFLNK 0) ''/src/t'') (delete_file (example_settings\<lparr>resolve_symlinks := True\<rparr>)
     (Some ''/l'') Unlink) () = (Some (Inr ()), [On_path Lstat ''l'', On_path Unlink ''l''], ())"
proof -
  let ?s = "example_settings\<lparr>resolve_symlinks := True\<rparr>" and ?K = "example_kernel (example_stat S_IFLNK 0) ''/src/t''"
  have s: "resolve_symlinks ?s" "\<not> delete_deny ?s"
    "resolved_symlink_deletion_policy ?s = RESOLVED_SYMLINK_DELETION_SYMLINK_ONLY"
    by (simp_all add: example_settings_def)
  have k: "k_stat ?K (On_path Lstat (relative_part ''/l'')) u = (Inr (example_stat S_IFLNK 0), u)"
    "k_path ?K (On_path Realpath (relative_part ''/l'')) u = (Inr ''/src/t'', u)" "k_unit ?K c u = (None, u)" for c u
    by (simp_all add: example_kernel_def)
  have l: "S_ISLNK (st_mode (example_stat S_IFLNK 0))" by (simp add: example_stat_def S_ISLNK_def)
  show ?thesis
    unfolding delete_symlink_policies [OF s(1,2) k(1) l k(2,3)] by (simp add: s(3) relative_part_def Let_def)
qed

text \<open>The owner stored for a new file is shown as the caller.\<close>

lemma new_owner_mapped:
  assumes ok: "maps_ok (usermap s) (usermap_reverse s)" and "create_for_uid s = no_id"
    and one: "uid_offset s = 0 \<or> user_abs (usermap s) = Map.empty" "uid_offset s \<noteq> - (2 ^ 63)"
    and sh: "\<not> shadowed (user_abs (usermap_reverse s)) (fc_uid fc)" and small: "uint (fc_uid fc) < 2 ^ 31"
    and ids: "chown_new_file_ids s fc (fc_uid fc) g0 = Some (u, g)"
  shows "mapped_uid s u = Some (fc_uid fc)" "u \<noteq> no_id"
proof -
  have maps: "usermap_ok (usermap s)" "usermap_ok (usermap_reverse s)"
    and inv: "inverse_maps (user_abs (usermap s)) (user_abs (usermap_reverse s))" using ok by (simp_all add: maps_ok_def)
  let ?c = "fc_uid fc" and ?m = "usermap_get_uid_or_default (usermap_reverse s) (fc_uid fc) (fc_uid fc)"
  have bk: "usermap_get_uid_or_default (usermap s) ?m ?m = ?c"
    by (rule uids.get_there_and_back [OF maps(2,1) inverse_maps_sym [OF inv] sh])
  have proper: "?m \<noteq> no_id"
    using uids.abs_proper [OF maps(2), of ?c] no_id_not_small [OF small] maps(2)
    by (auto simp: get_uid_abs split: option.split)
  then have u: "unapply_uid_offset s ?m = Some u"
    using ids assms(2) by (auto simp: chown_new_file_ids_def Let_def split: option.splits if_splits)
  then have "uint u < 2 ^ 31" using uint_offset_id [of "- sint (uid_offset s)" ?m u] one(2) by (simp add: unapply_offset_eq)
  then show "u \<noteq> no_id" by (rule no_id_not_small)
  show "mapped_uid s u = Some (fc_uid fc)" using one(1)
  proof
    assume off: "uid_offset s = 0"
    then have "u = ?m" using u by (auto simp: unapply_offset_eq offset_id_0 split: if_splits)
    then show ?thesis using off small by (simp add: mapped_uid_def bk apply_offset_eq offset_id_0)
  next
    assume empty: "user_abs (usermap s) = Map.empty"
    then have "user_abs (usermap_reverse s) = Map.empty" using inv inverse_maps_empty by simp
    then have "?m = ?c" using maps by (simp add: get_uid_abs)
    then have "offset_id (- sint (uid_offset s)) ?c = Some u" using u one(2) by (simp add: unapply_offset_eq)
    from offset_id_inverse [OF this] small
    show ?thesis using empty maps by (simp add: mapped_uid_def get_uid_abs apply_offset_eq)
  qed
qed

text \<open>
  C22. Who owns a new file.  When bindfs creates files as the calling user (\<^verbatim>\<open>--create-as-user\<close>), without
  \<^verbatim>\<open>--create-for-user\<close> and \<^verbatim>\<open>--force-user\<close>, the maps are inverse and at most one of map and offset is in use, the caller's id is
  below 2^31 and no other user is stored under it, then \<^verbatim>\<open>chown_new_file\<close>, when it succeeds, looks at the parent directory
  and asks the kernel to give the file to an owner such that every successful \<^verbatim>\<open>getattr\<close> of the caller on a file of that
  owner shows the caller as the owner, mirroring or not.
\<close>

theorem new_file_shown_as_callers:
  assumes "settings_ok s" and "maps_ok (usermap s) (usermap_reverse s)"
    and "create_policy s = CREATE_AS_USER" and "create_for_uid s = no_id" and "new_uid s = no_id"
    and "uid_offset s = 0 \<or> user_abs (usermap s) = Map.empty" and "uid_offset s \<noteq> - (2 ^ 63)"
    and "\<not> shadowed (user_abs (usermap_reverse s)) (fc_uid fc)" and "uint (fc_uid fc) < 2 ^ 31"
    and "fst (run K (chown_new_file s path fc op) st) = Some (Inr ())"
  shows "\<exists>u g. fst (snd (run K (chown_new_file s path fc op) st)) = [On_path Lstat (my_dirname path), On_path (op u g) path]
    \<and> u \<noteq> no_id \<and> mapped_uid s u = Some (fc_uid fc)
    \<and> (\<forall>(K' :: 'k kernel) st' q a b. st_uid a = u \<and> fst (run K' (getattr_common s fc q a) st') = Some (Inr b) \<longrightarrow> st_uid b = fc_uid fc)"
proof -
  let ?r = "k_stat K (On_path Lstat (my_dirname path)) st"
  let ?g = "case fst ?r of Inr a \<Rightarrow> if st_mode a AND S_ISGID \<noteq> 0 then no_id else fc_gid fc | Inl e \<Rightarrow> fc_gid fc"
  obtain u g where ids: "chown_new_file_ids s fc (fc_uid fc) ?g = Some (u, g)"
    using assms(3,10) by (auto simp: chown_new_file_def Let_def split_beta split: option.splits)
  note u = new_owner_mapped [OF assms(2,4,6,7,8,9) ids]
  have "fst (snd (run K (chown_new_file s path fc op) st)) = [On_path Lstat (my_dirname path), On_path (op u g) path]"
    using assms(3) ids u(2) by (simp add: chown_new_file_def Let_def split_beta)
  moreover have "st_uid b = fc_uid fc"
    if "st_uid a = u" "fst (run K' (getattr_common s fc q a) st') = Some (Inr b)" for K' :: "'k kernel" and st' q a b
    using getattr_common_owner [OF assms(1) that(2)] u(1) that(1) assms(5) by auto
  ultimately show ?thesis using u by blast
qed

theorem new_file_shown_as_callers_witness:
  "fst (snd (run (example_kernel (example_stat 0 0) []) (chown_new_file (example_settings\<lparr>uid_offset := 100, create_policy := CREATE_AS_USER\<rparr>)
       ''d/f'' \<lparr>fc_uid = 1100, fc_gid = 7\<rparr> Chown) ())) = [On_path Lstat ''d'', On_path (Chown 1000 7) ''d/f'']
   \<and> mapped_uid (example_settings\<lparr>uid_offset := 100, create_policy := CREATE_AS_USER\<rparr>) 1000 = Some 1100"
proof -
  let ?s = "example_settings\<lparr>uid_offset := 100, create_policy := CREATE_AS_USER\<rparr>" and ?fc = "\<lparr>fc_uid = 1100, fc_gid = 7\<rparr> :: fuse_context"
  let ?K = "example_kernel (example_stat 0 0) []"
  have ok: "maps_ok (usermap ?s) (usermap_reverse ?s)" "settings_ok ?s" "create_policy ?s = CREATE_AS_USER"
      "create_for_uid ?s = no_id" "new_uid ?s = no_id"
    using example_settings_ok(1)
    by (simp_all add: settings_ok_def dest_of_def maps_ok_def usermap_create_ok inverse_maps_def)
       (simp_all add: example_settings_def usermap_create_ok)
  have m: "user_abs (usermap ?s) = Map.empty" "user_abs (usermap_reverse ?s) = Map.empty"
    by (simp_all add: example_settings_def usermap_create_ok)
  have run: "fst (run ?K (chown_new_file ?s ''d/f'' ?fc Chown) ()) = Some (Inr ())"
    "fst (snd (run ?K (chown_new_file ?s ''d/f'' ?fc Chown) ())) = [On_path Lstat ''d'', On_path (Chown 1000 7) ''d/f'']"
    by code_simp+
  from new_file_shown_as_callers [OF ok(2,1,3-5) _ _ _ _ run(1)] m obtain u g where
    "fst (snd (run ?K (chown_new_file ?s ''d/f'' ?fc Chown) ())) = [On_path Lstat (my_dirname ''d/f''), On_path (Chown u g) ''d/f'']"
    "mapped_uid ?s u = Some (fc_uid ?fc)" by (auto simp: shadowed_def)
  with run(2) show ?thesis by simp
qed

lemma create_mode:
  assumes "wf_chain ch"
  shows "\<exists>m. permchain_apply ch mode = Some m \<and> non_perm (m AND o777) = 0
    \<and> perms_of (m AND o777) = chmod_spec (S_ISDIR mode) (perms_of mode) ch"
proof -
  have "non_perm (m AND o777) = 0" for m by (simp add: non_perm_def and.assoc)
  then show ?thesis using permchain_apply_spec [OF assms, of mode] by (auto simp: perms_of_AND perms_of_o777)
qed

lemma perms_of_types: "perms_of S_IFDIR = {}" "perms_of S_IFREG = {}"
proof -
  have "\<not> bit S_IFDIR (who_ix w + perm_ix p)" "\<not> bit S_IFREG (who_ix w + perm_ix p)" for w p
    by (cases w; cases p; simp)+
  then show "perms_of S_IFDIR = {}" "perms_of S_IFREG = {}" by (auto simp: perms_of_def)
qed



lemma round_up_bounds:
  assumes "odirect_alignment s \<noteq> 0" and "unat sz + unat (odirect_alignment s) \<le> 2 ^ 64"
  shows "unat (odirect_alignment s) dvd unat (round_up_buffer_size_for_direct_io s sz)
    \<and> unat sz \<le> unat (round_up_buffer_size_for_direct_io s sz)
    \<and> unat (round_up_buffer_size_for_direct_io s sz) < unat sz + unat (odirect_alignment s)"
proof -
  let ?a = "odirect_alignment s" and ?n = "unat sz" and ?k = "unat (odirect_alignment s)"
  have k: "0 < ?k" using assms(1) by (simp add: unat_gt_0)
  have m: "unat (sz mod ?a) = ?n mod ?k" by (simp add: unat_mod)
  have le: "?n mod ?k \<le> ?n" "?n mod ?k < ?k" using k by simp_all
  have s: "unat (sz - sz mod ?a) = ?n - ?n mod ?k" using m le by (simp add: unat_sub word_le_nat_alt)
  show ?thesis
  proof (cases "sz mod ?a = 0")
    case True
    then have "?n mod ?k = 0" using m by simp
    then show ?thesis using True k by (auto simp: round_up_buffer_size_for_direct_io_def Let_def)
  next
    case False
    then have pos: "0 < ?n mod ?k" using m unat_gt_0 [of "sz mod ?a"] by simp
    have "unat (sz - sz mod ?a + ?a) = ?n - ?n mod ?k + ?k"
      using s pos le assms(2) by (subst unat_add_lem [THEN iffD1]) auto
    moreover have "?k dvd ?n - ?n mod ?k + ?k" by (intro dvd_add dvd_minus_mod dvd_refl)
    ultimately show ?thesis
      using False pos le by (simp add: round_up_buffer_size_for_direct_io_def Let_def)
  qed
qed



end
