(* ===== verification/Options.thy ===== *)
theory Options
  imports Confinement Userinfo
begin

text \<open>
  The command line of \<^verbatim>\<open>src/bindfs.c\<close>: the option callback, the parsers of \<^verbatim>\<open>--mirror\<close>, \<^verbatim>\<open>--map\<close> and
  \<^verbatim>\<open>--map-passwd\<close>, the filter for options of \<^verbatim>\<open>mount\<close>, and the part of \<^verbatim>\<open>main\<close> that turns the parsed
  options into the settings and the arguments of FUSE.  The environment (the user running bindfs,
  the C library's databases, \<^verbatim>\<open>realpath\<close>, the clock and files) is a record argument.
\<close>

section \<open>The environment\<close>

record env =
  env_getuid :: uid_t
  env_getpwnam_r :: "string \<Rightarrow> size_t \<Rightarrow> errno option \<times> passwd option"
  env_getgrnam_r :: "string \<Rightarrow> size_t \<Rightarrow> errno option \<times> group option"
  env_realpath :: "string \<Rightarrow> errno + string"
  env_file :: "string \<Rightarrow> string list option"   \<comment> \<open>the lines \<open>getline\<close> returns, if the file can be opened\<close>
  env_strtod :: "string \<Rightarrow> real \<times> string"
  env_gettimeofday :: "int \<times> int"
  env_open_dir :: "string \<Rightarrow> errno + fd"
  env_fuse_version :: nat
  env_getcwd :: "size_t \<Rightarrow> errno + string"
  env_umask :: mode_t

text \<open>
  \<^verbatim>\<open>user_uid\<close> and \<^verbatim>\<open>group_gid\<close> as the parsers use them: the id, an invalid name, or a lookup that never
  returns (the retry loop of theory \<open>Userinfo\<close>).
\<close>

datatype 'a lookup = Never | Invalid | is_valid: Valid (found: 'a)

definition lookup_of :: "'a option option \<Rightarrow> 'a lookup" where
  "lookup_of r = (case r of None \<Rightarrow> Never | Some None \<Rightarrow> Invalid | Some (Some x) \<Rightarrow> Valid x)"

definition lookup_user :: "env \<Rightarrow> string \<Rightarrow> uid_t lookup" where
  "lookup_user env n = lookup_of (user_uid (env_getpwnam_r env) n)"

definition lookup_group :: "env \<Rightarrow> string \<Rightarrow> gid_t lookup" where
  "lookup_group env n = lookup_of (group_gid (env_getgrnam_r env) n)"

text \<open>
  How \<^verbatim>\<open>main\<close> ends before \<^verbatim>\<open>fuse_main\<close>: with an exit status, by an abort (a failed assertion or an
  out-of-bounds write, which has no defined behaviour of its own), or not at all.
\<close>

datatype stop = Exit int | Aborted | Hangs

section \<open>The working directory\<close>

text \<open>
  The loop doubles the buffer until \<^verbatim>\<open>getcwd\<close> succeeds, whatever the reason of a failure.  \<open>None\<close>: it
  never returns.  The size is a \<^verbatim>\<open>size_t\<close> and wraps.
\<close>

partial_function (option) cwd_loop :: "(size_t \<Rightarrow> errno + string) \<Rightarrow> size_t \<Rightarrow> string option" where
  "cwd_loop getcwd buf_size =
     (case getcwd buf_size of
        Inr dir \<Rightarrow> Some dir
      | Inl e \<Rightarrow> cwd_loop getcwd (buf_size * 2))"

declare cwd_loop.simps [code]

definition get_working_dir :: "env \<Rightarrow> string option" where
  "get_working_dir env = cwd_loop (env_getcwd env) 4096"

section \<open>The option callback\<close>

datatype OptionKey =
    OPTKEY_NONOPTION | OPTKEY_UNKNOWN | OPTKEY_HELP | OPTKEY_VERSION | OPTKEY_FUSE_VERSION
  | OPTKEY_CREATE_AS_USER | OPTKEY_CREATE_AS_MOUNTER
  | OPTKEY_CHOWN_NORMAL | OPTKEY_CHOWN_IGNORE | OPTKEY_CHOWN_DENY
  | OPTKEY_CHGRP_NORMAL | OPTKEY_CHGRP_IGNORE | OPTKEY_CHGRP_DENY
  | OPTKEY_CHMOD_NORMAL | OPTKEY_CHMOD_IGNORE | OPTKEY_CHMOD_DENY | OPTKEY_CHMOD_ALLOW_X
  | OPTKEY_XATTR_NONE | OPTKEY_XATTR_READ_ONLY | OPTKEY_XATTR_READ_WRITE
  | OPTKEY_DELETE_DENY | OPTKEY_RENAME_DENY | OPTKEY_REALISTIC_PERMISSIONS | OPTKEY_CTIME_FROM_MTIME
  | OPTKEY_ENABLE_LOCK_FORWARDING | OPTKEY_DISABLE_LOCK_FORWARDING | OPTKEY_ENABLE_IOCTL
  | OPTKEY_HIDE_HARD_LINKS | OPTKEY_RESOLVE_SYMLINKS | OPTKEY_BLOCK_DEVICES_AS_FILES
  | OPTKEY_DIRECT_IO | OPTKEY_NO_DIRECT_IO

text \<open>The outcome of a callback: the process ends, or it returns with the new settings.\<close>

datatype opt_result = Opt_exit int | Opt_return int Settings

text \<open>The branch for an argument that is not an option: the source directory, then the mount point.\<close>

definition process_nonoption :: "env \<Rightarrow> Settings \<Rightarrow> string \<Rightarrow> opt_result" where
  "process_nonoption env s arg =
     (if mntsrc s = None then
        (case (if strncmp_eq arg ''/proc/'' 6 then Inr arg else env_realpath env arg) of
           Inl e \<Rightarrow> Opt_return (- 1) s
         | Inr p \<Rightarrow> Opt_return 0 (s\<lparr>mntsrc := Some p\<rparr>))
      else if mntdest s = None then
        (case env_realpath env arg of
           Inl e \<Rightarrow> Opt_return (- 1) s
         | Inr p \<Rightarrow> Opt_return 1 (s\<lparr>mntdest := Some p, mntdest_len := length p\<rparr>))
      else Opt_return (- 1) s)"

definition process_option :: "env \<Rightarrow> Settings \<Rightarrow> string \<Rightarrow> OptionKey \<Rightarrow> opt_result" where
  "process_option env s arg k =
     (case k of
        OPTKEY_HELP \<Rightarrow> Opt_exit 0
      | OPTKEY_VERSION \<Rightarrow> Opt_exit 0
      | OPTKEY_FUSE_VERSION \<Rightarrow> Opt_exit 0
      | OPTKEY_CREATE_AS_USER \<Rightarrow>
          if env_getuid env = 0 then Opt_return 0 (s\<lparr>create_policy := CREATE_AS_USER\<rparr>) else Opt_return (- 1) s
      | OPTKEY_CREATE_AS_MOUNTER \<Rightarrow> Opt_return 0 (s\<lparr>create_policy := CREATE_AS_MOUNTER\<rparr>)
      | OPTKEY_CHOWN_NORMAL \<Rightarrow> Opt_return 0 (s\<lparr>chown_policy := CHOWN_NORMAL\<rparr>)
      | OPTKEY_CHOWN_IGNORE \<Rightarrow> Opt_return 0 (s\<lparr>chown_policy := CHOWN_IGNORE\<rparr>)
      | OPTKEY_CHOWN_DENY \<Rightarrow> Opt_return 0 (s\<lparr>chown_policy := CHOWN_DENY\<rparr>)
      | OPTKEY_CHGRP_NORMAL \<Rightarrow> Opt_return 0 (s\<lparr>chgrp_policy := CHGRP_NORMAL\<rparr>)
      | OPTKEY_CHGRP_IGNORE \<Rightarrow> Opt_return 0 (s\<lparr>chgrp_policy := CHGRP_IGNORE\<rparr>)
      | OPTKEY_CHGRP_DENY \<Rightarrow> Opt_return 0 (s\<lparr>chgrp_policy := CHGRP_DENY\<rparr>)
      | OPTKEY_CHMOD_NORMAL \<Rightarrow> Opt_return 0 (s\<lparr>chmod_policy := CHMOD_NORMAL\<rparr>)
      | OPTKEY_CHMOD_IGNORE \<Rightarrow> Opt_return 0 (s\<lparr>chmod_policy := CHMOD_IGNORE\<rparr>)
      | OPTKEY_CHMOD_DENY \<Rightarrow> Opt_return 0 (s\<lparr>chmod_policy := CHMOD_DENY\<rparr>)
      | OPTKEY_CHMOD_ALLOW_X \<Rightarrow> Opt_return 0 (s\<lparr>chmod_allow_x := True\<rparr>)
      | OPTKEY_XATTR_NONE \<Rightarrow> Opt_return 0 (s\<lparr>xattr_policy := XATTR_UNIMPLEMENTED\<rparr>)
      | OPTKEY_XATTR_READ_ONLY \<Rightarrow> Opt_return 0 (s\<lparr>xattr_policy := XATTR_READ_ONLY\<rparr>)
      | OPTKEY_XATTR_READ_WRITE \<Rightarrow> Opt_return 0 (s\<lparr>xattr_policy := XATTR_READ_WRITE\<rparr>)
      | OPTKEY_DELETE_DENY \<Rightarrow> Opt_return 0 (s\<lparr>delete_deny := True\<rparr>)
      | OPTKEY_RENAME_DENY \<Rightarrow> Opt_return 0 (s\<lparr>rename_deny := True\<rparr>)
      | OPTKEY_REALISTIC_PERMISSIONS \<Rightarrow> Opt_return 0 (s\<lparr>realistic_permissions := True\<rparr>)
      | OPTKEY_CTIME_FROM_MTIME \<Rightarrow> Opt_return 0 (s\<lparr>ctime_from_mtime := True\<rparr>)
      | OPTKEY_ENABLE_LOCK_FORWARDING \<Rightarrow> Opt_return 0 (s\<lparr>enable_lock_forwarding := True\<rparr>)
      | OPTKEY_DISABLE_LOCK_FORWARDING \<Rightarrow> Opt_return 0 (s\<lparr>enable_lock_forwarding := False\<rparr>)
      | OPTKEY_ENABLE_IOCTL \<Rightarrow> Opt_return 0 (s\<lparr>enable_ioctl := True\<rparr>)
      | OPTKEY_HIDE_HARD_LINKS \<Rightarrow> Opt_return 0 (s\<lparr>hide_hard_links := True\<rparr>)
      | OPTKEY_RESOLVE_SYMLINKS \<Rightarrow> Opt_return 0 (s\<lparr>resolve_symlinks := True\<rparr>)
      | OPTKEY_BLOCK_DEVICES_AS_FILES \<Rightarrow> Opt_return 0 (s\<lparr>block_devices_as_files := True\<rparr>)
      | OPTKEY_DIRECT_IO \<Rightarrow> Opt_return 0 (s\<lparr>direct_io := True\<rparr>)
      | OPTKEY_NO_DIRECT_IO \<Rightarrow> Opt_return 0 (s\<lparr>direct_io := False\<rparr>)
      | OPTKEY_NONOPTION \<Rightarrow> process_nonoption env s arg
      | OPTKEY_UNKNOWN \<Rightarrow> Opt_return 1 s)"

text \<open>
  \<^verbatim>\<open>fuse_opt_parse\<close> belongs to libfuse: it stores the values of options in the option data and calls the
  callback for everything else, until a call returns -1.  The list of its calls is an argument.
\<close>

fun parse_options :: "env \<Rightarrow> (string \<times> OptionKey) list \<Rightarrow> Settings \<Rightarrow> stop + Settings" where
  "parse_options env [] s = Inr s"
| "parse_options env ((arg, k) # calls) s =
     (case process_option env s arg k of
        Opt_exit n \<Rightarrow> Inl (Exit n)
      | Opt_return r s' \<Rightarrow> if r = - 1 then Inl (Exit 1) else parse_options env calls s')"

section \<open>Mirrored users\<close>

definition list_delim :: "char \<Rightarrow> bool" where
  "list_delim c \<longleftrightarrow> c = CHR '','' \<or> c = CHR '':''"

text \<open>
  The outcome of parsing: besides success and a rejected name, a lookup may never return, an
  assertion can fail, and a write can go beyond the array allocated for the counted names.
\<close>

datatype mirror_result =
    Mirrored "uid_t list" "gid_t list" | Mirror_invalid | Mirror_never | Mirror_assert_failed
  | Mirror_out_of_bounds

definition mirror_counts :: "string \<Rightarrow> int \<times> int" where
  "mirror_counts mirror =
     (let members = (if mirror \<noteq> [] \<and> hd mirror = CHR ''@'' then 1 else 0)
                    + count_substrs mirror '',@'' + count_substrs mirror '':@''
      in (int (count_chars mirror (CHR '','') + count_chars mirror (CHR '':'') + 1) - int members, int members))"

text \<open>
  The loop at position \<open>p\<close>; \<open>users\<close> and \<open>members\<close> are the array cells written so far, so their lengths
  are the indices \<open>i\<close> and \<open>j\<close>.
\<close>

function mirror_loop :: "env \<Rightarrow> int \<Rightarrow> int \<Rightarrow> string \<Rightarrow> uid_t list \<Rightarrow> gid_t list \<Rightarrow> mirror_result" where
  "mirror_loop env num_users num_members p users members =
     (if int (length users) < num_users \<or> int (length members) < num_members then
        let tmpstr = strdup_until p '',:'';
            next = (\<lambda>users members.
              let q = dropWhile (\<lambda>c. \<not> list_delim c) p
              in if q \<noteq> [] then mirror_loop env num_users num_members (tl q) users members
                 else if int (length users) = num_users \<and> int (length members) = num_members
                 then Mirrored users members
                 else Mirror_assert_failed)
        in if tmpstr \<noteq> [] \<and> hd tmpstr = CHR ''@'' then
             (case lookup_group env (tl tmpstr) of
                Never \<Rightarrow> Mirror_never
              | Invalid \<Rightarrow> Mirror_invalid
              | Valid g \<Rightarrow> if int (length members) < num_members then next users (members @ [g])
                          else Mirror_out_of_bounds)
           else
             (case lookup_user env tmpstr of
                Never \<Rightarrow> Mirror_never
              | Invalid \<Rightarrow> Mirror_invalid
              | Valid u \<Rightarrow> if int (length users) < num_users then next (users @ [u]) members
                          else Mirror_out_of_bounds)
      else Mirrored users members)"
  by pat_completeness auto
termination
proof (relation "measure (\<lambda>(env, nu, nm, p, us, ms). length p)", goal_cases)
  case (2 env nu nm p us ms)
  then show ?case using length_tl_dropWhile [of p "\<lambda>c. \<not> list_delim c"] by (cases p) auto
qed simp

declare mirror_loop.simps [simp del]

definition parse_mirrored_users :: "env \<Rightarrow> string \<Rightarrow> mirror_result" where
  "parse_mirrored_users env mirror =
     (let (num_users, num_members) = mirror_counts mirror
      in mirror_loop env num_users num_members mirror [] [])"

section \<open>User maps\<close>

definition add_pair ::
  "(UserMap \<Rightarrow> 32 word \<Rightarrow> 32 word \<Rightarrow> UsermapStatus \<times> UserMap)
   \<Rightarrow> UserMap \<times> UserMap \<Rightarrow> 32 word \<Rightarrow> 32 word \<Rightarrow> bool \<times> UserMap \<times> UserMap" where
  "add_pair usermap_add maps from to =
     (let (status, map) = usermap_add (fst maps) from to
      in if status \<noteq> usermap_status_ok then (False, map, snd maps)
         else let (status, reverse_map) = usermap_add (snd maps) to from
              in (status = usermap_status_ok, map, reverse_map))"

text \<open>
  One line of a passwd or group file, its newline removed: the pair of ids, a line to skip with a
  warning, an error, or a lookup that never returns.  The columns are those of \<^verbatim>\<open>strtok\<close>, which passes over empty ones.
\<close>

datatype line_result = Line_ids "32 word" "32 word" | Line_skipped | Line_error | Line_never

definition strip_newline :: "string \<Rightarrow> string" where
  "strip_newline line = (if line \<noteq> [] \<and> last line = newline then butlast line else line)"

definition parse_map_line :: "(string \<Rightarrow> 32 word lookup) \<Rightarrow> string \<Rightarrow> line_result" where
  "parse_map_line value_to_id line =
     (case strtok_all (\<lambda>c. c = CHR '':'') (strip_newline line) of
        [] \<Rightarrow> Line_error
      | name # columns \<Rightarrow>
          (case value_to_id name of
             Never \<Rightarrow> Line_never
           | Invalid \<Rightarrow> Line_skipped
           | Valid to \<Rightarrow>
               (case columns of
                  _ # column # _ \<Rightarrow>
                    (case value_to_id column of
                       Never \<Rightarrow> Line_never
                     | Invalid \<Rightarrow> Line_skipped
                     | Valid from \<Rightarrow> Line_ids from to)
                | _ \<Rightarrow> Line_error)))"

text \<open>The loops return the success and the two maps; \<open>None\<close> when they never return.\<close>

fun parse_map_lines ::
  "(string \<Rightarrow> 32 word lookup) \<Rightarrow> (UserMap \<Rightarrow> 32 word \<Rightarrow> 32 word \<Rightarrow> UsermapStatus \<times> UserMap)
   \<Rightarrow> string list \<Rightarrow> UserMap \<times> UserMap \<Rightarrow> (bool \<times> UserMap \<times> UserMap) option" where
  "parse_map_lines value_to_id usermap_add [] maps = Some (True, maps)"
| "parse_map_lines value_to_id usermap_add (line # lines) maps =
     (case parse_map_line value_to_id line of
        Line_error \<Rightarrow> Some (False, maps)
      | Line_never \<Rightarrow> None
      | Line_skipped \<Rightarrow> parse_map_lines value_to_id usermap_add lines maps
      | Line_ids from to \<Rightarrow>
          (let (ok, maps') = add_pair usermap_add maps from to
           in if ok then parse_map_lines value_to_id usermap_add lines maps' else Some (False, maps')))"

definition parse_map_file :: "env \<Rightarrow> UserMap \<times> UserMap \<Rightarrow> string \<Rightarrow> bool \<Rightarrow> (bool \<times> UserMap \<times> UserMap) option" where
  "parse_map_file env maps file as_gid =
     (case env_file env file of
        None \<Rightarrow> Some (False, maps)
      | Some lines \<Rightarrow>
          parse_map_lines (if as_gid then lookup_group env else lookup_user env)
            (if as_gid then usermap_add_gid else usermap_add_uid) lines maps)"

text \<open>One element of a \<^verbatim>\<open>--map\<close> specification, and the loop over them.\<close>

definition parse_id_pair :: "(string \<Rightarrow> 32 word lookup) \<Rightarrow> string \<Rightarrow> string \<Rightarrow> (32 word \<times> 32 word) lookup" where
  "parse_id_pair value_to_id l r =
     (case value_to_id l of
        Never \<Rightarrow> Never
      | Invalid \<Rightarrow> Invalid
      | Valid from \<Rightarrow> (case value_to_id r of Never \<Rightarrow> Never | Invalid \<Rightarrow> Invalid | Valid to \<Rightarrow> Valid (from, to)))"

definition parse_map_element :: "env \<Rightarrow> string \<Rightarrow> (bool \<times> 32 word \<times> 32 word) lookup" where
  "parse_map_element env tmpstr =
     (if tmpstr \<noteq> [] \<and> hd tmpstr = CHR ''@'' then
        (case strstr_split ''/@'' tmpstr of
           None \<Rightarrow> Invalid
         | Some (l, r) \<Rightarrow> map_lookup (Pair True) (parse_id_pair (lookup_group env) (tl l) r))
      else
        (case strstr_split ''/'' tmpstr of
           None \<Rightarrow> Invalid
         | Some (l, r) \<Rightarrow> map_lookup (Pair False) (parse_id_pair (lookup_user env) l r)))"

function parse_user_map_loop :: "env \<Rightarrow> string \<Rightarrow> UserMap \<times> UserMap \<Rightarrow> (bool \<times> UserMap \<times> UserMap) option" where
  "parse_user_map_loop env p maps =
     (if p = [] then Some (True, maps)
      else case parse_map_element env (strdup_until p '',:'') of
             Never \<Rightarrow> None
           | Invalid \<Rightarrow> Some (False, maps)
           | Valid (is_group, from, to) \<Rightarrow>
               (let (ok, maps') = add_pair (if is_group then usermap_add_gid else usermap_add_uid) maps from to
                in if ok then parse_user_map_loop env (tl (dropWhile (\<lambda>c. \<not> list_delim c) p)) maps'
                   else Some (False, maps')))"
  by pat_completeness auto
termination
  by (relation "measure (\<lambda>(env, p, maps). length p)") (auto simp: length_tl_dropWhile simp del: length_tl)

declare parse_user_map_loop.simps [simp del]

definition parse_user_map :: "env \<Rightarrow> UserMap \<times> UserMap \<Rightarrow> string \<Rightarrow> (bool \<times> UserMap \<times> UserMap) option" where
  "parse_user_map env maps spec = parse_user_map_loop env spec maps"

section \<open>Options of mount\<close>

definition ignored_opts :: "string list" where
  "ignored_opts = [[], ''user'', ''nofail'', ''nouser'', ''users'', ''auto'', ''noauto'', ''_netdev'']"

definition keep_option :: "string \<Rightarrow> bool" where
  "keep_option opt \<longleftrightarrow> opt \<notin> set ignored_opts"

definition filter_special_opts :: "string list \<Rightarrow> string list" where
  "filter_special_opts args = filter_o_opts keep_option args"

section \<open>main: the settings\<close>

record OptionData =
  od_user :: "string option"
  od_deprecated_user :: "string option"
  od_group :: "string option"
  od_deprecated_group :: "string option"
  od_perms :: "string option"
  od_mirror :: "string option"
  od_mirror_only :: "string option"
  od_map :: "string option"
  od_map_passwd :: "string option"
  od_map_group :: "string option"
  od_map_passwd_rev :: "string option"
  od_map_group_rev :: "string option"
  od_read_rate :: "string option"
  od_write_rate :: "string option"
  od_create_for_user :: "string option"
  od_create_for_group :: "string option"
  od_create_with_perms :: "string option"
  od_chmod_filter :: "string option"
  od_resolved_symlink_deletion :: "string option"
  od_no_allow_other :: bool
  od_multithreaded :: bool
  od_forward_odirect :: "string option"
  od_uid_offset :: "string option"
  od_gid_offset :: "string option"
  od_fsname :: "string option"

text \<open>
  The settings are a static object, so \<^verbatim>\<open>mntsrc_fd\<close> and \<^verbatim>\<open>original_umask\<close>, which are set last, start as 0.
\<close>

definition initial_settings :: "env \<Rightarrow> string \<Rightarrow> string \<Rightarrow> Settings" where
  "initial_settings env argv0 working_dir =
     \<lparr>progname = argv0, permchain_of = permchain_create, new_uid = no_id, new_gid = no_id,
      create_for_uid = no_id, create_for_gid = no_id, mntsrc = None, mntdest = None, mntdest_len = 0,
      mntsrc_fd = 0, usermap = usermap_create, usermap_reverse = usermap_create, read_limiter = None,
      write_limiter = None,
      create_policy = (if env_getuid env = 0 then CREATE_AS_USER else CREATE_AS_MOUNTER),
      create_permchain = permchain_create, chown_policy = CHOWN_NORMAL, chgrp_policy = CHGRP_NORMAL,
      chmod_policy = CHMOD_NORMAL, chmod_allow_x = False, chmod_permchain = permchain_create,
      xattr_policy = XATTR_READ_WRITE, delete_deny = False, rename_deny = False,
      mirrored_users_only = False, mirrored_users = [], num_mirrored_users = 0, mirrored_members = [],
      num_mirrored_members = 0, hide_hard_links = False, resolve_symlinks = False,
      block_devices_as_files = False,
      resolved_symlink_deletion_policy = RESOLVED_SYMLINK_DELETION_SYMLINK_ONLY,
      realistic_permissions = False, ctime_from_mtime = False, enable_lock_forwarding = False,
      enable_ioctl = False, forward_odirect = False, odirect_alignment = 0, direct_io = False,
      uid_offset = 0, gid_offset = 0,
      original_working_dir = working_dir, original_umask = 0\<rparr>"

text \<open>
  Each step of \<^verbatim>\<open>main\<close> gives the new settings or the way the process ends.  \<open>when_given\<close> runs a step if an option
  was given, \<open>as_root\<close> adds the check for root, \<open>then_step\<close> goes on unless the process has ended.
\<close>

definition when_given :: "'a option \<Rightarrow> ('a \<Rightarrow> Settings \<Rightarrow> stop + Settings) \<Rightarrow> Settings \<Rightarrow> stop + Settings" where
  "when_given opt f s = (case opt of None \<Rightarrow> Inr s | Some v \<Rightarrow> f v s)"

definition as_root :: "env \<Rightarrow> ('a \<Rightarrow> Settings \<Rightarrow> stop + Settings) \<Rightarrow> 'a \<Rightarrow> Settings \<Rightarrow> stop + Settings" where
  "as_root env f v s = (if env_getuid env \<noteq> 0 then Inl (Exit 1) else f v s)"

definition then_step :: "stop + Settings \<Rightarrow> (Settings \<Rightarrow> stop + Settings) \<Rightarrow> stop + Settings" where
  "then_step r f = (case r of Inl e \<Rightarrow> Inl e | Inr s \<Rightarrow> f s)"

definition or_exit :: "'a option \<Rightarrow> ('a \<Rightarrow> Settings) \<Rightarrow> stop + Settings" where
  "or_exit v f = (case v of None \<Rightarrow> Inl (Exit 1) | Some x \<Rightarrow> Inr (f x))"

definition lookup_or_exit :: "'a lookup \<Rightarrow> ('a \<Rightarrow> Settings) \<Rightarrow> stop + Settings" where
  "lookup_or_exit v f = (case v of Never \<Rightarrow> Inl Hangs | Invalid \<Rightarrow> Inl (Exit 1) | Valid x \<Rightarrow> Inr (f x))"

definition first_given :: "'a option \<Rightarrow> 'a option \<Rightarrow> 'a option" where
  "first_given a b = (case a of Some v \<Rightarrow> Some v | None \<Rightarrow> b)"

definition set_owner_options :: "env \<Rightarrow> OptionData \<Rightarrow> Settings \<Rightarrow> stop + Settings" where
  "set_owner_options env od s =
     then_step
       (when_given (first_given (od_user od) (od_deprecated_user od))
         (\<lambda>n s. lookup_or_exit (lookup_user env n) (\<lambda>u. s\<lparr>new_uid := u\<rparr>)) s)
       (when_given (first_given (od_group od) (od_deprecated_group od))
         (\<lambda>n s. lookup_or_exit (lookup_group env n) (\<lambda>g. s\<lparr>new_gid := g\<rparr>)))"

definition make_limiter :: "env \<Rightarrow> string \<Rightarrow> RateLimiter option" where
  "make_limiter env spec =
     (case parse_byte_count (env_strtod env) spec of
        None \<Rightarrow> None
      | Some r \<Rightarrow> if r > 0 then Some (rate_limiter_init r (gettimeofday_clock (env_gettimeofday env))) else None)"

definition set_rates :: "env \<Rightarrow> OptionData \<Rightarrow> Settings \<Rightarrow> stop + Settings" where
  "set_rates env od s =
     then_step
       (when_given (od_read_rate od) (\<lambda>v s. or_exit (make_limiter env v) (\<lambda>l. s\<lparr>read_limiter := Some l\<rparr>)) s)
       (when_given (od_write_rate od) (\<lambda>v s. or_exit (make_limiter env v) (\<lambda>l. s\<lparr>write_limiter := Some l\<rparr>)))"

text \<open>A map file, in the given direction.\<close>

definition use_map_file :: "env \<Rightarrow> bool \<Rightarrow> bool \<Rightarrow> string \<Rightarrow> Settings \<Rightarrow> stop + Settings" where
  "use_map_file env as_gid reversed file s =
     (case parse_map_file env (if reversed then (usermap_reverse s, usermap s) else (usermap s, usermap_reverse s))
             file as_gid of
        None \<Rightarrow> Inl Hangs
      | Some (ok, a, b) \<Rightarrow>
          if \<not> ok then Inl (Exit 1)
          else if reversed then Inr (s\<lparr>usermap_reverse := a, usermap := b\<rparr>)
          else Inr (s\<lparr>usermap := a, usermap_reverse := b\<rparr>))"

definition use_map :: "env \<Rightarrow> string \<Rightarrow> Settings \<Rightarrow> stop + Settings" where
  "use_map env spec s =
     (case parse_user_map env (usermap s, usermap_reverse s) spec of
        None \<Rightarrow> Inl Hangs
      | Some (ok, a, b) \<Rightarrow>
          if \<not> ok then Inl (Exit 1) else Inr (s\<lparr>usermap := a, usermap_reverse := b\<rparr>))"

definition set_maps :: "env \<Rightarrow> OptionData \<Rightarrow> Settings \<Rightarrow> stop + Settings" where
  "set_maps env od s =
     then_step (then_step (then_step (then_step
       (when_given (od_map_passwd od) (as_root env (use_map_file env False False)) s)
       (when_given (od_map_passwd_rev od) (as_root env (use_map_file env False True))))
       (when_given (od_map_group od) (as_root env (use_map_file env True False))))
       (when_given (od_map_group_rev od) (as_root env (use_map_file env True True))))
       (when_given (od_map od) (as_root env (use_map env)))"

definition parse_offset :: "OptionData \<Rightarrow> string \<Rightarrow> (64 word \<Rightarrow> Settings \<Rightarrow> Settings) \<Rightarrow> Settings \<Rightarrow> stop + Settings" where
  "parse_offset od v set_offset s =
     (if od_map od \<noteq> None then Inl (Exit 1)
      else let (n, endptr) = strtol 10 v
           in if endptr \<noteq> [] then Inl (Exit 1) else Inr (set_offset (word_of_int n) s))"

definition set_offsets :: "env \<Rightarrow> OptionData \<Rightarrow> Settings \<Rightarrow> stop + Settings" where
  "set_offsets env od s =
     then_step
       (when_given (od_uid_offset od) (as_root env (\<lambda>v. parse_offset od v (\<lambda>n s. s\<lparr>uid_offset := n\<rparr>))) s)
       (when_given (od_gid_offset od) (as_root env (\<lambda>v. parse_offset od v (\<lambda>n s. s\<lparr>gid_offset := n\<rparr>))))"

definition set_odirect :: "OptionData \<Rightarrow> Settings \<Rightarrow> stop + Settings" where
  "set_odirect od s =
     when_given (od_forward_odirect od) (\<lambda>v s.
       let (n, endptr) = strtoul 10 v
       in if endptr \<noteq> [] then Inl (Exit 1)
          else if n = 0 then Inl (Exit 1)
          else Inr (s\<lparr>forward_odirect := True, odirect_alignment := n\<rparr>)) s"

definition set_create_for :: "env \<Rightarrow> OptionData \<Rightarrow> Settings \<Rightarrow> stop + Settings" where
  "set_create_for env od s =
     then_step
       (when_given (od_create_for_user od)
         (as_root env (\<lambda>n s. lookup_or_exit (lookup_user env n) (\<lambda>u. s\<lparr>create_for_uid := u\<rparr>))) s)
       (when_given (od_create_for_group od)
         (as_root env (\<lambda>n s. lookup_or_exit (lookup_group env n) (\<lambda>g. s\<lparr>create_for_gid := g\<rparr>))))"

text \<open>
  An invalid mirror list ends the process with status 0.
\<close>

definition set_mirror :: "env \<Rightarrow> OptionData \<Rightarrow> Settings \<Rightarrow> stop + Settings" where
  "set_mirror env od s =
     (if od_mirror od \<noteq> None \<and> od_mirror_only od \<noteq> None then Inl (Exit 1)
      else let s = (if od_mirror_only od \<noteq> None then s\<lparr>mirrored_users_only := True\<rparr> else s)
           in when_given (first_given (od_mirror_only od) (od_mirror od)) (\<lambda>m s.
                case parse_mirrored_users env m of
                  Mirrored us gs \<Rightarrow>
                    Inr (s\<lparr>mirrored_users := us, num_mirrored_users := fst (mirror_counts m),
                           mirrored_members := gs, num_mirrored_members := snd (mirror_counts m)\<rparr>)
                | Mirror_invalid \<Rightarrow> Inl (Exit 0)
                | Mirror_never \<Rightarrow> Inl Hangs
                | _ \<Rightarrow> Inl Aborted) s)"

definition add_rules :: "string \<Rightarrow> chain \<Rightarrow> (chain \<Rightarrow> Settings) \<Rightarrow> stop + Settings" where
  "add_rules rules ch f =
     (let (r, ch') = add_chmod_rules_to_permchain rules ch in if r \<noteq> 0 then Inl (Exit 1) else Inr (f ch'))"

definition set_perms :: "OptionData \<Rightarrow> Settings \<Rightarrow> stop + Settings" where
  "set_perms od s =
     then_step (then_step
       (when_given (od_perms od) (\<lambda>v s. add_rules v (permchain_of s) (\<lambda>c. s\<lparr>permchain_of := c\<rparr>)) s)
       (when_given (od_create_with_perms od)
         (\<lambda>v s. add_rules v (create_permchain s) (\<lambda>c. s\<lparr>create_permchain := c\<rparr>))))
       (when_given (od_chmod_filter od)
         (\<lambda>v s. add_rules v (chmod_permchain s) (\<lambda>c. s\<lparr>chmod_permchain := c\<rparr>)))"

definition set_symlink_deletion :: "OptionData \<Rightarrow> Settings \<Rightarrow> stop + Settings" where
  "set_symlink_deletion od s =
     when_given (od_resolved_symlink_deletion od) (\<lambda>v s.
       if v = ''deny'' then
         Inr (s\<lparr>resolved_symlink_deletion_policy := RESOLVED_SYMLINK_DELETION_DENY\<rparr>)
       else if v = ''symlink-only'' then
         Inr (s\<lparr>resolved_symlink_deletion_policy := RESOLVED_SYMLINK_DELETION_SYMLINK_ONLY\<rparr>)
       else if v = ''symlink-first'' then
         Inr (s\<lparr>resolved_symlink_deletion_policy := RESOLVED_SYMLINK_DELETION_SYMLINK_FIRST\<rparr>)
       else if v = ''target-first'' then
         Inr (s\<lparr>resolved_symlink_deletion_policy := RESOLVED_SYMLINK_DELETION_TARGET_FIRST\<rparr>)
       else Inl (Exit 1)) s"

text \<open>The arguments added for FUSE 3 on Linux, and the filter applied to all of them.\<close>

definition added_args :: "env \<Rightarrow> OptionData \<Rightarrow> Settings \<Rightarrow> string list" where
  "added_args env od s =
     (if od_multithreaded od then [] else [''-s''])
     @ (if od_no_allow_other od then [] else [''-oallow_other''])
     @ [''-odefault_permissions'']
     @ (case od_fsname od of
          Some n \<Rightarrow> [fst (sprintf_new ''-ofsname=%s'' (''-ofsname='' @ n))]
        | None \<Rightarrow>
            (case mntsrc s of
               Some src \<Rightarrow> if set src \<inter> set ('', '' @ [CHR 0x09, newline]) = {}
                           then [fst (sprintf_new ''-ofsname=%s'' (''-ofsname='' @ src))] else []
             | None \<Rightarrow> []))
     @ [fst (sprintf_new ''-osubtype=%s'' (''-osubtype='' @ the (my_basename (Some (progname s)))))]
     @ (if mntsrc s = mntdest s \<and> env_fuse_version env < 30 then [''-ononempty''] else [])"

definition fuse_args :: "env \<Rightarrow> OptionData \<Rightarrow> Settings \<Rightarrow> string list \<Rightarrow> string list" where
  "fuse_args env od s args = filter_special_opts (args @ added_args env od s)"

text \<open>
  The last steps: open the source directory, clear the umask (keeping the old one) and check lock forwarding.  What is installed in the table of
  callbacks is \<open>installed\<close> of theory \<open>Operations\<close>.
\<close>

definition finish_setup :: "env \<Rightarrow> OptionData \<Rightarrow> Settings \<Rightarrow> stop + Settings" where
  "finish_setup env od s =
     (case env_open_dir env (case mntsrc s of Some d \<Rightarrow> d | None \<Rightarrow> []) of
        Inl e \<Rightarrow> Inl (Exit 1)
      | Inr d \<Rightarrow>
          if enable_lock_forwarding s \<and> \<not> od_multithreaded od then Inl (Exit 1)
          else Inr (s\<lparr>mntsrc_fd := d, original_umask := env_umask env\<rparr>))"

definition configure :: "env \<Rightarrow> OptionData \<Rightarrow> Settings \<Rightarrow> stop + Settings" where
  "configure env od s =
     then_step (then_step (then_step (then_step (then_step (then_step (then_step (then_step (then_step
       (set_owner_options env od s)
       (set_rates env od)) (set_maps env od)) (set_offsets env od)) (set_odirect od)) (set_create_for env od))
       (set_mirror env od)) (set_perms od)) (set_symlink_deletion od)) (finish_setup env od)"

text \<open>
  \<^verbatim>\<open>main\<close> up to the call of \<^verbatim>\<open>fuse_main\<close>: the settings and the arguments, or how the process ends.  \<open>od\<close>, \<open>calls\<close>
  and \<open>args\<close> are what \<^verbatim>\<open>fuse_opt_parse\<close> makes of the command line.
\<close>

definition main :: "env \<Rightarrow> string \<Rightarrow> OptionData \<Rightarrow> (string \<times> OptionKey) list \<Rightarrow> string list
    \<Rightarrow> stop + Settings \<times> string list" where
  "main env argv0 od calls args =
     (case get_working_dir env of
        None \<Rightarrow> Inl Hangs
      | Some working_dir \<Rightarrow>
          (case parse_options env calls (initial_settings env argv0 working_dir) of
             Inl e \<Rightarrow> Inl e
           | Inr s \<Rightarrow>
               if mntsrc s = None \<or> mntdest s = None then Inl (Exit 1)
               else case configure env od s of
                      Inl e \<Rightarrow> Inl e
                    | Inr s \<Rightarrow> Inr (s, fuse_args env od s args)))"

end
