(* ===== verification/Startup.thy ===== *)
theory Startup
  imports Options
begin

text \<open>
  What \<^verbatim>\<open>main\<close> makes of the command line: the settings it hands to the file handlers satisfy the
  invariant those rely on, and the privileged ones are only available to root.
\<close>

section \<open>Steps that keep a property of the settings\<close>

definition keeps :: "(Settings \<Rightarrow> bool) \<Rightarrow> (Settings \<Rightarrow> stop + Settings) \<Rightarrow> bool" where
  "keeps P f \<longleftrightarrow> (\<forall>s s'. P s \<longrightarrow> f s = Inr s' \<longrightarrow> P s')"

named_theorems keeps_rules

lemma keepsI: "(\<And>s s'. P s \<Longrightarrow> f s = Inr s' \<Longrightarrow> P s') \<Longrightarrow> keeps P f"
  by (simp add: keeps_def)

lemma keepsD: "keeps P f \<Longrightarrow> P s \<Longrightarrow> f s = Inr s' \<Longrightarrow> P s'"
  by (simp add: keeps_def)

lemma then_step_Inr: "then_step r f = Inr s' \<longleftrightarrow> (\<exists>s. r = Inr s \<and> f s = Inr s')"
  by (cases r) (simp_all add: then_step_def)

lemma keeps_when_given [keeps_rules]: "(\<And>v. opt = Some v \<Longrightarrow> keeps P (f v)) \<Longrightarrow> keeps P (when_given opt f)"
  by (auto simp: keeps_def when_given_def split: option.split)

lemma keeps_then_step [keeps_rules]: "keeps P f \<Longrightarrow> keeps P g \<Longrightarrow> keeps P (\<lambda>s. then_step (f s) g)"
  unfolding keeps_def then_step_Inr by blast

lemma keeps_as_root [keeps_rules]: "(env_getuid env = 0 \<Longrightarrow> keeps P (f v)) \<Longrightarrow> keeps P (as_root env f v)"
  by (auto simp: keeps_def as_root_def)

lemma keeps_or_exit [keeps_rules]:
  "(\<And>x s. v = Some x \<Longrightarrow> P s \<Longrightarrow> P (f s x)) \<Longrightarrow> keeps P (\<lambda>s. or_exit v (f s))"
  by (auto simp: keeps_def or_exit_def split: option.splits)

lemma keeps_lookup_or_exit [keeps_rules]:
  "(\<And>x s. v = Valid x \<Longrightarrow> P s \<Longrightarrow> P (f s x)) \<Longrightarrow> keeps P (\<lambda>s. lookup_or_exit v (f s))"
  by (auto simp: keeps_def lookup_or_exit_def split: lookup.splits)

lemma keeps_add_rules [keeps_rules]:
  "(\<And>s c r. P s \<Longrightarrow> add_chmod_rules_to_permchain v (ch s) = (r, c) \<Longrightarrow> P (f s c)) \<Longrightarrow>
   keeps P (\<lambda>s. add_rules v (ch s) (f s))"
  by (fastforce simp: keeps_def add_rules_def split: prod.splits if_splits)

text \<open>The steps of \<^verbatim>\<open>main\<close> change these fields; a property of other fields is kept by all of them.\<close>

lemma keeps_configure:
  assumes "keeps P (set_owner_options env od)" "keeps P (set_rates env od)" "keeps P (set_maps env od)"
    "keeps P (set_offsets env od)" "keeps P (set_odirect od)" "keeps P (set_create_for env od)"
    "keeps P (set_mirror env od)" "keeps P (set_perms od)" "keeps P (set_symlink_deletion od)"
    "keeps P (finish_setup env od)"
  shows "keeps P (configure env od)"
  unfolding configure_def [abs_def] by (intro keeps_then_step assms)

lemma mainE:
  assumes "main env argv0 od calls args = Inr (s, args')"
  obtains wd s1 where "get_working_dir env = Some wd"
    "parse_options env calls (initial_settings env argv0 wd) = Inr s1" "mntsrc s1 \<noteq> None" "mntdest s1 \<noteq> None"
    "configure env od s1 = Inr s" "args' = fuse_args env od s args"
  using assms by (auto simp: main_def split: option.splits sum.splits if_splits)

lemma main_keeps:
  assumes "\<And>wd. P (initial_settings env argv0 wd)"
    and callback: "\<And>s s' r arg k. P s \<Longrightarrow> process_option env s arg k = Opt_return r s' \<Longrightarrow> P s'"
    and "keeps P (configure env od)"
    and main: "main env argv0 od calls args = Inr (s, args')"
  shows "P s"
proof -
  have parse: "P s \<Longrightarrow> parse_options env calls s = Inr s' \<Longrightarrow> P s'" for s s'
  proof (induction calls arbitrary: s)
    case (Cons c calls)
    then obtain arg k where c: "c = (arg, k)" by (cases c) auto
    from Cons.prems(2) obtain r s1 where "process_option env s arg k = Opt_return r s1" "parse_options env calls s1 = Inr s'"
      by (auto simp: c split: opt_result.splits if_splits)
    with Cons.IH callback [OF Cons.prems(1)] show ?case by blast
  qed simp
  from main obtain wd s1 where "parse_options env calls (initial_settings env argv0 wd) = Inr s1" "configure env od s1 = Inr s"
    by (rule mainE)
  then show ?thesis using parse assms(1,3) by (blast dest: keepsD)
qed

section \<open>The working directory, and steps that return\<close>

text \<open>
  The buffer sizes tried are 4096, 8192 and so on; after 52 doublings the size has wrapped to 0 and
  stays there.
\<close>

lemma cwd_loop_finds:
  assumes "cwd_loop getcwd n = Some d"
  shows "\<exists>k. getcwd (n * 2 ^ k) = Inr d \<and> (\<forall>j<k. isl (getcwd (n * 2 ^ j)))"
proof (rule cwd_loop.raw_induct
    [where P = "\<lambda>getcwd n d. \<exists>k. getcwd (n * 2 ^ k) = Inr d \<and> (\<forall>j<k. isl (getcwd (n * 2 ^ j)))", OF _ assms])
  fix loop getcwd n d
  assume IH: "\<And>getcwd n d. loop getcwd n = Some d \<Longrightarrow>
      \<exists>k. getcwd (n * 2 ^ k) = Inr d \<and> (\<forall>j<k. isl (getcwd (n * 2 ^ j :: size_t)))"
    and step: "(case getcwd n of Inl (e :: errno) \<Rightarrow> loop getcwd (n * 2) | Inr d \<Rightarrow> Some d) = Some (d :: string)"
  show "\<exists>k. getcwd (n * 2 ^ k) = Inr d \<and> (\<forall>j<k. isl (getcwd (n * 2 ^ j)))"
  proof (cases "getcwd n")
    case (Inl e)
    with step IH [of getcwd "n * 2" d] obtain k where
      k: "getcwd (n * 2 * 2 ^ k) = Inr d" "\<forall>j<k. isl (getcwd (n * 2 * 2 ^ j))" by auto
    have "isl (getcwd (n * 2 ^ j))" if "j < Suc k" for j
      using that k(2) Inl by (cases j) (auto simp: mult.assoc)
    with k(1) show ?thesis by (intro exI [of _ "Suc k"]) (simp add: mult.assoc)
  next
    case (Inr x)
    with step show ?thesis by (intro exI [of _ 0]) simp
  qed
qed

lemma cwd_loop_returns:
  "getcwd (n * 2 ^ k) = Inr d \<Longrightarrow> \<forall>j<k. isl (getcwd (n * 2 ^ j)) \<Longrightarrow> cwd_loop getcwd n = Some d"
proof (induction k arbitrary: n)
  case 0
  then show ?case by (simp add: cwd_loop.simps)
next
  case (Suc k)
  have "isl (getcwd n)" using Suc.prems(2) [rule_format, of 0] by simp
  then obtain e where "getcwd n = Inl e" by (auto simp: isl_def)
  moreover have "isl (getcwd (n * 2 * 2 ^ j))" if "j < k" for j
    using Suc.prems(2) [rule_format, of "Suc j"] that by (simp add: mult.assoc)
  then have "cwd_loop getcwd (n * 2) = Some d" using Suc.IH [of "n * 2"] Suc.prems(1) by (simp add: mult.assoc)
  ultimately show ?case by (simp add: cwd_loop.simps)
qed

lemma buffer_size_wraps: "52 \<le> k \<Longrightarrow> (4096 :: size_t) * 2 ^ k = 0"
proof -
  assume "52 \<le> k"
  have "(4096 :: size_t) * 2 ^ k = 2 ^ (12 + k)" by (simp add: power_add)
  also have "\<dots> = 0" using \<open>52 \<le> k\<close> by (simp add: exp_eq_zero_iff)
  finally show ?thesis .
qed

lemma get_working_dir_Some:
  "get_working_dir env = Some d \<longleftrightarrow>
   (\<exists>k\<le>52. env_getcwd env (4096 * 2 ^ k) = Inr d \<and> (\<forall>j<k. isl (env_getcwd env (4096 * 2 ^ j))))"
proof
  assume "get_working_dir env = Some d"
  then obtain k where k: "env_getcwd env (4096 * 2 ^ k) = Inr d" "\<forall>j<k. isl (env_getcwd env (4096 * 2 ^ j))"
    using cwd_loop_finds [of "env_getcwd env" 4096 d] by (auto simp: get_working_dir_def)
  have "k \<le> 52"
  proof (rule ccontr)
    assume "\<not> k \<le> 52"
    then have k': "52 < k" by (simp only: not_le)
    then have wraps: "(4096 :: size_t) * 2 ^ k = 0" "(4096 :: size_t) * 2 ^ (52 :: nat) = 0"
      by (intro buffer_size_wraps; linarith)+
    from k(1) k(2) [rule_format, OF k'] show False unfolding wraps by simp
  qed
  with k show "\<exists>k\<le>52. env_getcwd env (4096 * 2 ^ k) = Inr d \<and> (\<forall>j<k. isl (env_getcwd env (4096 * 2 ^ j)))" by blast
qed (auto simp: get_working_dir_def intro: cwd_loop_returns)

definition returns :: "(Settings \<Rightarrow> stop + Settings) \<Rightarrow> bool" where
  "returns f \<longleftrightarrow> (\<forall>s. f s \<noteq> Inl Hangs)"

named_theorems returns_rules

lemma returns_when_given [returns_rules]: "(\<And>v. returns (f v)) \<Longrightarrow> returns (when_given opt f)"
  by (simp add: returns_def when_given_def split: option.split)

lemma returns_then_step [returns_rules]: "returns f \<Longrightarrow> returns g \<Longrightarrow> returns (\<lambda>s. then_step (f s) g)"
  by (auto simp: returns_def then_step_def split: sum.split)

lemma returns_as_root [returns_rules]: "returns (f v) \<Longrightarrow> returns (as_root env f v)"
  by (simp add: returns_def as_root_def)

text \<open>
  What the C library documents: \<^verbatim>\<open>getpwnam_r\<close> and \<^verbatim>\<open>getgrnam_r\<close> answer \<^verbatim>\<open>ERANGE\<close> only as long as the buffer is too small.
\<close>

definition lookups_end :: "env \<Rightarrow> bool" where
  "lookups_end env \<longleftrightarrow>
     (\<forall>n. (\<exists>k. fst (env_getpwnam_r env n (1024 * 2 ^ k)) \<noteq> Some ERANGE)
        \<and> (\<exists>k. fst (env_getgrnam_r env n (1024 * 2 ^ k)) \<noteq> Some ERANGE))"

lemma query_loop_ends:
  assumes "\<exists>k. fst (query (n * 2 ^ k)) \<noteq> Some ERANGE"
  shows "query_loop query n \<noteq> None"
proof -
  let ?P = "\<lambda>k. fst (query (n * 2 ^ k)) \<noteq> Some ERANGE"
  have "?P (LEAST k. ?P k)" using assms by (rule LeastI_ex)
  moreover have "fst (query (n * 2 ^ j)) = Some ERANGE" if "j < (LEAST k. ?P k)" for j
    using not_less_Least [OF that] by simp
  ultimately show ?thesis using query_loop_doubling [of "LEAST k. ?P k" query n] by simp
qed

lemma lookups_return:
  assumes "lookups_end env"
  shows "lookup_user env n \<noteq> Never" "lookup_group env n \<noteq> Never"
proof -
  have "query_loop (env_getpwnam_r env n) 1024 \<noteq> None" "query_loop (env_getgrnam_r env n) 1024 \<noteq> None"
    using assms by (auto simp: lookups_end_def intro!: query_loop_ends simp del: not_None_eq)
  then show "lookup_user env n \<noteq> Never" "lookup_group env n \<noteq> Never"
    by (auto simp: lookup_user_def lookup_group_def lookup_of_def user_uid_def group_gid_def split: option.splits prod.splits)
qed

lemma parse_map_lines_return:
  "(\<And>n. value_to_id n \<noteq> Never) \<Longrightarrow> parse_map_lines value_to_id add ls maps \<noteq> None"
proof (induction ls arbitrary: maps)
  case (Cons l ls)
  then have "parse_map_line value_to_id l \<noteq> Line_never" by (auto simp: parse_map_line_def split: list.splits lookup.splits)
  with Cons show ?case by (auto simp: Let_def split: line_result.splits prod.splits)
qed simp

lemma parse_user_map_return:
  assumes "lookups_end env"
  shows "parse_user_map_loop env p maps \<noteq> None"
  using assms
proof (induction env p maps rule: parse_user_map_loop.induct)
  case (1 env p maps)
  have "parse_map_element env (strdup_until p '',:'') \<noteq> Never"
    using lookups_return [OF "1.prems"]
    by (auto simp: parse_map_element_def parse_id_pair_def split: option.splits lookup.splits)
  with 1 show ?case
    by (auto simp: parse_user_map_loop.simps [of env p] Let_def split: lookup.splits prod.splits)
qed

lemma mirror_loop_returns:
  assumes "lookups_end env"
  shows "mirror_loop env nu nm p us gs \<noteq> Mirror_never"
  using assms
proof (induction env nu nm p us gs rule: mirror_loop.induct)
  case (1 env nu nm p us gs)
  show ?case
  proof (cases "int (length us) < nu \<or> int (length gs) < nm")
    case True
    note IH = "1.IH" [OF True refl refl _ "1.prems"]
    show ?thesis
      using True IH lookups_return [OF "1.prems"]
      by (auto simp: mirror_loop.simps [of env nu nm p us gs] Let_def split: lookup.split)
  qed (simp add: mirror_loop.simps [of env nu nm p us gs])
qed

lemma returns_basic [returns_rules]:
  "returns (\<lambda>s. or_exit v (g s))" "returns (\<lambda>s. add_rules r (c s) (h s))" "returns (parse_offset od v' f)"
  "returns (finish_setup env od)"
  by (auto simp: returns_def or_exit_def add_rules_def parse_offset_def
      finish_setup_def Let_def split: option.split prod.split sum.split)

lemma returns_lookup [returns_rules]:
  "lookups_end env \<Longrightarrow> returns (\<lambda>s. lookup_or_exit (lookup_user env n) (g s))"
  "lookups_end env \<Longrightarrow> returns (\<lambda>s. lookup_or_exit (lookup_group env n) (g s))"
  by (auto simp: returns_def lookup_or_exit_def lookups_return split: lookup.split)

lemma returns_maps [returns_rules]:
  assumes "lookups_end env"
  shows "returns (use_map env m)" "returns (use_map_file env g' r' file)"
proof -
  have "parse_map_file env maps file g' \<noteq> None" for maps
    using lookups_return [OF assms] by (simp add: parse_map_file_def parse_map_lines_return del: not_None_eq split: option.split)
  then show "returns (use_map_file env g' r' file)"
    by (cases r') (auto simp: returns_def use_map_file_def simp del: not_None_eq split: option.split)
  show "returns (use_map env m)"
    using parse_user_map_return [OF assms] by (auto simp: returns_def use_map_def parse_user_map_def split: option.split)
qed

lemma returns_mirror [returns_rules]: "lookups_end env \<Longrightarrow> returns (set_mirror env od)"
  using mirror_loop_returns
  by (auto simp: returns_def set_mirror_def when_given_def parse_mirrored_users_def Let_def
      split: option.split mirror_result.split prod.split)

lemma returns_configure:
  assumes "lookups_end env"
  shows "returns (configure env od)"
proof -
  have "returns (set_odirect od)" "returns (set_symlink_deletion od)"
    by (auto simp: returns_def set_odirect_def set_symlink_deletion_def when_given_def Let_def
        split: option.split prod.split)
  moreover have "returns (set_owner_options env od)" "returns (set_rates env od)" "returns (set_maps env od)"
      "returns (set_offsets env od)" "returns (set_create_for env od)" "returns (set_perms od)"
    unfolding set_owner_options_def [abs_def] set_rates_def [abs_def] set_maps_def [abs_def] set_offsets_def [abs_def]
      set_create_for_def [abs_def] set_perms_def [abs_def]
    by (intro returns_rules assms)+
  ultimately show ?thesis unfolding configure_def [abs_def] by (intro returns_rules assms)
qed

lemma parse_options_returns: "parse_options env calls s \<noteq> Inl Hangs"
  by (induction env calls s rule: parse_options.induct) (auto split: opt_result.split)

lemma main_hangs_iff:
  "lookups_end env \<Longrightarrow> main env argv0 od calls args = Inl Hangs \<longleftrightarrow> get_working_dir env = None"
  using returns_configure [of env od] parse_options_returns [of env calls]
  by (auto simp: main_def returns_def split: option.split sum.split)

section \<open>Counting mirrored names\<close>

lemma count_substrs_le: "count_substrs s (c # sub) \<le> count_chars s c"
proof (induction s)
  case (Cons a s)
  then show ?case by (auto simp: strncmp_eq_def)
qed simp

lemma mirror_counts_nonneg: "mirror_counts m = (nu, nm) \<Longrightarrow> 0 \<le> nu \<and> 0 \<le> nm"
  using count_substrs_le [of m "CHR '',''" "''@''"] count_substrs_le [of m "CHR '':''" "''@''"]
  by (auto simp: mirror_counts_def Let_def split: if_splits)

lemma mirror_loop_lengths:
  "mirror_loop env nu nm p us gs = Mirrored us' gs' \<Longrightarrow> int (length us) \<le> nu \<Longrightarrow> int (length gs) \<le> nm \<Longrightarrow>
   int (length us') = nu \<and> int (length gs') = nm"
proof (induction env nu nm p us gs rule: mirror_loop.induct)
  case (1 env nu nm p us gs)
  show ?case
  proof (cases "int (length us) < nu \<or> int (length gs) < nm")
    case True
    note IH = "1.IH" [OF True refl refl]
    show ?thesis
      using "1.prems" True IH
      by (auto simp: mirror_loop.simps [of env nu nm p us gs] Let_def split: if_splits lookup.splits)
  next
    case False
    then show ?thesis using "1.prems" by (auto simp: mirror_loop.simps [of env nu nm p us gs])
  qed
qed

section \<open>The invariant of the settings\<close>

definition setup_ok :: "Settings \<Rightarrow> bool" where
  "setup_ok s \<longleftrightarrow>
     settings_ok s \<and> maps_kept (usermap s) (usermap_reverse s) \<and> mntdest_len s = length (dest_of s)
     \<and> num_mirrored_users s = int (length (mirrored_users s))
     \<and> num_mirrored_members s = int (length (mirrored_members s))"

lemmas setup_ok_defs = setup_ok_def settings_ok_def dest_of_def

lemma setup_ok_initial: "setup_ok (initial_settings env argv0 wd)"
  using maps_kept_create usermap_ok_bounds [OF usermap_create_ok(1)]
  by (simp add: setup_ok_defs initial_settings_def limiter_fine_def) (simp add: permchain_create_def)

lemma setup_ok_nonoption: "setup_ok s \<Longrightarrow> process_nonoption env s arg = Opt_return r s' \<Longrightarrow> setup_ok s'"
  by (clarsimp simp: process_nonoption_def split: if_splits sum.splits; simp add: setup_ok_defs)

lemma setup_ok_callback:
  assumes ok: "setup_ok s" and "process_option env s arg k = Opt_return r s'"
  shows "setup_ok s'"
proof (cases "k = OPTKEY_NONOPTION")
  case True
  then show ?thesis using assms setup_ok_nonoption by (simp add: process_option_def)
next
  case False
  with assms(2) show ?thesis
    by (cases k; clarsimp simp: process_option_def split: if_splits; insert ok; simp add: setup_ok_defs)
qed

lemma setup_ok_owner: "keeps setup_ok (set_owner_options env od)"
  unfolding set_owner_options_def [abs_def] by (intro keeps_rules) (simp_all add: setup_ok_defs)

lemma make_limiter_ok: "make_limiter env spec = Some l \<Longrightarrow> limiter_ok l"
  by (auto simp: make_limiter_def limiter_ok_def rate_limiter_init_def split: option.splits if_splits)

lemma setup_ok_rates: "keeps setup_ok (set_rates env od)"
  unfolding set_rates_def [abs_def]
  by (intro keeps_rules) (auto simp: setup_ok_defs limiter_fine_def dest: make_limiter_ok)

lemma add_pair_kept:
  assumes "maps_kept f r" and "add_pair (if g then usermap_add_gid else usermap_add_uid) (f, r) a b = (True, f', r')"
  shows "maps_kept f' r'"
  using assms add_both_uid_kept [of f r a b f' r'] add_both_gid_kept [of f r a b f' r']
  by (auto simp: add_pair_def Let_def split: prod.splits if_splits)

lemma parse_map_lines_kept:
  "parse_map_lines vi (if g then usermap_add_gid else usermap_add_uid) ls (f, r) = Some (True, f', r') \<Longrightarrow>
   maps_kept f r \<Longrightarrow> maps_kept f' r'"
proof (induction ls arbitrary: f r)
  case (Cons l ls)
  then show ?case
    by (auto simp: Let_def split: line_result.splits prod.splits if_splits dest: add_pair_kept [where g = True, simplified] add_pair_kept [where g = False, simplified])
qed simp

lemma parse_user_map_kept:
  "parse_user_map_loop env p maps = Some (True, f', r') \<Longrightarrow> maps_kept (fst maps) (snd maps) \<Longrightarrow> maps_kept f' r'"
proof (induction env p maps rule: parse_user_map_loop.induct)
  case (1 env p maps)
  show ?case
  proof (cases "p = []")
    case False
    with "1.prems"(1) obtain g a b f1 r1 where e: "parse_map_element env (strdup_until p '',:'') = Valid (g, a, b)"
      and add: "add_pair (if g then usermap_add_gid else usermap_add_uid) maps a b = (True, f1, r1)"
      and rest: "parse_user_map_loop env (tl (dropWhile (\<lambda>c. \<not> list_delim c) p)) (f1, r1) = Some (True, f', r')"
      by (auto simp: parse_user_map_loop.simps [of env p] Let_def split: lookup.splits prod.splits if_splits)
    have "maps_kept f1 r1" using add_pair_kept [of "fst maps" "snd maps" g a b f1 r1] add "1.prems"(2) by simp
    then show ?thesis using "1.IH" [OF False e refl refl add [symmetric] refl] rest by simp
  qed (use "1.prems" in \<open>simp add: parse_user_map_loop.simps\<close>)
qed

lemma parse_map_file_kept:
  "parse_map_file env (f, r) file g = Some (True, f', r') \<Longrightarrow> maps_kept f r \<Longrightarrow> maps_kept f' r'"
  by (auto simp: parse_map_file_def split: option.splits if_splits
      dest: parse_map_lines_kept [where g = True, simplified] parse_map_lines_kept [where g = False, simplified])

lemma use_map_file_kept: "keeps setup_ok (use_map_file env g reversed file)"
proof (rule keepsI)
  fix s s'
  assume ok: "setup_ok s" and step: "use_map_file env g reversed file s = Inr s'"
  have kept: "maps_kept (usermap s) (usermap_reverse s)" "maps_kept (usermap_reverse s) (usermap s)"
    using ok maps_kept_sym by (auto simp: setup_ok_def)
  from step obtain a b where p: "parse_map_file env (if reversed then (usermap_reverse s, usermap s)
      else (usermap s, usermap_reverse s)) file g = Some (True, a, b)"
    and s': "s' = (if reversed then s\<lparr>usermap_reverse := a, usermap := b\<rparr> else s\<lparr>usermap := a, usermap_reverse := b\<rparr>)"
    by (auto simp: use_map_file_def split: option.splits prod.splits if_splits)
  have "maps_kept a b" using p kept parse_map_file_kept by (cases reversed) auto
  then show "setup_ok s'"
    using ok s' maps_kept_sym [of a b] by (simp add: setup_ok_defs maps_kept_def)
qed

lemma use_map_kept: "keeps setup_ok (use_map env spec)"
proof (rule keepsI)
  fix s s'
  assume ok: "setup_ok s" and step: "use_map env spec s = Inr s'"
  from step obtain a b where p: "parse_user_map env (usermap s, usermap_reverse s) spec = Some (True, a, b)"
    and s': "s' = s\<lparr>usermap := a, usermap_reverse := b\<rparr>"
    by (auto simp: use_map_def split: option.splits prod.splits if_splits)
  have "maps_kept a b"
    using parse_user_map_kept [of env spec "(usermap s, usermap_reverse s)" a b] p ok
    by (simp add: parse_user_map_def setup_ok_def)
  then show "setup_ok s'" using ok s' by (simp add: setup_ok_defs maps_kept_def)
qed

lemma setup_ok_maps: "keeps setup_ok (set_maps env od)"
  unfolding set_maps_def [abs_def] by (intro keeps_rules use_map_file_kept use_map_kept)

lemma keeps_parse_offset [keeps_rules]:
  "(\<And>n s. P s \<Longrightarrow> P (f n s)) \<Longrightarrow> keeps P (parse_offset od v f)"
  by (auto simp: keeps_def parse_offset_def Let_def split: prod.splits if_splits)

lemma setup_ok_offsets: "keeps setup_ok (set_offsets env od)"
  unfolding set_offsets_def [abs_def] by (intro keeps_rules) (simp_all add: setup_ok_defs)

lemma setup_ok_odirect: "keeps setup_ok (set_odirect od)"
  unfolding set_odirect_def [abs_def]
  by (intro keeps_rules keepsI) (clarsimp simp: Let_def split: prod.splits if_splits; simp add: setup_ok_defs)

lemma setup_ok_create_for: "keeps setup_ok (set_create_for env od)"
  unfolding set_create_for_def [abs_def] by (intro keeps_rules) (simp_all add: setup_ok_defs)

lemma parse_mirrored_users_counts:
  assumes "parse_mirrored_users env m = Mirrored us gs"
  shows "mirror_counts m = (int (length us), int (length gs))"
proof -
  obtain nu nm where c: "mirror_counts m = (nu, nm)" by (cases "mirror_counts m") auto
  then show ?thesis
    using mirror_loop_lengths [of env nu nm m "[]" "[]" us gs] mirror_counts_nonneg [OF c] assms
    by (simp add: parse_mirrored_users_def)
qed

lemma setup_ok_mirror: "keeps setup_ok (set_mirror env od)"
  by (rule keepsI)
     (clarsimp simp: set_mirror_def when_given_def Let_def split: if_splits option.splits mirror_result.splits;
      (drule parse_mirrored_users_counts)?; simp add: setup_ok_defs)

lemma setup_ok_perms: "keeps setup_ok (set_perms od)"
  unfolding set_perms_def [abs_def]
  by (intro keeps_rules)
     (auto simp: setup_ok_defs dest!: add_chmod_rules_result [rotated] split: if_splits)

lemma setup_ok_symlink_deletion: "keeps setup_ok (set_symlink_deletion od)"
  unfolding set_symlink_deletion_def [abs_def]
  by (intro keeps_rules keepsI) (clarsimp split: if_splits; simp add: setup_ok_defs)

lemma setup_ok_finish: "keeps setup_ok (finish_setup env od)"
  by (rule keepsI) (clarsimp simp: finish_setup_def split: sum.splits if_splits; simp add: setup_ok_defs)

lemma setup_ok_configure: "keeps setup_ok (configure env od)"
  by (intro keeps_configure setup_ok_owner setup_ok_rates setup_ok_maps setup_ok_offsets setup_ok_odirect
      setup_ok_create_for setup_ok_mirror setup_ok_perms setup_ok_symlink_deletion setup_ok_finish)

lemma main_setup_ok: "main env argv0 od calls args = Inr (s, args') \<Longrightarrow> setup_ok s"
  by (rule main_keeps [OF setup_ok_initial setup_ok_callback setup_ok_configure])

section \<open>Fields that later steps leave alone\<close>

definition callback_settings ::
  "Settings \<Rightarrow> string option \<times> string option \<times> bool \<times> bool \<times> bool \<times> XAttrPolicy \<times> ChownPolicy \<times> ChgrpPolicy \<times> ChmodPolicy \<times> bool \<times> bool" where
  "callback_settings s =
     (mntsrc s, mntdest s, delete_deny s, rename_deny s, resolve_symlinks s, xattr_policy s, chown_policy s,
      chgrp_policy s, chmod_policy s, chmod_allow_x s, direct_io s)"

lemma callback_settings_kept: "keeps (\<lambda>s. callback_settings s = x) (configure env od)"
proof (intro keeps_configure)
  let ?P = "\<lambda>s. callback_settings s = x"
  note callback_settings_def [simp]
  show "keeps ?P (set_owner_options env od)" "keeps ?P (set_rates env od)" "keeps ?P (set_create_for env od)"
      "keeps ?P (set_offsets env od)" "keeps ?P (set_perms od)"
    unfolding set_owner_options_def [abs_def] set_rates_def [abs_def] set_create_for_def [abs_def]
      set_offsets_def [abs_def] set_perms_def [abs_def]
    by (intro keeps_rules; simp)+
  show "keeps ?P (set_odirect od)" "keeps ?P (set_mirror env od)" "keeps ?P (set_symlink_deletion od)"
      "keeps ?P (finish_setup env od)"
    by (intro keepsI; clarsimp simp: set_odirect_def set_mirror_def set_symlink_deletion_def finish_setup_def
        when_given_def Let_def split: option.splits prod.splits sum.splits if_splits mirror_result.splits)+
  have "keeps ?P (use_map env m)" "keeps ?P (use_map_file env g r f)" for m g r f
    by (intro keepsI; clarsimp simp: use_map_def use_map_file_def split: option.splits prod.splits if_splits)+
  then show "keeps ?P (set_maps env od)"
    unfolding set_maps_def [abs_def] by (intro keeps_rules)
qed

lemma main_mount_set:
  assumes "main env argv0 od calls args = Inr (s, args')"
  shows "mntsrc s \<noteq> None" "mntdest s \<noteq> None"
proof -
  from assms obtain s1 where s1: "configure env od s1 = Inr s" "mntsrc s1 \<noteq> None" "mntdest s1 \<noteq> None"
    by (rule mainE)
  have "callback_settings s = callback_settings s1" by (rule keepsD [OF callback_settings_kept _ s1(1)]) simp
  then show "mntsrc s \<noteq> None" "mntdest s \<noteq> None" using s1 by (simp_all add: callback_settings_def)
qed

text \<open>A denial given on the command line is not taken back by a later option.\<close>

definition denials :: "Settings \<Rightarrow> OptionKey set" where
  "denials s = (if delete_deny s then {OPTKEY_DELETE_DENY} else {}) \<union> (if rename_deny s then {OPTKEY_RENAME_DENY} else {})"

lemma denials_callback:
  "process_option env s arg k = Opt_return r s' \<Longrightarrow>
   denials s \<union> ({k} \<inter> {OPTKEY_DELETE_DENY, OPTKEY_RENAME_DENY}) \<subseteq> denials s'"
  by (cases k; clarsimp simp: process_option_def process_nonoption_def denials_def split: if_splits sum.splits)

lemma denials_parsed:
  "parse_options env calls s = Inr s' \<Longrightarrow>
   denials s \<union> (snd ` set calls \<inter> {OPTKEY_DELETE_DENY, OPTKEY_RENAME_DENY}) \<subseteq> denials s'"
proof (induction calls arbitrary: s)
  case (Cons c calls)
  obtain arg k where c: "c = (arg, k)" by (cases c)
  from Cons.prems obtain r s1 where s1: "process_option env s arg k = Opt_return r s1" "parse_options env calls s1 = Inr s'"
    by (auto simp: c split: opt_result.splits if_splits)
  show ?case using Cons.IH [OF s1(2)] denials_callback [OF s1(1)] by (auto simp: c)
qed simp

lemma main_denials:
  assumes "main env argv0 od calls args = Inr (s, args')"
  shows "snd ` set calls \<inter> {OPTKEY_DELETE_DENY, OPTKEY_RENAME_DENY} \<subseteq> denials s"
proof -
  from assms obtain wd s1 where s1: "parse_options env calls (initial_settings env argv0 wd) = Inr s1" "configure env od s1 = Inr s"
    by (rule mainE)
  have "callback_settings s = callback_settings s1" by (rule keepsD [OF callback_settings_kept _ s1(2)]) simp
  then have "denials s = denials s1" by (simp add: denials_def callback_settings_def)
  then show ?thesis using denials_parsed [OF s1(1)] by blast
qed

text \<open>What only root may change.\<close>

definition unprivileged :: "Settings \<Rightarrow> bool" where
  "unprivileged s \<longleftrightarrow>
     usermap s = usermap_create \<and> usermap_reverse s = usermap_create \<and> uid_offset s = 0 \<and> gid_offset s = 0
     \<and> create_for_uid s = no_id \<and> create_for_gid s = no_id \<and> create_policy s = CREATE_AS_MOUNTER"

lemma unprivileged_callback:
  assumes "env_getuid env \<noteq> 0" and "unprivileged s" and "process_option env s arg k = Opt_return r s'"
  shows "unprivileged s'"
  using assms
  by (cases k; clarsimp simp: process_option_def process_nonoption_def unprivileged_def split: if_splits sum.splits)

lemma unprivileged_configure:
  assumes "env_getuid env \<noteq> 0"
  shows "keeps unprivileged (configure env od)"
proof (intro keeps_configure)
  show "keeps unprivileged (set_owner_options env od)" "keeps unprivileged (set_rates env od)"
    "keeps unprivileged (set_create_for env od)" "keeps unprivileged (set_offsets env od)"
    "keeps unprivileged (set_perms od)" "keeps unprivileged (set_maps env od)"
    unfolding set_owner_options_def [abs_def] set_rates_def [abs_def] set_create_for_def [abs_def]
      set_offsets_def [abs_def] set_perms_def [abs_def] set_maps_def [abs_def]
    by (intro keeps_rules; use assms in \<open>simp add: unprivileged_def\<close>)+
  show "keeps unprivileged (set_odirect od)" "keeps unprivileged (set_mirror env od)"
    "keeps unprivileged (set_symlink_deletion od)" "keeps unprivileged (finish_setup env od)"
    by (intro keepsI; clarsimp simp: set_odirect_def set_mirror_def set_symlink_deletion_def finish_setup_def
        when_given_def Let_def unprivileged_def split: option.splits prod.splits sum.splits if_splits mirror_result.splits)+
qed

section \<open>The arguments of FUSE\<close>

lemma merge_args_append:
  "args = [] \<or> last args \<noteq> ''-o'' \<Longrightarrow> merge_args (args @ rest) = merge_args args @ merge_args rest"
proof (induction args rule: merge_args.induct)
  case (2 a)
  then show ?case by (cases rest) auto
next
  case (3 a b r)
  show ?case
  proof (cases "a = ''-o''")
    case True
    with "3.prems" have "r = [] \<or> last r \<noteq> ''-o''" by (auto split: if_splits)
    with True "3.IH"(1) show ?thesis by simp
  qed (use 3 in simp)
qed simp

lemma merge_args_id: "''-o'' \<notin> set xs \<Longrightarrow> merge_args xs = xs"
  by (induction xs rule: merge_args.induct) auto

lemma filter_args_keeps:
  "a \<in> set xs \<Longrightarrow> \<not> strncmp_eq a ''-o'' 2 \<or> filter_o_arg keep a = a \<Longrightarrow> a \<noteq> [] \<Longrightarrow> a \<in> set (filter_args keep xs)"
proof (induction xs rule: length_induct)
  case (1 xs)
  then obtain b r where xs: "xs = b # r" by (cases xs) auto
  have IH: "length ys < length xs \<Longrightarrow> a \<in> set ys \<Longrightarrow> a \<in> set (filter_args keep ys)" for ys
    using "1.IH" "1.prems" by blast
  show ?case
  proof (cases r)
    case Nil
    then show ?thesis using "1.prems" by (auto simp: xs)
  next
    case (Cons c r')
    then show ?thesis using "1.prems" IH [of r] IH [of r'] by (auto simp: xs)
  qed
qed

lemma fuse_args_keeps:
  assumes "args = [] \<or> last args \<noteq> ''-o''"
    and "a = ''-odefault_permissions'' \<or> a = ''-oallow_other'' \<and> \<not> od_no_allow_other od
      \<or> a = ''-s'' \<and> \<not> od_multithreaded od"
  shows "a \<in> set (fuse_args env od s args)"
proof -
  have "''-o'' \<notin> set (added_args env od s)" by (auto simp: added_args_def sprintf_new_complete split: option.split)
  then have "merge_args (added_args env od s) = added_args env od s" by (rule merge_args_id)
  then have args: "fuse_args env od s args = filter_args keep_option (merge_args args @ added_args env od s)"
    by (simp add: fuse_args_def filter_special_opts_def filter_o_opts_list merge_args_append [OF assms(1)])
  have "a \<in> set (added_args env od s)" using assms(2) by (auto simp: added_args_def)
  moreover have "\<not> strncmp_eq a ''-o'' 2 \<or> filter_o_arg keep_option a = a" using assms(2)
  proof (elim disjE conjE)
    assume a: "a = ''-odefault_permissions''"
    show ?thesis unfolding a by code_simp
  next
    assume a: "a = ''-oallow_other''"
    show ?thesis unfolding a by code_simp
  next
    assume a: "a = ''-s''"
    show ?thesis unfolding a by code_simp
  qed
  ultimately show ?thesis
    unfolding args using assms(2) by (intro filter_args_keeps) auto
qed

section \<open>The names in a mirror list\<close>

text \<open>The text between delimiters, empty pieces included.\<close>

fun fields :: "string \<Rightarrow> string list" where
  "fields [] = [[]]"
| "fields (c # cs) = (if list_delim c then [] # fields cs else (c # hd (fields cs)) # tl (fields cs))"

definition group_field :: "string \<Rightarrow> bool" where
  "group_field f \<longleftrightarrow> f \<noteq> [] \<and> hd f = CHR ''@''"

lemma fields_nonempty [simp]: "fields s \<noteq> []"
  by (cases s) auto

lemma fields_unfold:
  "fields p = takeWhile (\<lambda>c. \<not> list_delim c) p #
     (case dropWhile (\<lambda>c. \<not> list_delim c) p of [] \<Rightarrow> [] | _ # q \<Rightarrow> fields q)"
  by (induction p) auto

lemma strdup_until_field: "strdup_until p '',:'' = takeWhile (\<lambda>c. \<not> list_delim c) p"
  by (auto simp: strdup_until_def list_delim_def intro!: takeWhile_cong)

lemma length_fields: "length (fields s) = count_chars s (CHR '','') + count_chars s (CHR '':'') + 1"
proof (induction s)
  case (Cons c s)
  have "length (fields s) \<noteq> 0" by simp
  with Cons show ?case by (auto simp: list_delim_def)
qed simp

lemma group_field_simps [simp]: "\<not> group_field []" "group_field (c # cs) \<longleftrightarrow> c = CHR ''@''"
  by (simp_all add: group_field_def)

lemma count_substrs_short: "length s \<le> length sub \<Longrightarrow> count_substrs s sub = 0"
  by (cases s) auto

lemma hd_fields_group: "group_field (hd (fields s)) \<longleftrightarrow> s \<noteq> [] \<and> hd s = CHR ''@''"
  by (cases s) (auto simp: list_delim_def)

lemma count_group_fields:
  "\<not> suffix '',@'' s \<Longrightarrow> \<not> suffix '':@'' s \<Longrightarrow>
   length (filter group_field (fields s)) =
     (if s \<noteq> [] \<and> hd s = CHR ''@'' then 1 else 0) + count_substrs s '',@'' + count_substrs s '':@''"
proof (induction s)
  case (Cons c s)
  have IH: "length (filter group_field (fields s)) =
      (if s \<noteq> [] \<and> hd s = CHR ''@'' then 1 else 0) + count_substrs s '',@'' + count_substrs s '':@''"
    using Cons by (simp add: suffix_Cons)
  show ?case
  proof (cases "list_delim c")
    case True
    show ?thesis
    proof (cases "length s \<le> 1")
      case True
      then have "s = [] \<or> s \<noteq> [] \<and> hd s \<noteq> CHR ''@''"
        using Cons.prems \<open>list_delim c\<close> by (cases s) (auto simp: list_delim_def)
      then show ?thesis
        using True \<open>list_delim c\<close> IH count_substrs_short [of s "'',@''"] count_substrs_short [of s "'':@''"]
        by (auto simp: list_delim_def)
    next
      case False
      then obtain d e r where s: "s = d # e # r" by (cases s rule: list.exhaust; cases "tl s") auto
      then show ?thesis
        using \<open>list_delim c\<close> IH by (auto simp: list_delim_def strncmp_eq_def)
    qed
  next
    case False
    obtain f fs where f: "fields s = f # fs" by (cases "fields s") simp_all
    have h: "group_field f \<longleftrightarrow> s \<noteq> [] \<and> hd s = CHR ''@''" using hd_fields_group [of s] f by simp
    have C: "count_substrs (c # s) '',@'' = count_substrs s '',@''" "count_substrs (c # s) '':@'' = count_substrs s '':@''"
      using False count_substrs_short [of s "'',@''"] count_substrs_short [of s "'':@''"]
      by (auto simp: strncmp_eq_def list_delim_def)
    have "length (filter group_field (fields (c # s))) = (if c = CHR ''@'' then 1 else 0) + length (filter group_field fs)"
      using False f by simp
    moreover have "length (filter group_field fs) = count_substrs s '',@'' + count_substrs s '':@''"
      using IH f h by (simp split: if_splits)
    ultimately show ?thesis by (simp only: C list.sel) simp
  qed
qed simp

lemma mirror_counts_fields:
  assumes "\<not> suffix '',@'' s" and "\<not> suffix '':@'' s"
  shows "mirror_counts s = (int (length (filter (\<lambda>f. \<not> group_field f) (fields s))), int (length (filter group_field (fields s))))"
proof -
  have "length (filter (\<lambda>f. \<not> group_field f) (fields s)) + length (filter group_field (fields s)) = length (fields s)"
    by (metis add.commute sum_length_filter_compl)
  then show ?thesis
    using count_group_fields [OF assms] length_fields [of s]
    by (auto simp: mirror_counts_def Let_def)
qed

text \<open>The loop without its arrays: each field in turn is looked up.\<close>

definition field_lookup :: "env \<Rightarrow> string \<Rightarrow> 32 word lookup" where
  "field_lookup env f = (if group_field f then lookup_group env (tl f) else lookup_user env f)"

fun mirror_fields :: "env \<Rightarrow> string list \<Rightarrow> uid_t list \<Rightarrow> gid_t list \<Rightarrow> mirror_result" where
  "mirror_fields env [] us gs = Mirrored us gs"
| "mirror_fields env (f # fs) us gs =
     (case field_lookup env f of
        Never \<Rightarrow> Mirror_never
      | Invalid \<Rightarrow> Mirror_invalid
      | Valid n \<Rightarrow> if group_field f then mirror_fields env fs us (gs @ [n]) else mirror_fields env fs (us @ [n]) gs)"

lemma mirror_loop_fields:
  "nu = int (length us + length (filter (\<lambda>f. \<not> group_field f) (fields p))) \<Longrightarrow>
   nm = int (length gs + length (filter group_field (fields p))) \<Longrightarrow>
   mirror_loop env nu nm p us gs = mirror_fields env (fields p) us gs"
proof (induction p arbitrary: us gs rule: length_induct)
  case (1 p)
  let ?f = "takeWhile (\<lambda>c. \<not> list_delim c) p" and ?q = "dropWhile (\<lambda>c. \<not> list_delim c) p"
  let ?fs = "case ?q of [] \<Rightarrow> [] | _ # q \<Rightarrow> fields q"
  have fp: "fields p = ?f # ?fs" by (rule fields_unfold)
  have g: "?f \<noteq> [] \<and> hd ?f = CHR ''@'' \<longleftrightarrow> group_field ?f" by (simp add: group_field_def)
  have cond: "int (length us) < nu \<or> int (length gs) < nm" using "1.prems" fp by (auto split: if_splits)
  show ?case
  proof (cases ?q)
    case Nil
    then have "nu = int (length us + (if group_field ?f then 0 else 1))" "nm = int (length gs + (if group_field ?f then 1 else 0))"
      using "1.prems" fp by (simp_all del: dropWhile_eq_Nil_conv)
    then show ?thesis
      using Nil fp by (auto simp: mirror_loop.simps [of _ _ _ p] strdup_until_field g Let_def field_lookup_def
          simp del: dropWhile_eq_Nil_conv split: lookup.split)
  next
    case (Cons d q)
    have less: "length q < length p" using length_dropWhile_le [of "\<lambda>c. \<not> list_delim c" p] Cons by simp
    show ?thesis
    proof (cases "group_field ?f")
      case True
      then have "mirror_loop env nu nm q us (gs @ [x]) = mirror_fields env (fields q) us (gs @ [x])" for x
        using "1.IH" [rule_format, OF less, of us "gs @ [x]"] "1.prems" fp Cons by simp
      then show ?thesis
        using True "1.prems" fp cond Cons
        by (simp add: mirror_loop.simps [of _ _ _ p] strdup_until_field g Let_def field_lookup_def split: lookup.split)
    next
      case False
      then have "mirror_loop env nu nm q (us @ [x]) gs = mirror_fields env (fields q) (us @ [x]) gs" for x
        using "1.IH" [rule_format, OF less, of "us @ [x]" gs] "1.prems" fp Cons by simp
      then show ?thesis
        using False "1.prems" fp cond Cons
        by (simp add: mirror_loop.simps [of _ _ _ p] strdup_until_field g Let_def field_lookup_def split: lookup.split)
    qed
  qed
qed

lemma mirror_fields_result:
  "mirror_fields env fs us gs =
     (case find (\<lambda>f. \<not> is_valid (field_lookup env f)) fs of
        None \<Rightarrow> Mirrored (us @ map (\<lambda>f. found (field_lookup env f)) (filter (\<lambda>f. \<not> group_field f) fs))
                  (gs @ map (\<lambda>f. found (field_lookup env f)) (filter group_field fs))
      | Some f \<Rightarrow> if field_lookup env f = Never then Mirror_never else Mirror_invalid)"
  by (induction fs arbitrary: us gs) (auto split: lookup.split option.split)

section \<open>Properties\<close>

text \<open>A command line for examples: every value option absent, and a system with numeric users only.\<close>

definition no_options :: OptionData where
  "no_options =
     \<lparr>od_user = None, od_deprecated_user = None, od_group = None, od_deprecated_group = None, od_perms = None,
      od_mirror = None, od_mirror_only = None, od_map = None, od_map_passwd = None, od_map_group = None,
      od_map_passwd_rev = None, od_map_group_rev = None, od_read_rate = None, od_write_rate = None,
      od_create_for_user = None, od_create_for_group = None, od_create_with_perms = None, od_chmod_filter = None,
      od_resolved_symlink_deletion = None, od_no_allow_other = False, od_multithreaded = False,
      od_forward_odirect = None, od_uid_offset = None, od_gid_offset = None, od_fsname = None\<rparr>"

definition example_env :: "uid_t \<Rightarrow> env" where
  "example_env u =
     \<lparr>env_getuid = u, env_getpwnam_r = (\<lambda>n k. (None, None)), env_getgrnam_r = (\<lambda>n k. (None, None)),
      env_realpath = Inr, env_file = (\<lambda>f. None), env_strtod = (\<lambda>v. (0, v)), env_gettimeofday = (0, 0),
      env_open_dir = (\<lambda>d. Inr 3), env_fuse_version = 312, env_getcwd = (\<lambda>n. Inr ''/home''), env_umask = 18\<rparr>"

definition example_calls :: "(string \<times> OptionKey) list" where
  "example_calls = [(''/src'', OPTKEY_NONOPTION), (''--delete-deny'', OPTKEY_DELETE_DENY), (''/mnt'', OPTKEY_NONOPTION)]"

text \<open>
  C6. If \<^verbatim>\<open>main\<close> gets as far as \<^verbatim>\<open>fuse_main\<close>, the settings satisfy the invariant the file handlers rely
  on: well-formed permission rules, array bounds of the user maps, usable rate limiters, a direct
  I/O alignment other than 0, the source directory and the mount point set with the right length, and
  as many mirrored users and groups as were counted.  Unless an id was mapped to -1, the two user
  maps are inverse to each other, whichever of \<^verbatim>\<open>--map\<close>, \<^verbatim>\<open>--map-passwd\<close>, \<^verbatim>\<open>--map-group\<close> and their reversed
  forms were combined.
\<close>

theorem main_establishes_settings:
  assumes "main env argv0 od calls args = Inr (s, args')"
  shows "settings_ok s \<and> mntsrc s \<noteq> None \<and> (\<exists>d. mntdest s = Some d \<and> mntdest_len s = length d)
    \<and> num_mirrored_users s = int (length (mirrored_users s))
    \<and> num_mirrored_members s = int (length (mirrored_members s))
    \<and> (no_id \<notin> map_targets (usermap s) \<union> map_targets (usermap_reverse s) \<longrightarrow> maps_ok (usermap s) (usermap_reverse s))"
proof -
  have ok: "setup_ok s" using assms by (rule main_setup_ok)
  with main_mount_set [OF assms] show ?thesis by (auto simp: setup_ok_def maps_kept_def dest_of_def)
qed

theorem main_establishes_settings_witness:
  "\<exists>s args'. main (example_env 0) ''bindfs'' (no_options\<lparr>od_map := Some ''1000/2000:@7/@8''\<rparr>) example_calls [] = Inr (s, args')
     \<and> settings_ok s \<and> delete_deny s \<and> usermap_get_uid_or_default (usermap s) 1000 5 = 2000
     \<and> usermap_get_gid_or_default (usermap_reverse s) 8 5 = 7 \<and> mntdest s = Some ''/mnt''"
proof -
  let ?m = "main (example_env 0) ''bindfs'' (no_options\<lparr>od_map := Some ''1000/2000:@7/@8''\<rparr>) example_calls []"
  have "case ?m of Inl e \<Rightarrow> False | Inr (s, args') \<Rightarrow>
      delete_deny s \<and> usermap_get_uid_or_default (usermap s) 1000 5 = 2000
      \<and> usermap_get_gid_or_default (usermap_reverse s) 8 5 = 7 \<and> mntdest s = Some ''/mnt''"
    by code_simp
  then obtain s args' where m: "?m = Inr (s, args')"
      "delete_deny s \<and> usermap_get_uid_or_default (usermap s) 1000 5 = 2000
      \<and> usermap_get_gid_or_default (usermap_reverse s) 8 5 = 7 \<and> mntdest s = Some ''/mnt''"
    by (auto split: sum.splits)
  from main_establishes_settings [OF m(1)] m show ?thesis by blast
qed

text \<open>
  C7. Options that change ownership are for root: when \<^verbatim>\<open>main\<close> run by another user gets as far as
  \<^verbatim>\<open>fuse_main\<close>, no user or group is mapped, no id is offset, no owner is forced on new files, and files
  are created as the mounter.
\<close>

theorem main_unprivileged:
  assumes "env_getuid env \<noteq> 0" and "main env argv0 od calls args = Inr (s, args')"
  shows "usermap s = usermap_create \<and> usermap_reverse s = usermap_create \<and> uid_offset s = 0 \<and> gid_offset s = 0
    \<and> create_for_uid s = no_id \<and> create_for_gid s = no_id \<and> create_policy s = CREATE_AS_MOUNTER"
proof -
  have "unprivileged (initial_settings env argv0 wd)" for wd
    using assms(1) by (simp add: unprivileged_def initial_settings_def)
  from main_keeps [of unprivileged, OF this unprivileged_callback [OF assms(1)] unprivileged_configure [OF assms(1)] assms(2)]
  show ?thesis by (simp add: unprivileged_def)
qed

theorem main_unprivileged_witness:
  "\<exists>s args'. main (example_env 1000) ''bindfs'' no_options example_calls [] = Inr (s, args')
     \<and> usermap s = usermap_create \<and> create_policy s = CREATE_AS_MOUNTER
     \<and> main (example_env 1000) ''bindfs'' (no_options\<lparr>od_map := Some ''1000/2000''\<rparr>) example_calls [] = Inl (Exit 1)"
proof -
  let ?m = "main (example_env 1000) ''bindfs'' no_options example_calls []"
  have u: "env_getuid (example_env 1000) \<noteq> 0" by (simp add: example_env_def)
  have "case ?m of Inl e \<Rightarrow> False | Inr _ \<Rightarrow> True" by code_simp
  then obtain s args' where m: "?m = Inr (s, args')" by (auto split: sum.splits)
  have "case main (example_env 1000) ''bindfs'' (no_options\<lparr>od_map := Some ''1000/2000''\<rparr>) example_calls [] of
      Inl e \<Rightarrow> e = Exit 1 | Inr _ \<Rightarrow> False" by code_simp
  then have "main (example_env 1000) ''bindfs'' (no_options\<lparr>od_map := Some ''1000/2000''\<rparr>) example_calls [] = Inl (Exit 1)"
    by (auto split: sum.splits)
  with main_unprivileged [OF u m] m show ?thesis by blast
qed

text \<open>
  C33. The first thing \<^verbatim>\<open>main\<close> does is to ask for the working directory, with a buffer that doubles until
  the call succeeds.  It hangs exactly when \<^verbatim>\<open>getcwd\<close> fails for each of the 53 different buffer sizes, in
  particular when it fails for a reason that has nothing to do with the size (the directory was
  removed, or may not be read); otherwise it goes on with what the first successful call returned, and
  \<^verbatim>\<open>main\<close> ends or gets as far as \<^verbatim>\<open>fuse_main\<close>, provided that the lookups of user and group names answer
  \<^verbatim>\<open>ERANGE\<close> only as long as the buffer is too small.
\<close>

theorem main_hangs:
  assumes "lookups_end env"
  shows "(main env argv0 od calls args = Inl Hangs \<longleftrightarrow> list_all (\<lambda>k. isl (env_getcwd env (4096 * 2 ^ k))) [0..<53])
   \<and> (get_working_dir env = Some dir \<longleftrightarrow>
        (\<exists>k\<le>52. env_getcwd env (4096 * 2 ^ k) = Inr dir \<and> list_all (\<lambda>j. isl (env_getcwd env (4096 * 2 ^ j))) [0..<k]))"
proof -
  let ?g = "\<lambda>k. env_getcwd env (4096 * 2 ^ k)"
  have some: "\<exists>d. get_working_dir env = Some d" if "\<not> isl (?g k)" "k \<le> 52" for k
  proof -
    define m where "m = (LEAST k. \<not> isl (?g k))"
    have "\<not> isl (?g m)" using LeastI [of "\<lambda>k. \<not> isl (?g k)", OF that(1)] by (simp add: m_def)
    moreover have "\<forall>j<m. isl (?g j)" using not_less_Least by (auto simp: m_def)
    moreover have "m \<le> 52" using Least_le [of "\<lambda>k. \<not> isl (?g k)", OF that(1)] that(2) by (simp add: m_def)
    ultimately show ?thesis unfolding get_working_dir_Some by (cases "?g m") auto
  qed
  have "main env argv0 od calls args = Inl Hangs \<longleftrightarrow> (\<forall>k\<le>52. isl (?g k))"
    unfolding main_hangs_iff [OF assms]
  proof
    assume "\<forall>k\<le>52. isl (?g k)"
    then have "get_working_dir env \<noteq> Some d" for d unfolding get_working_dir_Some by force
    then show "get_working_dir env = None" by (cases "get_working_dir env") blast+
  qed (use some in auto)
  moreover have "(\<forall>k\<le>52. isl (?g k)) \<longleftrightarrow> list_all (\<lambda>k. isl (?g k)) [0..<53]"
    by (auto simp: list_all_iff)
  ultimately show ?thesis by (simp add: get_working_dir_Some list_all_iff Ball_def)
qed

theorem main_hangs_witness:
  "main ((example_env 0)\<lparr>env_getcwd := (\<lambda>n. Inl ENOENT)\<rparr>) ''bindfs'' no_options example_calls [] = Inl Hangs
   \<and> get_working_dir (example_env 0) = Some ''/home''"
proof -
  let ?e = "(example_env 0)\<lparr>env_getcwd := (\<lambda>n. Inl ENOENT)\<rparr>"
  have e: "lookups_end ?e" "lookups_end (example_env 0)" by (simp_all add: lookups_end_def example_env_def)
  have "main ?e ''bindfs'' no_options example_calls [] = Inl Hangs"
    using main_hangs [OF e(1)] by (simp add: list_all_iff)
  moreover have "get_working_dir (example_env 0) = Some ''/home''"
    using main_hangs [OF e(2), where dir = "''/home''"] by (auto simp: example_env_def intro: exI [of _ 0])
  ultimately show ?thesis by blast
qed

text \<open>
  C35. The kernel is asked to check permissions: \<^verbatim>\<open>-odefault_permissions\<close> is among the arguments of
  \<^verbatim>\<open>fuse_main\<close>, with \<^verbatim>\<open>-oallow_other\<close> and \<^verbatim>\<open>-s\<close> unless switched off, whatever options of \<^verbatim>\<open>mount\<close> are filtered
  out.  (The arguments that \<^verbatim>\<open>fuse_opt_parse\<close> leaves do not end in a lone \<^verbatim>\<open>-o\<close>.)
\<close>

theorem main_default_permissions:
  assumes "main env argv0 od calls args = Inr (s, args')" and "args = [] \<or> last args \<noteq> ''-o''"
  shows "''-odefault_permissions'' \<in> set args' \<and> (od_no_allow_other od \<or> ''-oallow_other'' \<in> set args')
    \<and> (od_multithreaded od \<or> ''-s'' \<in> set args')"
proof -
  have "args' = fuse_args env od s args" using assms(1) by (rule mainE)
  then show ?thesis using fuse_args_keeps [OF assms(2)] by blast
qed

theorem main_default_permissions_witness:
  "\<exists>s args'. main (example_env 1000) ''bindfs'' no_options example_calls [''bindfs'', ''-o'', ''nofail,user'', ''/mnt''] = Inr (s, args')
     \<and> ''-odefault_permissions'' \<in> set args'
     \<and> args' = [''bindfs'', ''/mnt'', ''-s'', ''-oallow_other'', ''-odefault_permissions'', ''-ofsname=/src'', ''-osubtype=bindfs'']"
proof -
  let ?a = "[''bindfs'', ''-o'', ''nofail,user'', ''/mnt'']"
  let ?m = "main (example_env 1000) ''bindfs'' no_options example_calls ?a"
  have "case ?m of Inl e \<Rightarrow> False | Inr (s, args') \<Rightarrow>
    args' = [''bindfs'', ''/mnt'', ''-s'', ''-oallow_other'', ''-odefault_permissions'', ''-ofsname=/src'', ''-osubtype=bindfs'']"
    by code_simp
  then obtain s args' where m: "?m = Inr (s, args')" and a:
      "args' = [''bindfs'', ''/mnt'', ''-s'', ''-oallow_other'', ''-odefault_permissions'', ''-ofsname=/src'', ''-osubtype=bindfs'']"
    by (auto split: sum.splits)
  have "''-odefault_permissions'' \<in> set args'" using main_default_permissions [OF m] by simp
  with m a show ?thesis by blast
qed

text \<open>
  C36. \<^verbatim>\<open>parse_mirrored_users\<close> on a list that does not end in \<^verbatim>\<open>,@\<close> or \<^verbatim>\<open>:@\<close>: no assertion fails, no write
  leaves the arrays, and the result holds the ids of the names between the delimiters, in order,
  with those that begin with \<^verbatim>\<open>@\<close> as groups; it is an error exactly when the first of them without an id
  is not a valid name (rather than one whose lookup never returns).
\<close>

theorem parse_mirrored_users_correct:
  assumes "\<not> suffix '',@'' m" and "\<not> suffix '':@'' m"
  shows "parse_mirrored_users env m =
    (case find (\<lambda>f. \<not> is_valid (field_lookup env f)) (fields m) of
       None \<Rightarrow> Mirrored (map (\<lambda>f. found (field_lookup env f)) (filter (\<lambda>f. \<not> group_field f) (fields m)))
                 (map (\<lambda>f. found (field_lookup env f)) (filter group_field (fields m)))
     | Some f \<Rightarrow> if field_lookup env f = Never then Mirror_never else Mirror_invalid)"
  using mirror_loop_fields [of _ "[]" m _ "[]" env]
  by (simp add: parse_mirrored_users_def mirror_counts_fields [OF assms] mirror_fields_result cong: option.case_cong)

theorem parse_mirrored_users_correct_witness:
  "\<not> suffix '',@'' ''1000,@100:7'' \<and> \<not> suffix '':@'' ''1000,@100:7''
   \<and> parse_mirrored_users (example_env 0) ''1000,@100:7'' = Mirrored [1000, 7] [100]"
proof -
  have s: "\<not> suffix '',@'' ''1000,@100:7''" "\<not> suffix '':@'' ''1000,@100:7''" by (simp_all add: suffix_def)
  have f: "fields ''1000,@100:7'' = [''1000'', ''@100'', ''7'']" by code_simp
  have v: "field_lookup (example_env 0) ''1000'' = Valid 1000" "field_lookup (example_env 0) ''7'' = Valid 7"
    "field_lookup (example_env 0) ''@100'' = Valid 100" by code_simp+
  show ?thesis
    unfolding parse_mirrored_users_correct [OF s] f using s by (simp add: v)
qed

lemma count_substrs_no_delim:
  "\<forall>c \<in> set n. \<not> list_delim c \<Longrightarrow> list_delim d \<Longrightarrow> count_substrs (n @ [x, y]) [d, CHR ''@''] = 0"
  by (induction n) (auto simp: strncmp_eq_def)

lemma count_chars_no_delim: "\<forall>c \<in> set n. \<not> list_delim c \<Longrightarrow> list_delim d \<Longrightarrow> count_chars (n @ m) d = count_chars m d"
  by (induction n) auto

lemma lookup_group_empty: "lookup_group env [] = Valid 0"
proof -
  have "strtol 10 [] = (0, [])" by code_simp
  then show ?thesis by (simp add: lookup_group_def lookup_of_def group_gid_def)
qed

text \<open>
  C38. The error behind that hypothesis: the occurrence of \<^verbatim>\<open>,@\<close> at the very end is not counted, so for a
  valid user name followed by \<^verbatim>\<open>,@\<close> the array of groups is allocated with no cells and then written (the
  empty name being accepted as the id 0).
\<close>

theorem parse_mirrored_users_overflows:
  assumes "\<forall>c \<in> set n. \<not> list_delim c" and "\<not> group_field n" and "lookup_user env n = Valid u"
  shows "parse_mirrored_users env (n @ '',@'') = Mirror_out_of_bounds"
proof -
  have d: "list_delim (CHR '','')" "list_delim (CHR '':'')" "\<not> list_delim (CHR ''@'')" by (simp_all add: list_delim_def)
  have "\<not> (n @ '',@'' \<noteq> [] \<and> hd (n @ '',@'') = CHR ''@'')"
    using assms(2) by (cases n) (auto simp: group_field_def)
  then have counts: "mirror_counts (n @ '',@'') = (2, 0)"
    using count_substrs_no_delim [OF assms(1)] count_chars_no_delim [OF assms(1)] d
    by (simp add: mirror_counts_def Let_def)
  have field: "takeWhile (\<lambda>c. \<not> list_delim c) (n @ '',@'') = n" "dropWhile (\<lambda>c. \<not> list_delim c) (n @ '',@'') = '',@''"
    using assms(1) d(1) takeWhile_append2 [of n "\<lambda>c. \<not> list_delim c"] dropWhile_append2 [of n "\<lambda>c. \<not> list_delim c"] by auto
  have "mirror_loop env 2 0 ''@'' [u] [] = Mirror_out_of_bounds"
    using d(3) by (simp add: mirror_loop.simps [of _ _ _ "''@''"] strdup_until_field lookup_group_empty Let_def)
  then show ?thesis
    using assms(2,3)
    by (auto simp: parse_mirrored_users_def counts mirror_loop.simps [of _ _ _ "n @ '',@''"] strdup_until_field field
        group_field_def Let_def)
qed

theorem parse_mirrored_users_overflows_witness:
  "list_all (\<lambda>c. \<not> list_delim c) ''1000'' \<and> \<not> group_field ''1000'' \<and> lookup_user (example_env 0) ''1000'' = Valid 1000
   \<and> parse_mirrored_users (example_env 0) ''1000,@'' = Mirror_out_of_bounds"
proof -
  have l: "list_all (\<lambda>c. \<not> list_delim c) ''1000''" by (simp add: list_delim_def)
  have v: "lookup_user (example_env 0) ''1000'' = Valid 1000" by code_simp
  from parse_mirrored_users_overflows [of "''1000''", OF _ _ v] l v show ?thesis by (simp add: list_all_iff)
qed

end
