(* ===== verification/Opttable.thy ===== *)
theory Opttable
  imports Options
begin

text \<open>
  The table of options \<^verbatim>\<open>main\<close> (\<^verbatim>\<open>src/bindfs.c\<close>) gives to \<^verbatim>\<open>fuse_opt_parse\<close>, and the usage text.  An entry is a template
  with what a match does: store in a field of the option data, or call \<^verbatim>\<open>process_option\<close> with a key.
\<close>

section \<open>The table\<close>

text \<open>The fields of \<^verbatim>\<open>struct OptionData\<close>, which the table refers to by their offsets.\<close>

datatype OptionField =
    Od_user | Od_deprecated_user | Od_group | Od_deprecated_group | Od_perms
  | Od_mirror | Od_mirror_only | Od_map | Od_map_passwd | Od_map_group
  | Od_map_passwd_rev | Od_map_group_rev | Od_read_rate | Od_write_rate | Od_create_for_user
  | Od_create_for_group | Od_create_with_perms | Od_chmod_filter | Od_resolved_symlink_deletion | Od_no_allow_other
  | Od_multithreaded | Od_forward_odirect | Od_uid_offset | Od_gid_offset | Od_fsname

datatype opt_target = Key OptionKey | Store OptionField

definition options :: "(string \<times> opt_target) list" where
  "options =
     [
      (''-h'', Key OPTKEY_HELP), (''--help'', Key OPTKEY_HELP),
      (''-V'', Key OPTKEY_VERSION), (''--version'', Key OPTKEY_VERSION),
      (''--fuse-version'', Key OPTKEY_FUSE_VERSION), (''-u %s'', Store Od_user),
      (''--force-user=%s'', Store Od_user), (''force-user=%s'', Store Od_user),
      (''-g %s'', Store Od_group), (''--force-group=%s'', Store Od_group),
      (''force-group=%s'', Store Od_group), (''--user=%s'', Store Od_deprecated_user),
      (''--owner=%s'', Store Od_deprecated_user), (''owner=%s'', Store Od_deprecated_user),
      (''--group=%s'', Store Od_deprecated_group), (''group=%s'', Store Od_deprecated_group),
      (''-p %s'', Store Od_perms), (''--perms=%s'', Store Od_perms),
      (''perms=%s'', Store Od_perms), (''-m %s'', Store Od_mirror),
      (''--mirror=%s'', Store Od_mirror), (''mirror=%s'', Store Od_mirror),
      (''-M %s'', Store Od_mirror_only), (''--mirror-only=%s'', Store Od_mirror_only),
      (''mirror-only=%s'', Store Od_mirror_only), (''--map=%s'', Store Od_map),
      (''map=%s'', Store Od_map), (''--map-passwd=%s'', Store Od_map_passwd),
      (''map-passwd=%s'', Store Od_map_passwd), (''--map-group=%s'', Store Od_map_group),
      (''map-group=%s'', Store Od_map_group), (''--map-passwd-rev=%s'', Store Od_map_passwd_rev),
      (''map-passwd-rev=%s'', Store Od_map_passwd_rev), (''--map-group-rev=%s'', Store Od_map_group_rev),
      (''map-group-rev=%s'', Store Od_map_group_rev), (''-n'', Store Od_no_allow_other),
      (''--no-allow-other'', Store Od_no_allow_other), (''no-allow-other'', Store Od_no_allow_other),
      (''--read-rate=%s'', Store Od_read_rate), (''read-rate=%s'', Store Od_read_rate),
      (''--write-rate=%s'', Store Od_write_rate), (''write-rate=%s'', Store Od_write_rate),
      (''--create-as-user'', Key OPTKEY_CREATE_AS_USER), (''create-as-user'', Key OPTKEY_CREATE_AS_USER),
      (''--create-as-mounter'', Key OPTKEY_CREATE_AS_MOUNTER), (''create-as-mounter'', Key OPTKEY_CREATE_AS_MOUNTER),
      (''--create-for-user=%s'', Store Od_create_for_user), (''create-for-user=%s'', Store Od_create_for_user),
      (''--create-for-group=%s'', Store Od_create_for_group), (''create-for-group=%s'', Store Od_create_for_group),
      (''--create-with-perms=%s'', Store Od_create_with_perms), (''create-with-perms=%s'', Store Od_create_with_perms),
      (''--chown-normal'', Key OPTKEY_CHOWN_NORMAL), (''chown-normal'', Key OPTKEY_CHOWN_NORMAL),
      (''--chown-ignore'', Key OPTKEY_CHOWN_IGNORE), (''chown-ignore'', Key OPTKEY_CHOWN_IGNORE),
      (''--chown-deny'', Key OPTKEY_CHOWN_DENY), (''chown-deny'', Key OPTKEY_CHOWN_DENY),
      (''--chgrp-normal'', Key OPTKEY_CHGRP_NORMAL), (''chgrp-normal'', Key OPTKEY_CHGRP_NORMAL),
      (''--chgrp-ignore'', Key OPTKEY_CHGRP_IGNORE), (''chgrp-ignore'', Key OPTKEY_CHGRP_IGNORE),
      (''--chgrp-deny'', Key OPTKEY_CHGRP_DENY), (''chgrp-deny'', Key OPTKEY_CHGRP_DENY),
      (''--chmod-normal'', Key OPTKEY_CHMOD_NORMAL), (''chmod-normal'', Key OPTKEY_CHMOD_NORMAL),
      (''--chmod-ignore'', Key OPTKEY_CHMOD_IGNORE), (''chmod-ignore'', Key OPTKEY_CHMOD_IGNORE),
      (''--chmod-deny'', Key OPTKEY_CHMOD_DENY), (''chmod-deny'', Key OPTKEY_CHMOD_DENY),
      (''--chmod-filter=%s'', Store Od_chmod_filter), (''chmod-filter=%s'', Store Od_chmod_filter),
      (''--chmod-allow-x'', Key OPTKEY_CHMOD_ALLOW_X), (''chmod-allow-x'', Key OPTKEY_CHMOD_ALLOW_X),
      (''--xattr-none'', Key OPTKEY_XATTR_NONE), (''xattr-none'', Key OPTKEY_XATTR_NONE),
      (''--xattr-ro'', Key OPTKEY_XATTR_READ_ONLY), (''xattr-ro'', Key OPTKEY_XATTR_READ_ONLY),
      (''--xattr-rw'', Key OPTKEY_XATTR_READ_WRITE), (''xattr-rw'', Key OPTKEY_XATTR_READ_WRITE),
      (''--delete-deny'', Key OPTKEY_DELETE_DENY), (''delete-deny'', Key OPTKEY_DELETE_DENY),
      (''--rename-deny'', Key OPTKEY_RENAME_DENY), (''rename-deny'', Key OPTKEY_RENAME_DENY),
      (''--direct-io'', Key OPTKEY_DIRECT_IO), (''direct-io'', Key OPTKEY_DIRECT_IO),
      (''--no-direct-io'', Key OPTKEY_NO_DIRECT_IO), (''no-direct-io'', Key OPTKEY_NO_DIRECT_IO),
      (''--hide-hard-links'', Key OPTKEY_HIDE_HARD_LINKS), (''hide-hard-links'', Key OPTKEY_HIDE_HARD_LINKS),
      (''--resolve-symlinks'', Key OPTKEY_RESOLVE_SYMLINKS), (''resolve-symlinks'', Key OPTKEY_RESOLVE_SYMLINKS),
      (''--resolved-symlink-deletion=%s'', Store Od_resolved_symlink_deletion), (''resolved-symlink-deletion=%s'', Store Od_resolved_symlink_deletion),
      (''--block-devices-as-files'', Key OPTKEY_BLOCK_DEVICES_AS_FILES), (''block-devices-as-files'', Key OPTKEY_BLOCK_DEVICES_AS_FILES),
      (''--realistic-permissions'', Key OPTKEY_REALISTIC_PERMISSIONS), (''realistic-permissions'', Key OPTKEY_REALISTIC_PERMISSIONS),
      (''--ctime-from-mtime'', Key OPTKEY_CTIME_FROM_MTIME), (''ctime-from-mtime'', Key OPTKEY_CTIME_FROM_MTIME),
      (''--enable-lock-forwarding'', Key OPTKEY_ENABLE_LOCK_FORWARDING), (''enable-lock-forwarding'', Key OPTKEY_ENABLE_LOCK_FORWARDING),
      (''--disable-lock-forwarding'', Key OPTKEY_DISABLE_LOCK_FORWARDING), (''disable-lock-forwarding'', Key OPTKEY_DISABLE_LOCK_FORWARDING),
      (''--enable-ioctl'', Key OPTKEY_ENABLE_IOCTL), (''enable-ioctl'', Key OPTKEY_ENABLE_IOCTL),
      (''--multithreaded'', Store Od_multithreaded), (''multithreaded'', Store Od_multithreaded),
      (''--forward-odirect=%s'', Store Od_forward_odirect), (''forward-odirect=%s'', Store Od_forward_odirect),
      (''--uid-offset=%s'', Store Od_uid_offset), (''uid-offset=%s'', Store Od_uid_offset),
      (''--gid-offset=%s'', Store Od_gid_offset), (''gid-offset=%s'', Store Od_gid_offset),
      (''fsname=%s'', Store Od_fsname)
     ]"

section \<open>The usage text\<close>

text \<open>The lines that follow \<^verbatim>\<open>Usage:\<close>.\<close>

definition usage_lines :: "string list" where
  "usage_lines =
     [
      ''Information:'',
      ''  -h      --help            Print this and exit.'',
      ''  -V      --version         Print version number and exit.'',
      ''          --fuse-version    Print version of FUSE library.'',
      [],
      ''File ownership:'',
      ''  -u      --force-user=...  Set file owner.'',
      ''  -g      --force-group=... Set file group.'',
      ''  -m      --mirror=...      Comma-separated list of users who will see'',
      ''                            themselves as the owners of all files.'',
      ''  -M      --mirror-only=... Like --mirror but disallow access for'',
      ''                            all other users.'',
      '' --map=user1/user2:...      Let user2 see files of user1 as his own.'',
      '' --map-passwd=...           Load uid mapping from passwd-like file.'',
      '' --map-group=...            Load gid mapping from group-like file.'',
      '' --map-passwd-rev=...       Load reversed uid mapping from  passwd-like file.'',
      '' --map-group-rev=...        Load reversed gid mapping from group-like file.'',
      '' --uid-offset=...           Set file uid = uid + offset.'',
      '' --gid-offset=...           Set file gid = gid + offset.'',
      [],
      ''Permission bits:'',
      ''  -p      --perms=...       Specify permissions, similar to chmod'',
      ''                            e.g. og-x,og+rD,u=rwX,g+rw  or  0644,a+X'',
      [],
      ''File creation policy:'',
      ''  --create-as-user          New files owned by creator (default for root). *'',
      ''  --create-as-mounter       New files owned by fs mounter (default for users).'',
      ''  --create-for-user=...     New files owned by specified user. *'',
      ''  --create-for-group=...    New files owned by specified group. *'',
      ''  --create-with-perms=...   Alter permissions of new files.'',
      [],
      ''Chown policy:'',
      ''  --chown-normal            Try to chown the original files (the default).'',
      ''  --chown-ignore            Have all chowns fail silently.'',
      ''  --chown-deny              Have all chowns fail with 'permission denied'.'',
      [],
      ''Chgrp policy:'',
      ''  --chgrp-normal            Try to chgrp the original files (the default).'',
      ''  --chgrp-ignore            Have all chgrps fail silently.'',
      ''  --chgrp-deny              Have all chgrps fail with 'permission denied'.'',
      [],
      ''Chmod policy:'',
      ''  --chmod-normal            Try to chmod the original files (the default).'',
      ''  --chmod-ignore            Have all chmods fail silently.'',
      ''  --chmod-deny              Have all chmods fail with 'permission denied'.'',
      ''  --chmod-filter=...        Change permissions of chmod requests.'',
      ''  --chmod-allow-x           Allow changing file execute bits in any case.'',
      [],
      ''Extended attribute policy:'',
      ''  --xattr-none              Do not implement xattr operations.'',
      ''  --xattr-ro                Read-only xattr operations.'',
      ''  --xattr-rw                Read-write xattr operations (the default).'',
      [],
      ''Other file operations:'',
      ''  --delete-deny             Disallow deleting files.'',
      ''  --rename-deny             Disallow renaming files (within the mount).'',
      [],
      ''Rate limits:'',
      ''  --read-rate=...           Limit to bytes/sec that can be read.'',
      ''  --write-rate=...          Limit to bytes/sec that can be written.'',
      [],
      ''Miscellaneous:'',
      ''  --no-allow-other          Do not add -o allow_other to fuse options.'',
      ''  --realistic-permissions   Hide permission bits for actions mounter can't do.'',
      ''  --ctime-from-mtime        Read file properties' change time'',
      ''                            from file content modification time.'',
      ''  --enable-lock-forwarding  Forward locks to the underlying FS.'',
      ''  --enable-ioctl            Forward ioctl() calls (as the mounter).'',
      ''  --hide-hard-links         Always report a hard link count of 1.'',
      ''  --resolve-symlinks        Resolve symbolic links.'',
      ''  --resolved-symlink-deletion=...  Decide how to delete resolved symlinks.'',
      ''  --block-devices-as-files  Show block devices as regular files.'',
      ''  --multithreaded           Enable multithreaded mode. See man page'',
      ''                            for security issue with current implementation.'',
      ''  --forward-odirect=...     Forward O_DIRECT (it's cleared by default).'',
      [],
      ''FUSE options:'',
      ''  -o opt[,opt,...]          Mount options.'',
      ''  -r      -o ro             Mount strictly read-only.'',
      ''  -d      -o debug          Enable debug output (implies -f).'',
      ''  -f                        Foreground operation.'',
      [],
      ''(*: root only)'',
      []
     ]"

definition print_usage :: "string option \<Rightarrow> string" where
  "print_usage prog =
     newline # ''Usage: '' @ (case prog of None \<Rightarrow> ''bindfs'' | Some n \<Rightarrow> n) @ '' [options] dir mountpoint'' @ [newline]
     @ concat (map (\<lambda>line. line @ [newline]) usage_lines)"

section \<open>Names of options\<close>

text \<open>A template or a word of the usage text up to the place of its value.\<close>

definition option_name :: "string \<Rightarrow> string" where
  "option_name w = takeWhile (\<lambda>c. c \<noteq> CHR ''='' \<and> c \<noteq> CHR '' '') w"

definition long_option :: "string \<Rightarrow> bool" where
  "long_option w \<longleftrightarrow> take 2 w = ''--''"

definition table_names :: "string list" where
  "table_names = map (\<lambda>(template, target). option_name template) options"

text \<open>The long options the usage text mentions: the words of its lines that begin with two dashes.\<close>

definition mentioned :: "string \<Rightarrow> string list" where
  "mentioned line = filter long_option (map option_name (strtok_all (\<lambda>c. c = CHR '' '') line))"

definition usage_options :: "string list" where
  "usage_options = concat (map mentioned usage_lines)"

text \<open>
  The templates without a dash are for use after \<^verbatim>\<open>-o\<close>.  An option \<^verbatim>\<open>--name\<close> has a mount form if there is a
  template \<^verbatim>\<open>name\<close> that does the same.
\<close>

definition mount_options :: "(string \<times> opt_target) list" where
  "mount_options = filter (\<lambda>e. take 1 (fst e) \<noteq> ''-'') options"

definition has_mount_form :: "string \<times> opt_target \<Rightarrow> bool" where
  "has_mount_form entry \<longleftrightarrow> (drop 2 (fst entry), snd entry) \<in> set mount_options"

section \<open>The table is complete\<close>

lemma usage_options_eq:
  "usage_options =
     [''--help'', ''--version'', ''--fuse-version'', ''--force-user'',
      ''--force-group'', ''--mirror'', ''--mirror-only'', ''--mirror'',
      ''--map'', ''--map-passwd'', ''--map-group'', ''--map-passwd-rev'',
      ''--map-group-rev'', ''--uid-offset'', ''--gid-offset'', ''--perms'',
      ''--create-as-user'', ''--create-as-mounter'', ''--create-for-user'',
      ''--create-for-group'', ''--create-with-perms'', ''--chown-normal'',
      ''--chown-ignore'', ''--chown-deny'', ''--chgrp-normal'',
      ''--chgrp-ignore'', ''--chgrp-deny'', ''--chmod-normal'',
      ''--chmod-ignore'', ''--chmod-deny'', ''--chmod-filter'',
      ''--chmod-allow-x'', ''--xattr-none'', ''--xattr-ro'', ''--xattr-rw'',
      ''--delete-deny'', ''--rename-deny'', ''--read-rate'', ''--write-rate'',
      ''--no-allow-other'', ''--realistic-permissions'', ''--ctime-from-mtime'',
      ''--enable-lock-forwarding'', ''--enable-ioctl'', ''--hide-hard-links'',
      ''--resolve-symlinks'', ''--resolved-symlink-deletion'',
      ''--block-devices-as-files'', ''--multithreaded'', ''--forward-odirect'']"
  by code_simp

definition all_fields :: "OptionField list" where
  "all_fields =
     [Od_user, Od_deprecated_user, Od_group, Od_deprecated_group, Od_perms, Od_mirror, Od_mirror_only, Od_map,
      Od_map_passwd, Od_map_group, Od_map_passwd_rev, Od_map_group_rev, Od_read_rate, Od_write_rate,
      Od_create_for_user, Od_create_for_group, Od_create_with_perms, Od_chmod_filter, Od_resolved_symlink_deletion,
      Od_no_allow_other, Od_multithreaded, Od_forward_odirect, Od_uid_offset, Od_gid_offset, Od_fsname]"

definition all_keys :: "OptionKey list" where
  "all_keys =
     [OPTKEY_HELP, OPTKEY_VERSION, OPTKEY_FUSE_VERSION, OPTKEY_CREATE_AS_USER, OPTKEY_CREATE_AS_MOUNTER,
      OPTKEY_CHOWN_NORMAL, OPTKEY_CHOWN_IGNORE, OPTKEY_CHOWN_DENY, OPTKEY_CHGRP_NORMAL, OPTKEY_CHGRP_IGNORE,
      OPTKEY_CHGRP_DENY, OPTKEY_CHMOD_NORMAL, OPTKEY_CHMOD_IGNORE, OPTKEY_CHMOD_DENY, OPTKEY_CHMOD_ALLOW_X,
      OPTKEY_XATTR_NONE, OPTKEY_XATTR_READ_ONLY, OPTKEY_XATTR_READ_WRITE, OPTKEY_DELETE_DENY, OPTKEY_RENAME_DENY,
      OPTKEY_REALISTIC_PERMISSIONS, OPTKEY_CTIME_FROM_MTIME, OPTKEY_ENABLE_LOCK_FORWARDING,
      OPTKEY_DISABLE_LOCK_FORWARDING, OPTKEY_ENABLE_IOCTL, OPTKEY_HIDE_HARD_LINKS, OPTKEY_RESOLVE_SYMLINKS,
      OPTKEY_BLOCK_DEVICES_AS_FILES, OPTKEY_DIRECT_IO, OPTKEY_NO_DIRECT_IO]"

lemma all_fields_all: "f \<in> set all_fields"
  by (cases f) (simp_all add: all_fields_def)

lemma all_keys_all: "k \<in> set all_keys \<longleftrightarrow> k \<noteq> OPTKEY_NONOPTION \<and> k \<noteq> OPTKEY_UNKNOWN"
  by (cases k) (simp_all add: all_keys_def)

lemma fields_stored: "Store f \<in> snd ` set options"
proof -
  have "list_all (\<lambda>f. Store f \<in> set (map snd options)) all_fields" by code_simp
  then show ?thesis using all_fields_all [of f] by (auto simp: list_all_iff)
qed

lemma keys_called: "Key k \<in> snd ` set options \<longleftrightarrow> k \<noteq> OPTKEY_NONOPTION \<and> k \<noteq> OPTKEY_UNKNOWN"
proof -
  have "list_all (\<lambda>k. Key k \<in> set (map snd options)) all_keys" by code_simp
  moreover have "list_all (\<lambda>e. snd e \<noteq> Key OPTKEY_NONOPTION \<and> snd e \<noteq> Key OPTKEY_UNKNOWN) options" by code_simp
  ultimately show ?thesis using all_keys_all [of k] by (auto simp: list_all_iff)
qed

lemma long_names_eq:
  "filter long_option table_names =
    [''--help'', ''--version'', ''--fuse-version'', ''--force-user'', ''--force-group'', ''--user'',
      ''--owner'', ''--group'', ''--perms'', ''--mirror'', ''--mirror-only'', ''--map'', ''--map-passwd'',
      ''--map-group'', ''--map-passwd-rev'', ''--map-group-rev'', ''--no-allow-other'', ''--read-rate'',
      ''--write-rate'', ''--create-as-user'', ''--create-as-mounter'', ''--create-for-user'',
      ''--create-for-group'', ''--create-with-perms'', ''--chown-normal'', ''--chown-ignore'',
      ''--chown-deny'', ''--chgrp-normal'', ''--chgrp-ignore'', ''--chgrp-deny'', ''--chmod-normal'',
      ''--chmod-ignore'', ''--chmod-deny'', ''--chmod-filter'', ''--chmod-allow-x'', ''--xattr-none'',
      ''--xattr-ro'', ''--xattr-rw'', ''--delete-deny'', ''--rename-deny'', ''--direct-io'',
      ''--no-direct-io'', ''--hide-hard-links'', ''--resolve-symlinks'', ''--resolved-symlink-deletion'',
      ''--block-devices-as-files'', ''--realistic-permissions'', ''--ctime-from-mtime'',
      ''--enable-lock-forwarding'', ''--disable-lock-forwarding'', ''--enable-ioctl'', ''--multithreaded'',
      ''--forward-odirect'', ''--uid-offset'', ''--gid-offset'']"
  by code_simp

lemma long_templates_eq:
  "filter long_option (map fst options) =
    [''--help'', ''--version'', ''--fuse-version'', ''--force-user=%s'', ''--force-group=%s'', ''--user=%s'',
      ''--owner=%s'', ''--group=%s'', ''--perms=%s'', ''--mirror=%s'', ''--mirror-only=%s'', ''--map=%s'',
      ''--map-passwd=%s'', ''--map-group=%s'', ''--map-passwd-rev=%s'', ''--map-group-rev=%s'',
      ''--no-allow-other'', ''--read-rate=%s'', ''--write-rate=%s'', ''--create-as-user'',
      ''--create-as-mounter'', ''--create-for-user=%s'', ''--create-for-group=%s'',
      ''--create-with-perms=%s'', ''--chown-normal'', ''--chown-ignore'', ''--chown-deny'',
      ''--chgrp-normal'', ''--chgrp-ignore'', ''--chgrp-deny'', ''--chmod-normal'', ''--chmod-ignore'',
      ''--chmod-deny'', ''--chmod-filter=%s'', ''--chmod-allow-x'', ''--xattr-none'', ''--xattr-ro'',
      ''--xattr-rw'', ''--delete-deny'', ''--rename-deny'', ''--direct-io'', ''--no-direct-io'',
      ''--hide-hard-links'', ''--resolve-symlinks'', ''--resolved-symlink-deletion=%s'',
      ''--block-devices-as-files'', ''--realistic-permissions'', ''--ctime-from-mtime'',
      ''--enable-lock-forwarding'', ''--disable-lock-forwarding'', ''--enable-ioctl'', ''--multithreaded'',
      ''--forward-odirect=%s'', ''--uid-offset=%s'', ''--gid-offset=%s'']"
  by code_simp

lemma other_templates_eq:
  "filter (\<lambda>t. \<not> long_option t) (map fst options) =
    [''-h'', ''-V'', ''-u %s'', ''force-user=%s'', ''-g %s'', ''force-group=%s'', ''owner=%s'', ''group=%s'',
      ''-p %s'', ''perms=%s'', ''-m %s'', ''mirror=%s'', ''-M %s'', ''mirror-only=%s'', ''map=%s'',
      ''map-passwd=%s'', ''map-group=%s'', ''map-passwd-rev=%s'', ''map-group-rev=%s'', ''-n'',
      ''no-allow-other'', ''read-rate=%s'', ''write-rate=%s'', ''create-as-user'', ''create-as-mounter'',
      ''create-for-user=%s'', ''create-for-group=%s'', ''create-with-perms=%s'', ''chown-normal'',
      ''chown-ignore'', ''chown-deny'', ''chgrp-normal'', ''chgrp-ignore'', ''chgrp-deny'', ''chmod-normal'',
      ''chmod-ignore'', ''chmod-deny'', ''chmod-filter=%s'', ''chmod-allow-x'', ''xattr-none'', ''xattr-ro'',
      ''xattr-rw'', ''delete-deny'', ''rename-deny'', ''direct-io'', ''no-direct-io'', ''hide-hard-links'',
      ''resolve-symlinks'', ''resolved-symlink-deletion=%s'', ''block-devices-as-files'',
      ''realistic-permissions'', ''ctime-from-mtime'', ''enable-lock-forwarding'',
      ''disable-lock-forwarding'', ''enable-ioctl'', ''multithreaded'', ''forward-odirect=%s'',
      ''uid-offset=%s'', ''gid-offset=%s'', ''fsname=%s'']"
  by code_simp

lemma mount_options_eq:
  "mount_options =
    [(''force-user=%s'', Store Od_user), (''force-group=%s'', Store Od_group),
      (''owner=%s'', Store Od_deprecated_user), (''group=%s'', Store Od_deprecated_group),
      (''perms=%s'', Store Od_perms), (''mirror=%s'', Store Od_mirror),
      (''mirror-only=%s'', Store Od_mirror_only), (''map=%s'', Store Od_map),
      (''map-passwd=%s'', Store Od_map_passwd), (''map-group=%s'', Store Od_map_group),
      (''map-passwd-rev=%s'', Store Od_map_passwd_rev), (''map-group-rev=%s'', Store Od_map_group_rev),
      (''no-allow-other'', Store Od_no_allow_other), (''read-rate=%s'', Store Od_read_rate),
      (''write-rate=%s'', Store Od_write_rate), (''create-as-user'', Key OPTKEY_CREATE_AS_USER),
      (''create-as-mounter'', Key OPTKEY_CREATE_AS_MOUNTER),
      (''create-for-user=%s'', Store Od_create_for_user),
      (''create-for-group=%s'', Store Od_create_for_group),
      (''create-with-perms=%s'', Store Od_create_with_perms), (''chown-normal'', Key OPTKEY_CHOWN_NORMAL),
      (''chown-ignore'', Key OPTKEY_CHOWN_IGNORE), (''chown-deny'', Key OPTKEY_CHOWN_DENY),
      (''chgrp-normal'', Key OPTKEY_CHGRP_NORMAL), (''chgrp-ignore'', Key OPTKEY_CHGRP_IGNORE),
      (''chgrp-deny'', Key OPTKEY_CHGRP_DENY), (''chmod-normal'', Key OPTKEY_CHMOD_NORMAL),
      (''chmod-ignore'', Key OPTKEY_CHMOD_IGNORE), (''chmod-deny'', Key OPTKEY_CHMOD_DENY),
      (''chmod-filter=%s'', Store Od_chmod_filter), (''chmod-allow-x'', Key OPTKEY_CHMOD_ALLOW_X),
      (''xattr-none'', Key OPTKEY_XATTR_NONE), (''xattr-ro'', Key OPTKEY_XATTR_READ_ONLY),
      (''xattr-rw'', Key OPTKEY_XATTR_READ_WRITE), (''delete-deny'', Key OPTKEY_DELETE_DENY),
      (''rename-deny'', Key OPTKEY_RENAME_DENY), (''direct-io'', Key OPTKEY_DIRECT_IO),
      (''no-direct-io'', Key OPTKEY_NO_DIRECT_IO), (''hide-hard-links'', Key OPTKEY_HIDE_HARD_LINKS),
      (''resolve-symlinks'', Key OPTKEY_RESOLVE_SYMLINKS),
      (''resolved-symlink-deletion=%s'', Store Od_resolved_symlink_deletion),
      (''block-devices-as-files'', Key OPTKEY_BLOCK_DEVICES_AS_FILES),
      (''realistic-permissions'', Key OPTKEY_REALISTIC_PERMISSIONS),
      (''ctime-from-mtime'', Key OPTKEY_CTIME_FROM_MTIME),
      (''enable-lock-forwarding'', Key OPTKEY_ENABLE_LOCK_FORWARDING),
      (''disable-lock-forwarding'', Key OPTKEY_DISABLE_LOCK_FORWARDING),
      (''enable-ioctl'', Key OPTKEY_ENABLE_IOCTL), (''multithreaded'', Store Od_multithreaded),
      (''forward-odirect=%s'', Store Od_forward_odirect), (''uid-offset=%s'', Store Od_uid_offset),
      (''gid-offset=%s'', Store Od_gid_offset), (''fsname=%s'', Store Od_fsname)]"
  by code_simp

lemma long_options_eq:
  "filter (\<lambda>e. long_option (fst e)) options =
    [(''--help'', Key OPTKEY_HELP), (''--version'', Key OPTKEY_VERSION),
      (''--fuse-version'', Key OPTKEY_FUSE_VERSION), (''--force-user=%s'', Store Od_user),
      (''--force-group=%s'', Store Od_group), (''--user=%s'', Store Od_deprecated_user),
      (''--owner=%s'', Store Od_deprecated_user), (''--group=%s'', Store Od_deprecated_group),
      (''--perms=%s'', Store Od_perms), (''--mirror=%s'', Store Od_mirror),
      (''--mirror-only=%s'', Store Od_mirror_only), (''--map=%s'', Store Od_map),
      (''--map-passwd=%s'', Store Od_map_passwd), (''--map-group=%s'', Store Od_map_group),
      (''--map-passwd-rev=%s'', Store Od_map_passwd_rev), (''--map-group-rev=%s'', Store Od_map_group_rev),
      (''--no-allow-other'', Store Od_no_allow_other), (''--read-rate=%s'', Store Od_read_rate),
      (''--write-rate=%s'', Store Od_write_rate), (''--create-as-user'', Key OPTKEY_CREATE_AS_USER),
      (''--create-as-mounter'', Key OPTKEY_CREATE_AS_MOUNTER),
      (''--create-for-user=%s'', Store Od_create_for_user),
      (''--create-for-group=%s'', Store Od_create_for_group),
      (''--create-with-perms=%s'', Store Od_create_with_perms),
      (''--chown-normal'', Key OPTKEY_CHOWN_NORMAL), (''--chown-ignore'', Key OPTKEY_CHOWN_IGNORE),
      (''--chown-deny'', Key OPTKEY_CHOWN_DENY), (''--chgrp-normal'', Key OPTKEY_CHGRP_NORMAL),
      (''--chgrp-ignore'', Key OPTKEY_CHGRP_IGNORE), (''--chgrp-deny'', Key OPTKEY_CHGRP_DENY),
      (''--chmod-normal'', Key OPTKEY_CHMOD_NORMAL), (''--chmod-ignore'', Key OPTKEY_CHMOD_IGNORE),
      (''--chmod-deny'', Key OPTKEY_CHMOD_DENY), (''--chmod-filter=%s'', Store Od_chmod_filter),
      (''--chmod-allow-x'', Key OPTKEY_CHMOD_ALLOW_X), (''--xattr-none'', Key OPTKEY_XATTR_NONE),
      (''--xattr-ro'', Key OPTKEY_XATTR_READ_ONLY), (''--xattr-rw'', Key OPTKEY_XATTR_READ_WRITE),
      (''--delete-deny'', Key OPTKEY_DELETE_DENY), (''--rename-deny'', Key OPTKEY_RENAME_DENY),
      (''--direct-io'', Key OPTKEY_DIRECT_IO), (''--no-direct-io'', Key OPTKEY_NO_DIRECT_IO),
      (''--hide-hard-links'', Key OPTKEY_HIDE_HARD_LINKS),
      (''--resolve-symlinks'', Key OPTKEY_RESOLVE_SYMLINKS),
      (''--resolved-symlink-deletion=%s'', Store Od_resolved_symlink_deletion),
      (''--block-devices-as-files'', Key OPTKEY_BLOCK_DEVICES_AS_FILES),
      (''--realistic-permissions'', Key OPTKEY_REALISTIC_PERMISSIONS),
      (''--ctime-from-mtime'', Key OPTKEY_CTIME_FROM_MTIME),
      (''--enable-lock-forwarding'', Key OPTKEY_ENABLE_LOCK_FORWARDING),
      (''--disable-lock-forwarding'', Key OPTKEY_DISABLE_LOCK_FORWARDING),
      (''--enable-ioctl'', Key OPTKEY_ENABLE_IOCTL), (''--multithreaded'', Store Od_multithreaded),
      (''--forward-odirect=%s'', Store Od_forward_odirect), (''--uid-offset=%s'', Store Od_uid_offset),
      (''--gid-offset=%s'', Store Od_gid_offset)]"
  by code_simp

lemma distinct_filters: "distinct (filter P xs) \<Longrightarrow> distinct (filter (\<lambda>x. \<not> P x) xs) \<Longrightarrow> distinct xs"
  by (induction xs) (auto split: if_splits)

lemma templates_distinct: "distinct (map fst options)"
proof (rule distinct_filters [of long_option])
  show "distinct (filter long_option (map fst options))" unfolding long_templates_eq by code_simp
  show "distinct (filter (\<lambda>t. \<not> long_option t) (map fst options))" unfolding other_templates_eq by code_simp
qed

lemma usage_known: "list_all (\<lambda>n. n \<in> set (filter long_option table_names)) usage_options"
  unfolding usage_options_eq long_names_eq by code_simp

section \<open>Properties\<close>

text \<open>
  The table of options is well formed: no template is given twice, every field of the option data
  has a template, and exactly the keys \<^verbatim>\<open>process_option\<close> has a case for are named, so that no case is dead; an
  option \<^verbatim>\<open>--name\<close> can be given as \<^verbatim>\<open>-o name\<close> with the same effect, with the exceptions listed; every option in
  the usage text exists, and the options that exist but are not in it are the ones listed.
\<close>

lemma options_complete:
  "distinct (map fst options) \<and> Store f \<in> snd ` set options
   \<and> (Key k \<in> snd ` set options \<longleftrightarrow> k \<noteq> OPTKEY_NONOPTION \<and> k \<noteq> OPTKEY_UNKNOWN)
   \<and> map fst (filter (\<lambda>e. long_option (fst e) \<and> \<not> has_mount_form e) options)
       = [''--help'', ''--version'', ''--fuse-version'', ''--user=%s'']
   \<and> list_all (\<lambda>n. n \<in> set table_names) usage_options
   \<and> filter (\<lambda>n. long_option n \<and> n \<notin> set usage_options) table_names
       = [''--user'', ''--owner'', ''--group'', ''--direct-io'', ''--no-direct-io'', ''--disable-lock-forwarding'']"
proof (intro conjI)
  show "distinct (map fst options)" by (rule templates_distinct)
  show "Store f \<in> snd ` set options" by (rule fields_stored)
  show "Key k \<in> snd ` set options \<longleftrightarrow> k \<noteq> OPTKEY_NONOPTION \<and> k \<noteq> OPTKEY_UNKNOWN" by (rule keys_called)
  have "map fst (filter (\<lambda>e. \<not> has_mount_form e) (filter (\<lambda>e. long_option (fst e)) options))
      = [''--help'', ''--version'', ''--fuse-version'', ''--user=%s'']"
    unfolding has_mount_form_def mount_options_eq long_options_eq by code_simp
  then show "map fst (filter (\<lambda>e. long_option (fst e) \<and> \<not> has_mount_form e) options)
      = [''--help'', ''--version'', ''--fuse-version'', ''--user=%s'']" by (simp only: filter_filter)
  show "list_all (\<lambda>n. n \<in> set table_names) usage_options" using usage_known by (auto simp: list_all_iff)
  have "filter (\<lambda>n. n \<notin> set usage_options) (filter long_option table_names)
      = [''--user'', ''--owner'', ''--group'', ''--direct-io'', ''--no-direct-io'', ''--disable-lock-forwarding'']"
    unfolding usage_options_eq long_names_eq by code_simp
  then show "filter (\<lambda>n. long_option n \<and> n \<notin> set usage_options) table_names
      = [''--user'', ''--owner'', ''--group'', ''--direct-io'', ''--no-direct-io'', ''--disable-lock-forwarding'']"
    by (simp only: filter_filter)
qed

end
