(* ===== verification/Mirroring.thy ===== *)
theory Mirroring
  imports Policies Userinfo
begin

text \<open>
  The user cache of \<^verbatim>\<open>src/userinfo.c\<close> behind the file handlers of \<^verbatim>\<open>src/bindfs.c\<close>: the question whether a
  user belongs to a group, which the handlers of theory \<open>Operations\<close> put to their surroundings, is answered by the
  model of the cache, and mirroring then follows the user database.
\<close>

section \<open>A kernel with the user cache\<close>

text \<open>
  The state of the surroundings is the cache and the state of the kernel proper.  (A cache that cannot
  be built ends the process; the answer then does not matter.)
\<close>

definition lift_state :: "('c \<Rightarrow> 's \<Rightarrow> 'r \<times> 's) \<Rightarrow> 'c \<Rightarrow> 'u \<times> 's \<Rightarrow> 'r \<times> 'u \<times> 's" where
  "lift_state f c us = (fst (f c (snd us)), fst us, snd (f c (snd us)))"

definition answer_membership ::
  "user_db \<Rightarrow> (syscall \<Rightarrow> 's \<Rightarrow> bool \<times> 's) \<Rightarrow> syscall \<Rightarrow> user_cache \<times> 's \<Rightarrow> bool \<times> user_cache \<times> 's" where
  "answer_membership db k call us =
     (case call of
        Other (User_belongs_to_group u g) \<Rightarrow>
          (case user_belongs_to_group db (fst us) u g of Some (b, c) \<Rightarrow> (b, c, snd us) | None \<Rightarrow> (False, us))
      | _ \<Rightarrow> lift_state k call us)"

definition with_user_cache :: "user_db \<Rightarrow> 's kernel \<Rightarrow> (user_cache \<times> 's) kernel" where
  "with_user_cache db K =
     \<lparr>k_unit = lift_state (k_unit K), k_int = lift_state (k_int K), k_stat = lift_state (k_stat K),
      k_path = lift_state (k_path K), k_data = lift_state (k_data K), k_dir = lift_state (k_dir K),
      k_bool = answer_membership db (k_bool K), k_pair = lift_state (k_pair K)\<rparr>"

section \<open>Membership follows the database\<close>

definition cache_fine :: "user_db \<Rightarrow> user_cache \<Rightarrow> bool" where
  "cache_fine db c \<longleftrightarrow> cache_rebuild_requested c \<or> represents db c"

lemma belongs_to_group_fine:
  assumes "db_ok db" and "cache_fine db c" and "small_id u" and "small_id g"
  shows "\<exists>c'. user_belongs_to_group db c u g = Some (is_member db u g, c') \<and> cache_fine db c'"
  using belongs_to_group_spec [OF assms(1) _ assms(3,4)] assms(2) by (auto simp: cache_fine_def)

lemma member_loop_run:
  assumes "db_ok db" and "small_id u"
  shows "cache_fine db c \<Longrightarrow> list_all small_id gs \<Longrightarrow>
    \<exists>tr c'. run (with_user_cache db K) (mirrored_member_loop u gs) (c, st) =
      (Some (\<exists>g \<in> set gs. is_member db u g), tr, c', st) \<and> cache_fine db c'"
proof (induction gs arbitrary: c)
  case (Cons g gs)
  obtain c1 where c1: "user_belongs_to_group db c u g = Some (is_member db u g, c1)" "cache_fine db c1"
    using belongs_to_group_fine [OF assms(1) Cons.prems(1) assms(2)] Cons.prems(2) by auto
  have bool: "k_bool (with_user_cache db K) (Other (User_belongs_to_group u g)) (c, st) = (is_member db u g, c1, st)"
    by (simp add: with_user_cache_def answer_membership_def c1(1))
  show ?case
  proof (cases "is_member db u g")
    case True
    then show ?thesis using c1(2) by (auto simp: bool logged_def)
  next
    case False
    obtain tr c2 where "run (with_user_cache db K) (mirrored_member_loop u gs) (c1, st) =
        (Some (\<exists>g \<in> set gs. is_member db u g), tr, c2, st)" "cache_fine db c2"
      using Cons.IH [OF c1(2)] Cons.prems(2) by auto
    then show ?thesis using False by (auto simp: bool logged_def)
  qed
qed auto

text \<open>Who is mirrored, according to the options and the database.\<close>

definition mirrored_in :: "user_db \<Rightarrow> Settings \<Rightarrow> uid_t \<Rightarrow> bool" where
  "mirrored_in db s u \<longleftrightarrow> u \<in> set (mirrored_users s) \<or> (\<exists>g \<in> set (mirrored_members s). is_member db u g)"

definition mirror_arrays :: "Settings \<Rightarrow> bool" where
  "mirror_arrays s \<longleftrightarrow> num_mirrored_users s = int (length (mirrored_users s))
     \<and> num_mirrored_members s = int (length (mirrored_members s))"

lemma mirrored_run:
  assumes "db_ok db" "small_id u" "cache_fine db c" "list_all small_id (mirrored_members s)" "mirror_arrays s"
  shows "\<exists>tr c'. run (with_user_cache db K) (if is_mirroring_enabled s then is_mirrored_user s u else Ret False) (c, st) =
      (Some (mirrored_in db s u), tr, c', st) \<and> cache_fine db c'"
proof (cases "is_mirroring_enabled s")
  case True
  have "take (nat (num_mirrored_users s)) (mirrored_users s) = mirrored_users s"
    "take (nat (num_mirrored_members s)) (mirrored_members s) = mirrored_members s"
    using assms(5) by (simp_all add: mirror_arrays_def)
  then show ?thesis
    using True member_loop_run [OF assms(1-4)] assms(3) by (auto simp: is_mirrored_user_def mirrored_in_def)
next
  case False
  then have "mirrored_users s = []" "mirrored_members s = []"
    using assms(5)
    by (cases "mirrored_users s"; cases "mirrored_members s"; simp add: is_mirroring_enabled_def mirror_arrays_def)+
  then show ?thesis using False assms(3) by (simp add: mirrored_in_def)
qed

section \<open>Properties\<close>



end
