(* ===== verification/Teardown.thy ===== *)
theory Teardown
  imports Permheap
begin

text \<open>
  The memory \<^verbatim>\<open>main\<close> (\<^verbatim>\<open>src/bindfs.c\<close>) allocates for the settings, and \<^verbatim>\<open>atexit_func\<close>, which gives it back when the
  process ends, at whatever point of the set-up that is.  Contents other than pointers do not matter here.
\<close>

section \<open>User maps in memory\<close>

text \<open>A \<^verbatim>\<open>UserMap\<close> is a record of four array pointers; \<^verbatim>\<open>usermap_destroy\<close> frees the arrays and the record.\<close>

definition heap_usermap_create :: "memory \<Rightarrow> addr \<times> memory" where
  "heap_usermap_create m = malloc (Pointers [None, None, None, None]) m"

definition heap_usermap_destroy :: "addr option \<Rightarrow> memory \<Rightarrow> memory option" where
  "heap_usermap_destroy mp m =
     (case mp of
        None \<Rightarrow> None
      | Some a \<Rightarrow>
          (case blocks m a of
             Some (Pointers [user_from, user_to, group_from, group_to]) \<Rightarrow>
               Option.bind (free user_from m) (\<lambda>m. Option.bind (free user_to m) (\<lambda>m.
               Option.bind (free group_from m) (\<lambda>m. Option.bind (free group_to m) (free (Some a)))))
           | _ \<Rightarrow> None))"

definition realloc :: "addr option \<Rightarrow> memory \<Rightarrow> (addr \<times> memory) option" where
  "realloc p m = Option.bind (free p m) (\<lambda>m. Some (malloc Bytes m))"

text \<open>
  The growing of the arrays in \<^verbatim>\<open>usermap_add_uid\<close> and \<^verbatim>\<open>usermap_add_gid\<close>, the only part of them that allocates.
\<close>

definition heap_usermap_grow :: "bool \<Rightarrow> addr option \<Rightarrow> memory \<Rightarrow> memory option" where
  "heap_usermap_grow groups mp m =
     (case mp of
        None \<Rightarrow> None
      | Some a \<Rightarrow>
          (case blocks m a of
             Some (Pointers [user_from, user_to, group_from, group_to]) \<Rightarrow>
               if groups then
                 Option.bind (realloc group_from m) (\<lambda>(p, m). Option.bind (realloc group_to m) (\<lambda>(q, m).
                   store a (Pointers [user_from, user_to, Some p, Some q]) m))
               else
                 Option.bind (realloc user_from m) (\<lambda>(p, m). Option.bind (realloc user_to m) (\<lambda>(q, m).
                   store a (Pointers [Some p, Some q, group_from, group_to]) m))
           | _ \<Rightarrow> None))"

section \<open>The settings and their end\<close>

text \<open>The pointer fields of \<^verbatim>\<open>struct Settings\<close>, and what they point to.\<close>

datatype slot =
    Mntsrc | Mntdest | Original_working_dir | Read_limiter | Write_limiter | Usermap | Usermap_reverse
  | Permchain | Create_permchain | Chmod_permchain | Mirrored_users | Mirrored_members

datatype kind = Plain | Map | Chain

fun kind_of :: "slot \<Rightarrow> kind" where
  "kind_of Usermap = Map"
| "kind_of Usermap_reverse = Map"
| "kind_of Permchain = Chain"
| "kind_of Create_permchain = Chain"
| "kind_of Chmod_permchain = Chain"
| "kind_of _ = Plain"

type_synonym pointers = "slot \<Rightarrow> addr option"

definition destroy :: "kind \<Rightarrow> addr option \<Rightarrow> memory \<Rightarrow> memory option" where
  "destroy k p m = (case k of Plain \<Rightarrow> free p m | Map \<Rightarrow> heap_usermap_destroy p m | Chain \<Rightarrow> heap_permchain_destroy p m)"

text \<open>The slots in the order in which \<^verbatim>\<open>atexit_func\<close> frees them; all but the first two are then set to null.\<close>

definition atexit_slots :: "slot list" where
  "atexit_slots =
     [Mntsrc, Mntdest, Original_working_dir, Read_limiter, Write_limiter, Usermap, Usermap_reverse,
      Permchain, Create_permchain, Chmod_permchain, Mirrored_users, Mirrored_members]"

fun destroy_slots :: "slot list \<Rightarrow> pointers \<Rightarrow> memory \<Rightarrow> (pointers \<times> memory) option" where
  "destroy_slots [] sp m = Some (sp, m)"
| "destroy_slots (s # slots) sp m =
     (case destroy (kind_of s) (sp s) m of
        None \<Rightarrow> None
      | Some m' \<Rightarrow> destroy_slots slots (if s = Mntsrc \<or> s = Mntdest then sp else sp(s := None)) m')"

definition atexit_func :: "pointers \<Rightarrow> memory \<Rightarrow> (pointers \<times> memory) option" where
  "atexit_func sp m = destroy_slots atexit_slots sp m"

section \<open>The set-up\<close>

text \<open>The allocations for the initial settings.\<close>

definition init_pointers :: "memory \<Rightarrow> pointers \<times> memory" where
  "init_pointers m =
     (let (chain1, m) = heap_permchain_create m;
          (map1, m) = heap_usermap_create m;
          (map2, m) = heap_usermap_create m;
          (dir, m) = malloc Bytes m;
          (chain2, m) = heap_permchain_create m;
          (chain3, m) = heap_permchain_create m
      in ((\<lambda>_. None)(Permchain := Some chain1, Usermap := Some map1, Usermap_reverse := Some map2,
                     Original_working_dir := Some dir, Create_permchain := Some chain2, Chmod_permchain := Some chain3), m))"

text \<open>
  What later steps of \<^verbatim>\<open>main\<close> and of the option callback do to memory: a new string, limiter or array stored in
  a slot, a user map that grows, and rules added to a chain.
\<close>

datatype event = New slot | Grow slot bool | Rules slot string

fun event_ok :: "event \<Rightarrow> bool" where
  "event_ok (New s) \<longleftrightarrow> kind_of s = Plain \<and> s \<noteq> Original_working_dir"
| "event_ok (Grow s groups) \<longleftrightarrow> kind_of s = Map"
| "event_ok (Rules s rules) \<longleftrightarrow> kind_of s = Chain"

fun run_event :: "event \<Rightarrow> pointers \<times> memory \<Rightarrow> (pointers \<times> memory) option" where
  "run_event (New s) (sp, m) = (let (a, m) = malloc Bytes m in Some (sp(s := Some a), m))"
| "run_event (Grow s groups) (sp, m) = map_option (Pair sp) (heap_usermap_grow groups (sp s) m)"
| "run_event (Rules s rules) (sp, m) =
     (case sp s of
        None \<Rightarrow> None
      | Some a \<Rightarrow> map_option (\<lambda>(r, m). (sp, m)) (heap_add_chmod_rules rules a m))"

fun run_events :: "event list \<Rightarrow> pointers \<times> memory \<Rightarrow> (pointers \<times> memory) option" where
  "run_events [] st = Some st"
| "run_events (e # es) st = Option.bind (run_event e st) (run_events es)"

text \<open>
  Each option is taken once (a second source directory is taken for the mount point, a second mount point is
  an error), so no slot is filled twice.  Theory \<open>Session\<close> derives this from the option callback and \<^verbatim>\<open>main\<close>.
\<close>

definition set_up :: "event list \<Rightarrow> bool" where
  "set_up es \<longleftrightarrow> list_all event_ok es \<and> distinct (List.map_filter (\<lambda>e. case e of New s \<Rightarrow> Some s | _ \<Rightarrow> None) es)"

section \<open>Ownership\<close>

definition plain_at :: "(addr \<rightharpoonup> cell) \<Rightarrow> addr option \<Rightarrow> addr list \<Rightarrow> bool" where
  "plain_at h p as \<longleftrightarrow> (case p of None \<Rightarrow> as = [] | Some a \<Rightarrow> as = [a] \<and> h a = Some Bytes)"

definition map_at :: "(addr \<rightharpoonup> cell) \<Rightarrow> addr option \<Rightarrow> addr list \<Rightarrow> bool" where
  "map_at h p as \<longleftrightarrow>
     (\<exists>a uf ut gf gt b1 b2 b3 b4. p = Some a \<and> h a = Some (Pointers [uf, ut, gf, gt])
        \<and> plain_at h uf b1 \<and> plain_at h ut b2 \<and> plain_at h gf b3 \<and> plain_at h gt b4
        \<and> as = a # b1 @ b2 @ b3 @ b4 \<and> distinct as)"

definition object_at :: "kind \<Rightarrow> (addr \<rightharpoonup> cell) \<Rightarrow> addr option \<Rightarrow> addr list \<Rightarrow> bool" where
  "object_at k h p as =
     (case k of Plain \<Rightarrow> plain_at h p as | Map \<Rightarrow> map_at h p as | Chain \<Rightarrow> p \<noteq> None \<and> (\<exists>ns. chain_at h p as ns))"

text \<open>An object that, together with \<open>G\<close>, is the whole memory.\<close>

definition object_in :: "kind \<Rightarrow> memory \<Rightarrow> addr option \<Rightarrow> addr list \<Rightarrow> (addr \<rightharpoonup> cell) \<Rightarrow> bool" where
  "object_in k m p as G \<longleftrightarrow> memory_ok m \<and> object_at k (blocks m) p as \<and> G = blocks m |` (- set as)"

text \<open>The settings own one object per slot, all apart from each other, and the rest of memory is \<open>F\<close>.\<close>

definition owns :: "pointers \<Rightarrow> memory \<Rightarrow> (slot \<Rightarrow> addr list) \<Rightarrow> (addr \<rightharpoonup> cell) \<Rightarrow> bool" where
  "owns sp m f F \<longleftrightarrow>
     memory_ok m \<and> (\<forall>s. object_at (kind_of s) (blocks m) (sp s) (f s))
     \<and> (\<forall>s s'. s \<noteq> s' \<longrightarrow> set (f s) \<inter> set (f s') = {}) \<and> F = blocks m |` (- (\<Union>s. set (f s)))"

lemma plain_at_cong: "(\<And>a. a \<in> set as \<Longrightarrow> h a = h' a) \<Longrightarrow> plain_at h p as \<Longrightarrow> plain_at h' p as"
  by (auto simp: plain_at_def split: option.splits)

lemma map_at_cong:
  assumes "\<And>a. a \<in> set as \<Longrightarrow> h a = h' a" and "map_at h p as"
  shows "map_at h' p as"
proof -
  from assms(2) obtain a uf ut gf gt b1 b2 b3 b4 where *: "p = Some a" "h a = Some (Pointers [uf, ut, gf, gt])"
      "plain_at h uf b1" "plain_at h ut b2" "plain_at h gf b3" "plain_at h gt b4" "as = a # b1 @ b2 @ b3 @ b4" "distinct as"
    unfolding map_at_def by blast
  then have "plain_at h' uf b1" "plain_at h' ut b2" "plain_at h' gf b3" "plain_at h' gt b4" "h' a = h a"
    using assms(1) by (auto intro: plain_at_cong [of _ h])
  with * show ?thesis unfolding map_at_def by metis
qed

lemma object_at_cong: "(\<And>a. a \<in> set as \<Longrightarrow> h a = h' a) \<Longrightarrow> object_at k h p as \<Longrightarrow> object_at k h' p as"
  using plain_at_cong [of as h h' p] map_at_cong [of as h h' p] chain_at_cong [of as h h' p]
  by (cases k) (auto simp: object_at_def)

lemma plain_at_dom: "plain_at h p as \<Longrightarrow> set as \<subseteq> dom h"
  by (auto simp: plain_at_def split: option.splits)

lemma object_at_dom: "object_at k h p as \<Longrightarrow> set as \<subseteq> dom h"
proof (cases k)
  case Map
  assume "object_at k h p as"
  then have "map_at h p as" using Map by (simp add: object_at_def)
  then obtain a uf ut gf gt b1 b2 b3 b4 where *: "h a = Some (Pointers [uf, ut, gf, gt])" "as = a # b1 @ b2 @ b3 @ b4"
      "plain_at h uf b1" "plain_at h ut b2" "plain_at h gf b3" "plain_at h gt b4" unfolding map_at_def by blast
  from *(1,2) *(3-6) [THEN plain_at_dom] show ?thesis by auto
qed (auto simp: object_at_def dest: plain_at_dom chain_at_dom)

section \<open>Destroying an object\<close>

lemma free_plain: "plain_at (blocks m) p as \<Longrightarrow> free p m = Some (m\<lparr>blocks := blocks m |` (- set as)\<rparr>)"
  by (auto simp: plain_at_def free_def restrict_map_def fun_eq_iff split: option.split)

lemma restrict_restrict: "(h |` (- A)) |` (- B) = h |` (- (A \<union> B))"
  by (simp add: Int_commute)

lemma free_next:
  assumes "plain_at h p as" and "set as \<inter> A = {}" and "blocks m = h |` (- A)"
  shows "free p m = Some (m\<lparr>blocks := h |` (- (A \<union> set as))\<rparr>)"
proof -
  have "plain_at (blocks m) p as" using assms by (intro plain_at_cong [OF _ assms(1)]) (auto simp: restrict_map_def)
  from free_plain [OF this] show ?thesis by (simp only: assms(3) restrict_restrict)
qed

lemma destroy_map:
  assumes "map_at (blocks m) p as"
  shows "heap_usermap_destroy p m = Some (m\<lparr>blocks := blocks m |` (- set as)\<rparr>)"
proof -
  from assms obtain a uf ut gf gt b1 b2 b3 b4 where *: "p = Some a" "blocks m a = Some (Pointers [uf, ut, gf, gt])"
      "plain_at (blocks m) uf b1" "plain_at (blocks m) ut b2" "plain_at (blocks m) gf b3" "plain_at (blocks m) gt b4"
      "as = a # b1 @ b2 @ b3 @ b4" "distinct as"
    unfolding map_at_def by blast
  let ?h = "blocks m"
  let ?m1 = "m\<lparr>blocks := ?h |` (- (set b1))\<rparr>"
  let ?m2 = "m\<lparr>blocks := ?h |` (- (set b1 \<union> set b2))\<rparr>"
  let ?m3 = "m\<lparr>blocks := ?h |` (- (set b1 \<union> set b2 \<union> set b3))\<rparr>"
  let ?m4 = "m\<lparr>blocks := ?h |` (- (set b1 \<union> set b2 \<union> set b3 \<union> set b4))\<rparr>"
  have "free uf m = Some ?m1" using free_plain [OF *(3)] by simp
  moreover have "free ut ?m1 = Some ?m2" using free_next [OF *(4), of "set b1" ?m1] *(7,8) by auto
  moreover have "free gf ?m2 = Some ?m3" using free_next [OF *(5), of "set b1 \<union> set b2" ?m2] *(7,8) by auto
  moreover have "free gt ?m3 = Some ?m4" using free_next [OF *(6), of "set b1 \<union> set b2 \<union> set b3" ?m3] *(7,8) by auto
  moreover have "free (Some a) ?m4 = Some (m\<lparr>blocks := ?h |` (- set as)\<rparr>)"
    using *(2,7,8) by (auto simp: free_def restrict_map_def fun_eq_iff)
  ultimately show ?thesis using * by (simp add: heap_usermap_destroy_def)
qed

lemma destroy_object:
  assumes "object_at k (blocks m) p as"
  shows "destroy k p m = Some (m\<lparr>blocks := blocks m |` (- set as)\<rparr>)"
proof (cases k)
  case Plain
  then show ?thesis using assms free_plain by (simp add: object_at_def destroy_def)
next
  case Map
  then show ?thesis using assms destroy_map by (simp add: object_at_def destroy_def)
next
  case Chain
  then show ?thesis using assms destroy_steps by (auto simp: object_at_def destroy_def)
qed

lemma destroy_slots_frees:
  assumes "distinct slots"
    and "\<And>s. s \<in> set slots \<Longrightarrow> object_at (kind_of s) h (sp s) (f s)"
    and "\<And>s s'. s \<in> set slots \<Longrightarrow> s' \<in> set slots \<Longrightarrow> s \<noteq> s' \<Longrightarrow> set (f s) \<inter> set (f s') = {}"
    and "\<And>s. s \<in> set slots \<Longrightarrow> set (f s) \<inter> A = {}" and "blocks m = h |` (- A)"
  shows "\<exists>m'. destroy_slots slots sp m = Some ((\<lambda>s. if s \<in> set slots - {Mntsrc, Mntdest} then None else sp s), m')
    \<and> blocks m' = h |` (- (A \<union> (\<Union>s \<in> set slots. set (f s)))) \<and> unused m' = unused m"
  using assms
proof (induction slots arbitrary: sp m A)
  case (Cons s slots)
  have "object_at (kind_of s) (blocks m) (sp s) (f s)"
  proof (rule object_at_cong)
    show "object_at (kind_of s) h (sp s) (f s)" by (rule Cons.prems(2)) simp
    show "h a = blocks m a" if "a \<in> set (f s)" for a
      using that Cons.prems(4) [of s] Cons.prems(5) by (auto simp: restrict_map_def)
  qed
  from destroy_object [OF this] have d: "destroy (kind_of s) (sp s) m = Some (m\<lparr>blocks := h |` (- (A \<union> set (f s)))\<rparr>)"
    by (simp only: Cons.prems(5) restrict_restrict)
  let ?sp = "if s = Mntsrc \<or> s = Mntdest then sp else sp(s := None)"
  let ?m = "m\<lparr>blocks := h |` (- (A \<union> set (f s)))\<rparr>"
  have same: "?sp s' = sp s'" if "s' \<in> set slots" for s' using that Cons.prems(1) by auto
  have "\<exists>m'. destroy_slots slots ?sp ?m = Some ((\<lambda>s. if s \<in> set slots - {Mntsrc, Mntdest} then None else ?sp s), m')
      \<and> blocks m' = h |` (- ((A \<union> set (f s)) \<union> (\<Union>s \<in> set slots. set (f s)))) \<and> unused m' = unused ?m"
  proof (rule Cons.IH)
    show "object_at (kind_of s') h (?sp s') (f s')" if "s' \<in> set slots" for s'
      using that Cons.prems(2) same by simp
    show "set (f s') \<inter> (A \<union> set (f s)) = {}" if "s' \<in> set slots" for s'
      using that Cons.prems(1,4) Cons.prems(3) [of s' s] by auto
  qed (use Cons.prems in auto)
  moreover have "(\<lambda>s'. if s' \<in> set slots - {Mntsrc, Mntdest} then None else ?sp s')
      = (\<lambda>s'. if s' \<in> set (s # slots) - {Mntsrc, Mntdest} then None else sp s')" by auto
  ultimately show ?case by (simp add: d Un_assoc)
qed simp

lemma all_slots: "set atexit_slots = UNIV" "distinct atexit_slots"
proof -
  have "s \<in> set atexit_slots" for s by (cases s) (simp_all add: atexit_slots_def)
  then show "set atexit_slots = UNIV" by blast
  show "distinct atexit_slots" by (simp add: atexit_slots_def)
qed

lemma atexit_func_frees:
  assumes "owns sp m f F"
  shows "\<exists>sp' m'. atexit_func sp m = Some (sp', m') \<and> blocks m' = F \<and> {s. sp' s \<noteq> None} \<subseteq> {Mntsrc, Mntdest}"
proof -
  have "blocks m = blocks m |` (- {})" by (simp add: restrict_map_def)
  with destroy_slots_frees [of atexit_slots "blocks m" sp f "{}" m] assms show ?thesis
    by (auto simp: owns_def all_slots atexit_func_def)
qed

section \<open>The set-up keeps ownership\<close>

text \<open>One object may be replaced by another one that leaves the rest of memory alone.\<close>

lemma owns_replace:
  assumes o: "owns sp m f F" and new: "object_in (kind_of s) m' p' as' (blocks m |` (- set (f s)))"
  shows "owns (sp(s := p')) m' (f(s := as')) F"
proof -
  have obj: "object_at (kind_of s') (blocks m) (sp s') (f s')" for s' using o by (simp add: owns_def)
  have apart: "set (f s') \<inter> set (f s'') = {}" if "s' \<noteq> s''" for s' s'' using o that by (simp add: owns_def)
  have n: "memory_ok m'" "object_at (kind_of s) (blocks m') p' as'"
      "blocks m |` (- set (f s)) = blocks m' |` (- set as')" using new by (simp_all add: object_in_def)
  have eq: "a \<notin> set as' \<and> blocks m' a = blocks m a" if "a \<in> set (f s')" "s' \<noteq> s" for a s'
  proof -
    have "a \<notin> set (f s)" "blocks m a \<noteq> None" using that apart object_at_dom [OF obj [of s']] by auto
    with fun_cong [OF n(3), of a] show ?thesis by (auto simp: restrict_map_def split: if_splits)
  qed
  have "object_at (kind_of s') (blocks m') (sp s') (f s')" if "s' \<noteq> s" for s'
    using object_at_cong [OF _ obj [of s'], of "blocks m'"] eq that by simp
  moreover have "set as' \<inter> set (f s') = {}" if "s' \<noteq> s" for s' using eq that by blast
  moreover have "F = blocks m' |` (- (\<Union>s'. set ((f(s := as')) s')))"
  proof
    fix a
    have "F a = (if \<exists>s'. a \<in> set (f s') then None else blocks m a)" using o by (auto simp: owns_def restrict_map_def)
    also have "(\<exists>s'. a \<in> set (f s')) \<longleftrightarrow> a \<in> set (f s) \<or> (\<exists>s'. s' \<noteq> s \<and> a \<in> set (f s'))" by metis
    also have "(if a \<in> set (f s) \<or> (\<exists>s'. s' \<noteq> s \<and> a \<in> set (f s')) then None else blocks m a)
        = (if a \<in> set as' \<or> (\<exists>s'. s' \<noteq> s \<and> a \<in> set (f s')) then None else blocks m' a)"
      using fun_cong [OF n(3), of a] eq by (auto simp: restrict_map_def split: if_splits)
    finally show "F a = (blocks m' |` (- (\<Union>s'. set ((f(s := as')) s')))) a" by (auto simp: restrict_map_def)
  qed
  ultimately show ?thesis using n(1,2) apart by (auto simp: owns_def)
qed

lemma malloc_object: "memory_ok m \<Longrightarrow> malloc Bytes m = (a, m') \<Longrightarrow> object_in Plain m' (Some a) [a] (blocks m)"
  by (auto simp: object_in_def object_at_def plain_at_def malloc_def memory_ok_def restrict_map_def fun_eq_iff)

lemma create_map_object: "memory_ok m \<Longrightarrow> heap_usermap_create m = (a, m') \<Longrightarrow> object_in Map m' (Some a) [a] (blocks m)"
  by (auto simp: object_in_def object_at_def map_at_def plain_at_def heap_usermap_create_def malloc_def memory_ok_def
      restrict_map_def fun_eq_iff)

lemma create_chain_object: "memory_ok m \<Longrightarrow> heap_permchain_create m = (a, m') \<Longrightarrow> object_in Chain m' (Some a) [a] (blocks m)"
  using create_chain [of m a m'] by (auto simp: object_in_def object_at_def chain_in_def)

lemma rules_object:
  assumes "object_in Chain m (Some a) as G"
  shows "\<exists>r m' as'. heap_add_chmod_rules rules a m = Some (r, m') \<and> object_in Chain m' (Some a) as' G"
proof -
  from assms obtain ns where "chain_in m a as ns G" by (auto simp: object_in_def object_at_def chain_in_def)
  from heap_add_chmod_rules_refines this obtain m' bs where "heap_add_chmod_rules rules a m
      = Some (fst (add_chmod_rules_to_permchain rules ns), m')" "chain_in m' a (as @ bs) (snd (add_chmod_rules_to_permchain rules ns)) G"
    by (rule extends_chainE)
  then show ?thesis by (auto simp: object_in_def object_at_def chain_in_def)
qed

lemma realloc_plain:
  "plain_at (blocks m) p as \<Longrightarrow> realloc p m =
     Some (unused m, \<lparr>blocks = (blocks m |` (- set as))(unused m \<mapsto> Bytes), unused = Suc (unused m)\<rparr>)"
  by (simp add: realloc_def free_plain malloc_def)

text \<open>Two arrays of a map given new memory, one after the other.\<close>

lemma realloc_two:
  assumes ok: "memory_ok m" and p: "plain_at (blocks m) p as" and q: "plain_at (blocks m) q bs" and d: "set as \<inter> set bs = {}"
  shows "\<exists>m1 m2. realloc p m = Some (unused m, m1) \<and> realloc q m1 = Some (Suc (unused m), m2)
    \<and> blocks m2 = (blocks m |` (- (set as \<union> set bs)))(unused m \<mapsto> Bytes, Suc (unused m) \<mapsto> Bytes)
    \<and> unused m2 = Suc (Suc (unused m))"
proof -
  let ?m1 = "\<lparr>blocks = (blocks m |` (- set as))(unused m \<mapsto> Bytes), unused = Suc (unused m)\<rparr>"
  have "unused m \<notin> set bs" using plain_at_dom [OF q] ok by (auto simp: memory_ok_def)
  then have "plain_at (blocks ?m1) q bs" using d by (intro plain_at_cong [OF _ q]) (auto simp: restrict_map_def)
  from realloc_plain [OF this] realloc_plain [OF p] show ?thesis
    using \<open>unused m \<notin> set bs\<close> by (auto simp: restrict_map_def fun_eq_iff)
qed

lemma grown_map:
  assumes ok: "memory_ok m" and a: "blocks m a \<noteq> None"
    and keep: "plain_at (blocks m) p as" "plain_at (blocks m) q bs" and old: "set cs \<subseteq> dom (blocks m)"
    and d: "distinct (a # cs @ as @ bs)"
    and m': "blocks m' = (blocks m |` (- set cs))(unused m \<mapsto> Bytes, Suc (unused m) \<mapsto> Bytes)" "unused m' = Suc (Suc (unused m))"
    and ptrs: "ptrs = [Some (unused m), Some (Suc (unused m)), p, q] \<and> ds = unused m # Suc (unused m) # as @ bs
      \<or> ptrs = [p, q, Some (unused m), Some (Suc (unused m))] \<and> ds = as @ bs @ [unused m, Suc (unused m)]"
  shows "\<exists>m''. store a (Pointers ptrs) m' = Some m'' \<and> object_in Map m'' (Some a) (a # ds) (blocks m |` (- set (a # cs @ as @ bs)))"
proof -
  have "unused m \<notin> dom (blocks m)" "Suc (unused m) \<notin> dom (blocks m)" using ok by (auto simp: memory_ok_def)
  moreover have dom: "set as \<subseteq> dom (blocks m)" "set bs \<subseteq> dom (blocks m)" "a \<in> dom (blocks m)" using keep [THEN plain_at_dom] a by auto
  ultimately have fresh: "unused m \<notin> set as" "unused m \<notin> set bs" "unused m \<noteq> a" "unused m \<notin> set cs"
      "Suc (unused m) \<notin> set as" "Suc (unused m) \<notin> set bs" "Suc (unused m) \<noteq> a" "Suc (unused m) \<notin> set cs" using old by auto
  let ?h = "(blocks m')(a \<mapsto> Pointers ptrs)"
  have same: "?h x = blocks m x" if "x \<in> set as \<union> set bs" for x
    using that fresh d m'(1) by (auto simp: restrict_map_def)
  have "plain_at ?h p as" "plain_at ?h q bs" using same keep by (auto intro: plain_at_cong [of _ "blocks m"])
  moreover have "plain_at ?h (Some (unused m)) [unused m]" "plain_at ?h (Some (Suc (unused m))) [Suc (unused m)]"
    using fresh m'(1) by (auto simp: plain_at_def)
  moreover have "distinct (a # ds)" using ptrs d fresh by auto
  ultimately have "map_at ?h (Some a) (a # ds)"
    using ptrs unfolding map_at_def by fastforce
  moreover have "set (a # ds) = insert a (set as \<union> set bs \<union> {unused m, Suc (unused m)})" using ptrs by auto
  then have "blocks m |` (- set (a # cs @ as @ bs)) = ?h |` (- set (a # ds))"
    using ok m'(1) by (auto simp: restrict_map_def fun_eq_iff memory_ok_def)
  moreover have "blocks m' a \<noteq> None" using a d fresh m'(1) by (auto simp: restrict_map_def)
  moreover have "memory_ok (m'\<lparr>blocks := ?h\<rparr>)" using ok m' a by (auto simp: memory_ok_def restrict_map_def)
  ultimately show ?thesis by (simp add: store_def object_in_def object_at_def)
qed

lemma grow_object:
  assumes "object_in Map m p as G"
  shows "\<exists>m' as'. heap_usermap_grow groups p m = Some m' \<and> object_in Map m' p as' G"
proof -
  from assms have ok: "memory_ok m" "map_at (blocks m) p as" and G: "G = blocks m |` (- set as)"
    by (auto simp: object_in_def object_at_def)
  then obtain a uf ut gf gt b1 b2 b3 b4 where *: "p = Some a" "blocks m a = Some (Pointers [uf, ut, gf, gt])"
      "plain_at (blocks m) uf b1" "plain_at (blocks m) ut b2" "plain_at (blocks m) gf b3" "plain_at (blocks m) gt b4"
      "as = a # b1 @ b2 @ b3 @ b4" "distinct as"
    unfolding map_at_def by blast
  note dom = *(3-6) [THEN plain_at_dom]
  have apart: "set b1 \<inter> set b2 = {}" "set b3 \<inter> set b4 = {}" using *(7,8) by auto
  show ?thesis
  proof (cases groups)
    case True
    from realloc_two [OF ok(1) *(5,6) apart(2)] obtain m1 m2 where r: "realloc gf m = Some (unused m, m1)"
        "realloc gt m1 = Some (Suc (unused m), m2)"
        "blocks m2 = (blocks m |` (- set (b3 @ b4)))(unused m \<mapsto> Bytes, Suc (unused m) \<mapsto> Bytes)" "unused m2 = Suc (Suc (unused m))"
      by auto
    have "set (a # (b3 @ b4) @ b1 @ b2) = set as" "distinct (a # (b3 @ b4) @ b1 @ b2)" using *(7,8) by auto
    with grown_map [OF ok(1) _ *(3,4) _ _ r(3,4), of a "[uf, ut, Some (unused m), Some (Suc (unused m))]"
        "b1 @ b2 @ [unused m, Suc (unused m)]"] *(2) dom
    show ?thesis using True *(1,2) r(1,2) G by (auto simp: heap_usermap_grow_def)
  next
    case False
    from realloc_two [OF ok(1) *(3,4) apart(1)] obtain m1 m2 where r: "realloc uf m = Some (unused m, m1)"
        "realloc ut m1 = Some (Suc (unused m), m2)"
        "blocks m2 = (blocks m |` (- set (b1 @ b2)))(unused m \<mapsto> Bytes, Suc (unused m) \<mapsto> Bytes)" "unused m2 = Suc (Suc (unused m))"
      by auto
    with grown_map [OF ok(1) _ *(5,6) _ _ r(3,4), of a "[Some (unused m), Some (Suc (unused m)), gf, gt]"
        "unused m # Suc (unused m) # b3 @ b4"] *(2,7,8) dom
    show ?thesis using False *(1,2) G by (auto simp: heap_usermap_grow_def)
  qed
qed

lemma owns_object: "owns sp m f F \<Longrightarrow> object_in (kind_of s) m (sp s) (f s) (blocks m |` (- set (f s)))"
  by (simp add: owns_def object_in_def)

definition fills :: "event \<Rightarrow> slot option" where
  "fills e = (case e of New s \<Rightarrow> Some s | _ \<Rightarrow> None)"

lemma run_event_owns:
  assumes o: "owns sp m f F" and e: "event_ok e" and empty: "\<And>s. fills e = Some s \<Longrightarrow> sp s = None"
  shows "\<exists>sp' m' f'. run_event e (sp, m) = Some (sp', m') \<and> owns sp' m' f' F \<and> (\<forall>s. fills e \<noteq> Some s \<longrightarrow> sp' s = sp s)"
proof (cases e)
  case (New s)
  obtain a m' where m': "malloc Bytes m = (a, m')" by fastforce
  have k: "kind_of s = Plain" "sp s = None" using New e empty by (simp_all add: fills_def)
  then have "f s = []" using owns_object [OF o, of s] by (simp add: object_in_def object_at_def plain_at_def)
  then have "blocks m |` (- set (f s)) = blocks m" by (simp add: restrict_map_def)
  moreover have "memory_ok m" using o by (simp add: owns_def)
  ultimately have "owns (sp(s := Some a)) m' (f(s := [a])) F"
    using owns_replace [OF o, of s m' "Some a" "[a]"] malloc_object [OF _ m'] k by simp
  then show ?thesis using New m' by (auto simp: fills_def)
next
  case (Grow s groups)
  then have "object_in Map m (sp s) (f s) (blocks m |` (- set (f s)))" using owns_object [OF o, of s] e by simp
  from grow_object [OF this, of groups] obtain m' as' where m': "heap_usermap_grow groups (sp s) m = Some m'"
      "object_in Map m' (sp s) as' (blocks m |` (- set (f s)))" by blast
  then have "owns (sp(s := sp s)) m' (f(s := as')) F" using owns_replace [OF o, of s m' "sp s" as'] Grow e by simp
  then show ?thesis using Grow m' by (auto simp: fills_def)
next
  case (Rules s rules)
  then have obj: "object_in Chain m (sp s) (f s) (blocks m |` (- set (f s)))" using owns_object [OF o, of s] e by simp
  then obtain a where a: "sp s = Some a" by (auto simp: object_in_def object_at_def)
  from rules_object [OF obj [unfolded a], of rules] obtain r m' as' where m': "heap_add_chmod_rules rules a m = Some (r, m')"
      "object_in Chain m' (Some a) as' (blocks m |` (- set (f s)))" by blast
  then have "owns (sp(s := Some a)) m' (f(s := as')) F" using owns_replace [OF o, of s m' "Some a" as'] Rules e by simp
  moreover have "sp(s := Some a) = sp" using a by auto
  ultimately show ?thesis using Rules m' a by (auto simp: fills_def)
qed

lemma run_events_own:
  "owns sp m f F \<Longrightarrow> list_all event_ok es \<Longrightarrow> distinct (List.map_filter fills es) \<Longrightarrow>
   (\<And>s. s \<in> set (List.map_filter fills es) \<Longrightarrow> sp s = None) \<Longrightarrow>
   \<exists>sp' m' f'. run_events es (sp, m) = Some (sp', m') \<and> owns sp' m' f' F"
proof (induction es arbitrary: sp m f)
  case (Cons e es)
  have e: "event_ok e" using Cons.prems(2) by simp
  have "sp s = None" if "fills e = Some s" for s using that Cons.prems(4) by (simp add: map_filter_simps)
  from run_event_owns [OF Cons.prems(1) e this] obtain sp1 m1 f1 where
    s1: "run_event e (sp, m) = Some (sp1, m1)" "owns sp1 m1 f1 F" "\<forall>s. fills e \<noteq> Some s \<longrightarrow> sp1 s = sp s" by blast
  have "sp1 s = None" if "s \<in> set (List.map_filter fills es)" for s
  proof -
    have "fills e \<noteq> Some s" using that Cons.prems(3) by (auto simp: map_filter_simps)
    then show ?thesis using s1(3) that Cons.prems(4) by (simp add: map_filter_simps split: option.splits)
  qed
  with Cons.IH [OF s1(2)] Cons.prems(2,3) s1(1) show ?case by (auto simp: map_filter_simps split: option.splits)
qed auto

lemma single_chain: "(\<exists>ns. chain_at h (Some a) [a] ns) \<longleftrightarrow> (\<exists>n. h a = Some (Node n None))"
  by auto

lemma init_pointers_own:
  assumes ok: "memory_ok m" and init: "init_pointers m = (sp, m')"
  shows "\<exists>f. owns sp m' f (blocks m) \<and> (\<forall>s. event_ok (New s) \<longrightarrow> sp s = None)"
proof -
  let ?u = "unused m" and ?f = "\<lambda>s. case sp s of None \<Rightarrow> [] | Some a \<Rightarrow> [a]"
  have sp: "sp = (\<lambda>_. None)(Permchain := Some ?u, Usermap := Some (Suc ?u), Usermap_reverse := Some (Suc (Suc ?u)),
      Original_working_dir := Some (Suc (Suc (Suc ?u))), Create_permchain := Some (Suc (Suc (Suc (Suc ?u)))),
      Chmod_permchain := Some (Suc (Suc (Suc (Suc (Suc ?u))))))"
    and m': "blocks m' = (blocks m)(?u \<mapsto> Node permchain_node None, Suc ?u \<mapsto> Pointers [None, None, None, None],
      Suc (Suc ?u) \<mapsto> Pointers [None, None, None, None], Suc (Suc (Suc ?u)) \<mapsto> Bytes,
      Suc (Suc (Suc (Suc ?u))) \<mapsto> Node permchain_node None, Suc (Suc (Suc (Suc (Suc ?u)))) \<mapsto> Node permchain_node None)"
      "unused m' = Suc (Suc (Suc (Suc (Suc (Suc ?u)))))"
    using init by (auto simp: init_pointers_def heap_permchain_create_def heap_usermap_create_def malloc_def)
  have "object_at (kind_of s) (blocks m') (sp s) (?f s)" for s
    by (cases s) (simp_all add: sp m'(1) object_at_def plain_at_def map_at_def single_chain)
  moreover have "set (?f s) \<inter> set (?f s') = {}" if "s \<noteq> s'" for s s' using that by (cases s; cases s') (simp_all add: sp)
  moreover have "(\<Union>s. set (?f s)) = {?u ..< unused m'}"
  proof -
    have "(\<Union>s. set (?f s)) = (\<Union>s \<in> set atexit_slots. set (?f s))" by (simp only: all_slots)
    also have "\<dots> = {?u ..< unused m'}" by (auto simp: atexit_slots_def sp m'(2) less_Suc_eq)
    finally show ?thesis .
  qed
  moreover have "memory_ok m'" "blocks m = blocks m' |` (- {?u ..< unused m'})"
    using ok m' by (auto simp: memory_ok_def restrict_map_def fun_eq_iff)
  ultimately have "owns sp m' ?f (blocks m)" by (simp add: owns_def)
  moreover have "sp s = None" if "event_ok (New s)" for s using that by (cases s) (simp_all add: sp)
  ultimately show ?thesis by blast
qed

section \<open>Properties\<close>

text \<open>
  C18. Nothing is leaked and nothing is freed twice at exit: after the initial settings and any sequence of
  allocations the set-up makes (strings, limiters, arrays, maps that grow, rules accepted or rejected),
  \<^verbatim>\<open>atexit_func\<close> ends without a bad memory access and leaves memory as it was before \<^verbatim>\<open>main\<close> began, wherever in
  the set-up the process ends; every pointer it frees but those to the two directory names is set to null.
\<close>

theorem exit_frees_everything:
  assumes "memory_ok m" and "set_up es"
  shows "\<exists>sp m1 sp' m2. run_events es (init_pointers m) = Some (sp, m1) \<and> atexit_func sp m1 = Some (sp', m2)
    \<and> blocks m2 = blocks m \<and> {s. sp' s \<noteq> None} \<subseteq> {Mntsrc, Mntdest}"
proof -
  obtain sp0 m0 where init: "init_pointers m = (sp0, m0)" by fastforce
  from init_pointers_own [OF assms(1) init] obtain f where f: "owns sp0 m0 f (blocks m)"
    and empty: "\<forall>s. event_ok (New s) \<longrightarrow> sp0 s = None" by blast
  have es: "list_all event_ok es" "distinct (List.map_filter fills es)"
    using assms(2) by (simp_all add: set_up_def fills_def [abs_def])
  have "event_ok (New s)" if "s \<in> set (List.map_filter fills es)" for s
  proof -
    from that obtain e where "e \<in> set es" "fills e = Some s" by (auto simp: List.map_filter_def)
    then show ?thesis using es(1) by (cases e rule: event.exhaust) (auto simp: list_all_iff fills_def simp del: event_ok.simps)
  qed
  then obtain sp m1 f1 where r: "run_events es (sp0, m0) = Some (sp, m1)" "owns sp m1 f1 (blocks m)"
    using run_events_own [OF f es] empty by blast
  from atexit_func_frees [OF r(2)] r(1) init show ?thesis by auto
qed

theorem exit_frees_everything_witness:
  "set_up [New Mntsrc, New Mntdest, New Read_limiter, Grow Usermap False, Grow Usermap_reverse False, Rules Permchain ''u+x:bad'']
   \<and> (\<exists>sp m1 sp' m2. run_events [New Mntsrc, New Mntdest, New Read_limiter, Grow Usermap False, Grow Usermap_reverse False,
            Rules Permchain ''u+x:bad''] (init_pointers \<lparr>blocks = Map.empty, unused = 0\<rparr>) = Some (sp, m1)
        \<and> atexit_func sp m1 = Some (sp', m2) \<and> blocks m2 = Map.empty)"
proof -
  let ?es = "[New Mntsrc, New Mntdest, New Read_limiter, Grow Usermap False, Grow Usermap_reverse False, Rules Permchain ''u+x:bad'']"
  have s: "set_up ?es" by (simp add: set_up_def map_filter_simps)
  have "memory_ok \<lparr>blocks = Map.empty, unused = 0\<rparr>" by (simp add: memory_ok_def)
  from exit_frees_everything [OF this s] s show ?thesis by auto
qed

end
