(* ===== verification/Session.thy ===== *)
theory Session
  imports Startup Mirroring Teardown
begin

text \<open>
  A mounted file system from beginning to end: what \<^verbatim>\<open>main\<close> (\<^verbatim>\<open>src/bindfs.c\<close>) does after the settings are made, the
  callbacks \<^verbatim>\<open>init\<close> and \<^verbatim>\<open>destroy\<close>, the requests in between, and the exit status; and what the set-up allocates.
\<close>

section \<open>Around \<^verbatim>\<open>fuse_main\<close>\<close>

text \<open>The handler that \<^verbatim>\<open>setup_signal_handling\<close> installs for SIGUSR1.\<close>

definition signal_handler :: "user_cache \<Rightarrow> user_cache" where
  "signal_handler c = invalidate_user_cache c"

text \<open>After the signal the cache is up to date with whatever the database has become, by being rebuilt at its next use.\<close>

lemma signal_handler_fine: "cache_fine db (signal_handler c)"
  by (simp add: signal_handler_def invalidate_user_cache_def cache_fine_def)

text \<open>The user cache is filled before the file system is mounted, if it is needed.\<close>

definition populate_user_cache :: "Settings \<Rightarrow> user_db \<Rightarrow> user_cache \<Rightarrow> user_cache option" where
  "populate_user_cache s db c = (if is_mirroring_enabled s then init_user_cache db c else Some c)"

definition exit_status :: "bool \<Rightarrow> int \<Rightarrow> int" where
  "exit_status bindfs_init_failed fuse_main_return = (if bindfs_init_failed then 1 else fuse_main_return)"

text \<open>
  \<^verbatim>\<open>fuse_main\<close> is code of libfuse.  What it does is the argument \<open>session\<close>: \<open>None\<close> when it returns without having served anything,
  because the mount failed, say; or it calls \<^verbatim>\<open>init\<close> with a configuration, then the handlers of the requests it gets from the
  kernel, some list of them, and at the end \<^verbatim>\<open>destroy\<close>.  In both cases it returns some number \<open>ret\<close>.  This is the process
  that serves the file system; when libfuse puts it into the background, it makes the process that was started exit itself.
\<close>

type_synonym fuse_session = "(fuse_config \<times> (fuse_context \<times> request) list) option"

definition mounted :: "Settings \<Rightarrow> fuse_session \<Rightarrow> int \<Rightarrow> (int \<times> fuse_config option \<times> reply list) prog" where
  "mounted s session ret =
     pbind (case session of
              None \<Rightarrow> Ret (False, None, [])
            | Some (cfg, reqs) \<Rightarrow>
                pbind (bindfs_init s cfg) (\<lambda>(bindfs_init_failed, cfg).
                pbind (serve_all s reqs) (\<lambda>(replies, _).
                pbind bindfs_destroy (\<lambda>_. Ret (bindfs_init_failed, Some cfg, replies)))))
       (\<lambda>(bindfs_init_failed, cfg, replies).
          UnitCall (On_fd Close (mntsrc_fd s)) (\<lambda>_.
            Ret (exit_status bindfs_init_failed ret, cfg, replies)))"

section \<open>Options that decide how the kernel is told to cache\<close>

definition direct_io_given :: "(string \<times> OptionKey) list \<Rightarrow> bool \<Rightarrow> bool" where
  "direct_io_given calls b =
     fold (\<lambda>(arg, k) b. k = OPTKEY_DIRECT_IO \<or> k \<noteq> OPTKEY_NO_DIRECT_IO \<and> b) calls b"

lemma direct_io_callback:
  "process_option env s arg k = Opt_return r s' \<Longrightarrow>
   direct_io s' \<longleftrightarrow> k = OPTKEY_DIRECT_IO \<or> k \<noteq> OPTKEY_NO_DIRECT_IO \<and> direct_io s"
  by (cases k; clarsimp simp: process_option_def process_nonoption_def split: if_splits sum.splits)

lemma direct_io_parsed:
  "parse_options env calls s = Inr s' \<Longrightarrow> direct_io s' = direct_io_given calls (direct_io s)"
proof (induction calls arbitrary: s)
  case (Cons c calls)
  obtain arg k where c: "c = (arg, k)" by (cases c)
  from Cons.prems obtain r s1 where s1: "process_option env s arg k = Opt_return r s1" "parse_options env calls s1 = Inr s'"
    by (auto simp: c split: opt_result.splits if_splits)
  show ?case using Cons.IH [OF s1(2)] direct_io_callback [OF s1(1)] by (simp add: c direct_io_given_def)
qed (simp add: direct_io_given_def)

lemma main_direct_io:
  assumes "main env argv0 od calls args = Inr (s, args')"
  shows "direct_io s = direct_io_given calls False"
proof -
  from assms obtain wd s1 where s1: "parse_options env calls (initial_settings env argv0 wd) = Inr s1" "configure env od s1 = Inr s"
    by (rule mainE)
  have "callback_settings s = callback_settings s1" by (rule keepsD [OF callback_settings_kept _ s1(2)]) simp
  then have "direct_io s = direct_io s1" by (simp add: callback_settings_def)
  then show ?thesis using direct_io_parsed [OF s1(1)] by (simp add: initial_settings_def)
qed

lemma main_source_opened:
  assumes "main env argv0 od calls args = Inr (s, args')"
  shows "\<exists>src. mntsrc s = Some src \<and> env_open_dir env src = Inr (mntsrc_fd s)"
proof -
  obtain src where src: "mntsrc s = Some src" using main_mount_set(1) [OF assms] by blast
  from assms obtain s1 where "configure env od s1 = Inr s" by (rule mainE)
  then obtain s2 where "finish_setup env od s2 = Inr s" unfolding configure_def then_step_Inr by blast
  then show ?thesis using src by (auto simp: finish_setup_def split: sum.splits if_splits)
qed

lemma mounted_run:
  assumes ok: "settings_ok s" and d: "mntsrc_fd s > 0"
  shows "\<exists>replies. fst (run K (mounted s (Some (cfg, reqs)) ret) st)
      = Some (if fst (k_unit K (On_fd Fchdir (mntsrc_fd s)) st) = None then ret else 1,
          Some (cfg\<lparr>cfg_use_ino := 1, cfg_entry_timeout := 0, cfg_attr_timeout := 0, cfg_negative_timeout := 0,
              cfg_direct_io := direct_io s\<rparr>), replies) \<and> length replies = length reqs"
proof -
  let ?cfg = "cfg\<lparr>cfg_use_ino := 1, cfg_entry_timeout := 0, cfg_attr_timeout := 0, cfg_negative_timeout := 0,
                  cfg_direct_io := direct_io s\<rparr>"
  obtain r st0 where r: "k_unit K (On_fd Fchdir (mntsrc_fd s)) st = (r, st0)" by fastforce
  have "permchain_of s \<noteq> []" using ok by (simp add: settings_ok_def)
  then have "\<exists>tr st1. run K (bindfs_init s cfg) st = (Some (r \<noteq> None, ?cfg), tr, st1)"
    using d r by (cases r; cases "k_unit K (Other Fuse_exit) st0") (simp_all add: bindfs_init_def logged_def Let_def)
  then obtain tr st1 where init: "run K (bindfs_init s cfg) st = (Some (r \<noteq> None, ?cfg), tr, st1)" by blast
  obtain rs s' where "fst (run K (serve_all s reqs) st1) = Some (rs, s')" "length rs = length reqs"
    using serve_all_limited [OF ok, of K reqs st1] by blast
  moreover from this obtain tr' st2 where "run K (serve_all s reqs) st1 = (Some (rs, s'), tr', st2)"
    by (cases "run K (serve_all s reqs) st1") auto
  ultimately show ?thesis
    by (auto simp: r mounted_def run_pbind init bindfs_destroy_def exit_status_def logged_def split: prod.split)
qed

section \<open>Allocations of the set-up\<close>

text \<open>
  The allocations \<^verbatim>\<open>main\<close> makes for the settings, in the terms of theory \<open>Teardown\<close>.  The option callback stores a directory name only in a slot that is still empty; after it, every
  statement that allocates is reached at most once: the two limiters, the growing of the maps (as often as it takes, in any
  order), the two arrays of \<^verbatim>\<open>parse_mirrored_users\<close>, and the three sets of rules.  The process can end after any of them.
\<close>

definition nonoption_events :: "env \<Rightarrow> Settings \<Rightarrow> string \<Rightarrow> event list" where
  "nonoption_events env s arg =
     (if mntsrc s = None then
        (case (if strncmp_eq arg ''/proc/'' 6 then Inr arg else env_realpath env arg) of Inl e \<Rightarrow> [] | Inr p \<Rightarrow> [New Mntsrc])
      else if mntdest s = None then
        (case env_realpath env arg of Inl e \<Rightarrow> [] | Inr p \<Rightarrow> [New Mntdest])
      else [])"

fun parse_events :: "env \<Rightarrow> (string \<times> OptionKey) list \<Rightarrow> Settings \<Rightarrow> event list" where
  "parse_events env [] s = []"
| "parse_events env ((arg, k) # calls) s =
     (if k = OPTKEY_NONOPTION then nonoption_events env s arg else [])
     @ (case process_option env s arg k of
          Opt_exit n \<Rightarrow> []
        | Opt_return r s' \<Rightarrow> if r = - 1 then [] else parse_events env calls s')"

definition main_events :: "env \<Rightarrow> OptionData \<Rightarrow> (string \<times> OptionKey) list \<Rightarrow> (bool \<times> bool) list \<Rightarrow> Settings \<Rightarrow> event list" where
  "main_events env od calls grown s =
     parse_events env calls s
     @ (if od_read_rate od \<noteq> None then [New Read_limiter] else [])
     @ (if od_write_rate od \<noteq> None then [New Write_limiter] else [])
     @ map (\<lambda>(reversed, groups). Grow (if reversed then Usermap_reverse else Usermap) groups) grown
     @ (if od_mirror od \<noteq> None \<or> od_mirror_only od \<noteq> None then [New Mirrored_users, New Mirrored_members] else [])
     @ (case od_perms od of None \<Rightarrow> [] | Some rules \<Rightarrow> [Rules Permchain rules])
     @ (case od_create_with_perms od of None \<Rightarrow> [] | Some rules \<Rightarrow> [Rules Create_permchain rules])
     @ (case od_chmod_filter od of None \<Rightarrow> [] | Some rules \<Rightarrow> [Rules Chmod_permchain rules])"

text \<open>The slots the callback can still fill.\<close>

definition open_slots :: "Settings \<Rightarrow> slot set" where
  "open_slots s = (if mntsrc s = None then {Mntsrc, Mntdest} else if mntdest s = None then {Mntdest} else {})"

lemma process_option_names:
  "process_option env s arg k = Opt_return r s' \<Longrightarrow> k \<noteq> OPTKEY_NONOPTION \<Longrightarrow> mntsrc s' = mntsrc s \<and> mntdest s' = mntdest s"
  by (cases k; clarsimp simp: process_option_def split: if_splits)

lemma parse_events_new:
  "mntsrc s = None \<longrightarrow> mntdest s = None \<Longrightarrow>
   \<exists>slots. parse_events env calls s = map New slots \<and> distinct slots \<and> set slots \<subseteq> open_slots s"
proof (induction calls arbitrary: s)
  case (Cons c calls)
  obtain arg k where c: "c = (arg, k)" by (cases c)
  show ?case
  proof (cases "process_option env s arg k")
    case (Opt_exit n)
    then show ?thesis by (auto simp: c process_option_def process_nonoption_def split: OptionKey.splits if_splits sum.splits)
  next
    case (Opt_return r s')
    show ?thesis
    proof (cases "k = OPTKEY_NONOPTION")
      case False
      then have same: "mntsrc s' = mntsrc s" "mntdest s' = mntdest s" using process_option_names [OF Opt_return] by simp_all
      then have "open_slots s' = open_slots s" by (simp add: open_slots_def)
      then have "\<exists>slots. parse_events env calls s' = map New slots \<and> distinct slots \<and> set slots \<subseteq> open_slots s"
        using Cons.IH [of s'] Cons.prems same by simp
      with False Opt_return show ?thesis by (cases "r = - 1") (simp_all add: c)
    next
      case True
      with Opt_return have p: "process_nonoption env s arg = Opt_return r s'" by (simp add: process_option_def)
      consider "nonoption_events env s arg = []" "r = - 1"
        | x where "nonoption_events env s arg = [New x]" "r \<noteq> - 1" "x \<in> open_slots s" "open_slots s' \<subseteq> open_slots s - {x}"
            "mntsrc s' = None \<longrightarrow> mntdest s' = None"
        using p Cons.prems
        by (auto simp: process_nonoption_def nonoption_events_def open_slots_def split: if_splits sum.splits)
      then show ?thesis
      proof cases
        case 1
        with True Opt_return show ?thesis by (auto simp: c)
      next
        case (2 x)
        with Cons.IH [of s'] obtain slots where "parse_events env calls s' = map New slots" "distinct slots" "set slots \<subseteq> open_slots s'"
          by blast
        with 2 True Opt_return show ?thesis by (intro exI [of _ "x # slots"]) (auto simp: c)
      qed
    qed
  qed
qed simp

lemma main_events_set_up:
  assumes "mntsrc s = None" and "mntdest s = None"
  shows "set_up (take n (main_events env od calls grown s))"
proof -
  let ?new = "List.map_filter (\<lambda>e. case e of New s \<Rightarrow> Some s | _ \<Rightarrow> None)"
  obtain slots where p: "parse_events env calls s = map New slots" "distinct slots" "set slots \<subseteq> {Mntsrc, Mntdest}"
    using parse_events_new [of s env calls] assms by (auto simp: open_slots_def)
  have [simp]: "?new (map New slots) = slots" by (induction slots) (simp_all add: List.map_filter_simps)
  have [simp]: "?new (xs @ ys) = ?new xs @ ?new ys" for xs ys by (simp add: List.map_filter_def)
  have [simp]: "?new (map (\<lambda>(reversed, groups). Grow (if reversed then Usermap_reverse else Usermap) groups) grown) = []"
    by (induction grown) (auto simp: List.map_filter_simps)
  have ok: "list_all event_ok (main_events env od calls grown s)"
    using p(3) by (auto simp: main_events_def p(1) list_all_iff split: option.splits if_splits)
  have new: "distinct (?new (main_events env od calls grown s))"
    using p(2,3) by (auto simp: main_events_def p(1) List.map_filter_simps split: option.split)
  obtain es es' where es: "main_events env od calls grown s = es @ es'" "take n (main_events env od calls grown s) = es"
    by (metis append_take_drop_id)
  have "set_up es" using ok new unfolding es(1) by (simp add: set_up_def)
  then show ?thesis by (simp only: es(2))
qed

section \<open>Properties\<close>

text \<open>
  C8. From the mount to the exit status, for every command line with which \<^verbatim>\<open>main\<close> starts the file system and whatever libfuse then
  does.  Filling the user cache does not abort, and with mirroring it then holds what the user database says.  If \<^verbatim>\<open>fuse_main\<close>
  returns without having called \<^verbatim>\<open>init\<close>, the process only closes the source directory and its exit status is what \<^verbatim>\<open>fuse_main\<close>
  returned.  Otherwise the kernel is told to keep inode numbers, to cache no names and attributes, and to use
  direct I/O as the last of \<^verbatim>\<open>--direct-io\<close> and \<^verbatim>\<open>--no-direct-io\<close> says; every request is answered, and the exit status is 1 if
  changing to the source directory failed and what \<^verbatim>\<open>fuse_main\<close> returned if not.  (If the descriptor of the source
  directory is 0, in a process started with standard input closed, the assertion in \<^verbatim>\<open>bindfs_init\<close> fails instead.)
\<close>

theorem mounted_process:
  assumes start: "main env argv0 od calls args = Inr (s, args')" and "db_ok db"
  shows "\<exists>c src d. populate_user_cache s db initial_cache = Some c
    \<and> (is_mirroring_enabled s \<longrightarrow> represents db c \<and> \<not> cache_rebuild_requested c)
    \<and> mntsrc s = Some src \<and> env_open_dir env src = Inr d
    \<and> (case session of
         None \<Rightarrow> fst (run K (mounted s session ret) st) = Some (ret, None, [])
           \<and> fst (snd (run K (mounted s session ret) st)) = [On_fd Close d]
       | Some (cfg, reqs) \<Rightarrow>
           if d \<le> 0 then fst (run K (mounted s session ret) st) = None
           else \<exists>cfg' replies.
             fst (run K (mounted s session ret) st)
               = Some (if fst (k_unit K (On_fd Fchdir d) st) = None then ret else 1, Some cfg', replies)
             \<and> length replies = length reqs
             \<and> cfg' = cfg\<lparr>cfg_use_ino := 1, cfg_entry_timeout := 0, cfg_attr_timeout := 0, cfg_negative_timeout := 0,
                           cfg_direct_io := direct_io_given calls False\<rparr>)"
proof -
  have ok: "settings_ok s" using main_setup_ok [OF start] by (simp add: setup_ok_def)
  obtain src where src: "mntsrc s = Some src" "env_open_dir env src = Inr (mntsrc_fd s)"
    using main_source_opened [OF start] by blast
  obtain c where c: "init_user_cache db initial_cache = Some c" "represents db c" "\<not> cache_rebuild_requested c"
    using init_user_cache_represents [OF assms(2), of initial_cache] by (auto simp: initial_cache_def)
  define c' where "c' = (if is_mirroring_enabled s then c else initial_cache)"
  then have "populate_user_cache s db initial_cache = Some c'"
      "is_mirroring_enabled s \<longrightarrow> represents db c' \<and> \<not> cache_rebuild_requested c'"
    using c by (simp_all add: populate_user_cache_def)
  moreover have "fst (run K (mounted s (Some (cfg, reqs)) ret) st) = None" if "mntsrc_fd s \<le> 0" for cfg reqs
    using that by (simp add: mounted_def bindfs_init_def Let_def)
  moreover have "fst (run K (mounted s None ret) st) = Some (ret, None, [])
      \<and> fst (snd (run K (mounted s None ret) st)) = [On_fd Close (mntsrc_fd s)]"
    by (simp add: mounted_def exit_status_def split_beta)
  ultimately show ?thesis
    using src main_direct_io [OF start] mounted_run [OF ok, of K _ _ ret st]
    by (intro exI [of _ c'] exI [of _ src] exI [of _ "mntsrc_fd s"]) (auto split: option.split)
qed

theorem mounted_process_witness:
  "\<exists>s args' replies. main (example_env 0) ''bindfs'' no_options example_calls [] = Inr (s, args')
     \<and> db_ok example_db \<and> populate_user_cache s example_db initial_cache \<noteq> None
     \<and> fst (run (example_kernel (example_stat 0 0) [])
          (mounted s (Some (\<lparr>cfg_use_ino = 0, cfg_entry_timeout = 1, cfg_attr_timeout = 1, cfg_negative_timeout = 0, cfg_direct_io = True\<rparr>,
            [(\<lparr>fc_uid = 1, fc_gid = 1\<rparr>, Mkdir_req (Some ''/a'') 0)])) 0) ())
        = Some (0, Some \<lparr>cfg_use_ino = 1, cfg_entry_timeout = 0, cfg_attr_timeout = 0, cfg_negative_timeout = 0, cfg_direct_io = False\<rparr>, replies)
     \<and> fst (run (example_kernel (example_stat 0 0) []) (mounted s None 5) ()) = Some (5, None, [])"
proof -
  let ?cfg = "\<lparr>cfg_use_ino = 0, cfg_entry_timeout = 1, cfg_attr_timeout = 1, cfg_negative_timeout = 0, cfg_direct_io = True\<rparr>"
  let ?K = "example_kernel (example_stat 0 0) []" and ?reqs = "[(\<lparr>fc_uid = 1, fc_gid = 1\<rparr>, Mkdir_req (Some ''/a'') 0)]"
  have "case main (example_env 0) ''bindfs'' no_options example_calls [] of Inl _ \<Rightarrow> False | Inr (s, _) \<Rightarrow> mntsrc_fd s = 3"
    by code_simp
  then obtain s args' where m: "main (example_env 0) ''bindfs'' no_options example_calls [] = Inr (s, args')" "mntsrc_fd s = 3"
    by (auto split: sum.splits)
  obtain src where src: "mntsrc s = Some src" "env_open_dir (example_env 0) src = Inr 3"
    using main_source_opened [OF m(1)] m(2) by auto
  have d: "direct_io_given example_calls False = False" by code_simp
  have f: "fst (k_unit ?K (On_fd Fchdir 3) ()) = None" by (simp add: example_kernel_def)
  from mounted_process [OF m(1) example_db_ok, where session = "Some (?cfg, ?reqs)" and K = ?K and ret = 0 and st = "()"]
    mounted_process [OF m(1) example_db_ok, where session = None and K = ?K and ret = 5 and st = "()"] src d f m(1) example_db_ok show ?thesis by auto
qed

end
