(* ===== verification/Regression.thy ===== *)
theory Regression
  imports Options Ratelimiter
begin

text \<open>
  The unit tests of the repository (\<^verbatim>\<open>tests/internals/test_internals.c\<close> and \<^verbatim>\<open>test_rate_limiter.c\<close>) run on the model: a
  check of the definitions that is independent of the theorems about them.
\<close>

definition my_dirname_suite :: "(string \<times> string) list" where
  "my_dirname_suite =
     [
      (''/foo/bar/baz'', ''/foo/bar''), (''/foo/bar'', ''/foo''), (''/foo'', ''/''),
      (''/foo/'', ''/foo''), (''/'', ''/''), (''foo'', ''.''), (''foo/bar'', ''foo''),
      (''./foo/bar'', ''./foo''), (''./foo'', ''.''), (''.'', ''..'')
     ]"

lemma my_dirname_passes: "list_all (\<lambda>(path, expected). my_dirname path = expected) my_dirname_suite"
  by code_simp

definition path_starts_with_suite :: "(string \<times> string \<times> bool) list" where
  "path_starts_with_suite =
     [
      (''/a/b/c'', ''/a/b'', True), (''/a/b/c'', ''/a/b/'', True),
      (''/a/b/c/'', ''/a/b/c/'', True), (''/a/b/c'', ''/a/b/c/'', True),
      (''/a/b/c'', ''/a/b/c'', True), (''/a/b/c'', ''/a/b/c/d'', False),
      (''/a/b/c/d'', ''/a/b/c'', True), (''/a/x/c'', ''/a/b'', False),
      (''/x/b/c'', ''/a/b'', False), (''/a'', ''/a/b'', False), (''/a/b'', ''/a'', True),
      (''a'', ''a/b'', False), (''a/b'', ''a'', True), (''a/b/c'', ''a/b'', True),
      (''a/b/c'', ''a/b/c'', True), (''/aaa/abc'', ''/aaa/abc'', True),
      (''/aaa/abcd'', ''/aaa/abc'', False), (''/aaa/abcdef'', ''/aaa/abc'', False),
      (''/aaa/ab'', ''/aaa/abc'', False), (''/aaa/abcdef/ccc'', ''/aaa/abc'', False),
      (''/aaa/bbb/ccc'', ''/aaa/bbb/ccc'', True), (''/aaa/bbb/ccc'', ''/aaa/bbb/cccc'', False),
      (''/aaa/bbb/ccc'', ''/aaa/bbb/cc'', False), (''/aaa/bbb/ccc/'', ''/aaa/bbb/ccc'', True),
      (''/aaa/bbb/ccc/'', ''/aaa/bbb/cccc'', False), (''/aaa/bbb/ccc/'', ''/aaa/bbb/cc'', False),
      (''/aaa/bbb/ccc'', ''/aaa/bbb/ccc/'', True), (''/aaa/bbb/ccc'', ''/aaa/bbb/cccc/'', False),
      (''/aaa/bbb/ccc'', ''/aaa/bbb/cc/'', False), (''/aaa/bbb/ccc/'', ''/aaa/bbb/ccc/'', True),
      (''/aaa/bbb/ccc/'', ''/aaa/bbb/cccc/'', False), (''/aaa/bbb/ccc/'', ''/aaa/bbb/cc/'', False),
      (''abc'', ''abc'', True), (''abc'', ''ab'', False), (''abc'', ''abcd'', False),
      (''abc/'', ''abc'', True), (''abc/'', ''ab'', False), (''abc/'', ''abcd'', False),
      (''abc'', ''abc/'', True), (''abc'', ''ab/'', False), (''abc'', ''abcd/'', False),
      (''abc/'', ''abc/'', True), (''abc/'', ''ab/'', False), (''abc/'', ''abcd/'', False),
      (''abc//'', ''abc//'', True), (''abc//'', ''ab//'', False), (''abc//'', ''abcd//'', False),
      (''/a/b/c'', [], True), (''/a/b/c'', ''/'', True), (''/a/b/c'', ''/'', True)
     ]"

lemma path_starts_with_passes:
  "list_all (\<lambda>(path, pref, expected). path_starts_with path pref (length pref) = expected) path_starts_with_suite"
  by code_simp

definition keep_opt :: "string \<Rightarrow> bool" where
  "keep_opt opt \<longleftrightarrow> opt \<noteq> [] \<and> \<not> strncmp_eq opt ''bad'' 3"

definition filter_o_opts_suite :: "(string list \<times> string list) list" where
  "filter_o_opts_suite =
     [
      ([''-obad1''], []), ([''-ogood1''], [''-ogood1'']), ([''-obad1,good1''], [''-ogood1'']),
      ([''-ogood1,bad''], [''-ogood1'']), ([''-obad1,good1,bad2''], [''-ogood1'']),
      ([''-obad1,good1,bad2,good2''], [''-ogood1,good2'']),
      ([''-ogood1,bad1,good2''], [''-ogood1,good2'']), ([''-o'', ''bad1''], []),
      ([''-o'', ''good1''], [''-ogood1'']), ([''-o'', ''good1,bad1,good2''], [''-ogood1,good2'']),
      ([''-o'', ''bad1,good1,bad2''], [''-ogood1'']),
      ([''unrelated1'', ''-o'', ''bad1,good1,bad2'', ''unrelated2''], [''unrelated1'', ''-ogood1'', ''unrelated2'']),
      ([''unrelated1'', ''-o'', '',,,bad1,,good1,,bad2,,,'', ''unrelated2''], [''unrelated1'', ''-ogood1'', ''unrelated2'']),
      ([''-o''], [])
     ]"

lemma filter_o_opts_passes:
  "list_all (\<lambda>(args, expected). filter_o_opts keep_opt args = expected) filter_o_opts_suite"
  by code_simp

lemma rate_limiter_sleep_times:
  "let l = rate_limiter_init 10 123123;
       (t, l) = rate_limiter_wait_nosleep l 123123 30;
       (t', l) = rate_limiter_wait_nosleep l 123123 20;
       (t'', l) = rate_limiter_wait_nosleep l (123123 + 0.5) 30
   in t = 3 + rate_limiter_idle_credit \<and> t' = 5 + rate_limiter_idle_credit \<and> t'' = 7.5 + rate_limiter_idle_credit"
  by (simp add: rate_limiter_init_def rate_limiter_wait_nosleep_def rate_limiter_idle_credit_def Let_def)

lemma rate_limiter_after_idle:
  "let l = rate_limiter_init 10 123123;
       (t, l) = rate_limiter_wait_nosleep l 123123 30;
       (t', l) = rate_limiter_wait_nosleep l (123123 + 100) 20
   in t = 3 + rate_limiter_idle_credit \<and> t' = 2 + rate_limiter_idle_credit"
  by (simp add: rate_limiter_init_def rate_limiter_wait_nosleep_def rate_limiter_idle_credit_def Let_def)

end
