(* ===== verification/Spec2Isabelle.thy ===== *)
theory Spec2Isabelle
  imports Permchain Permheap Usermap Arena Misc Ratelimiter Limiterlock Userinfo Cachelock Cacheprogress Policies Startup
    Opttable Mirroring Session Teardown Regression
begin

text \<open>
  A verification development for bindfs, a FUSE file system that shows a directory at another place
  with altered owners, permissions and policies.  The code is C under \<^verbatim>\<open>src/\<close>; the configuration modelled is
  Linux with FUSE 3 (64-bit \<^verbatim>\<open>size_t\<close> and \<^verbatim>\<open>long\<close>, 32-bit unsigned \<^verbatim>\<open>uid_t\<close> and \<^verbatim>\<open>gid_t\<close>).

  The program and its parts.  \<^verbatim>\<open>main\<close> (\<^verbatim>\<open>src/bindfs.c\<close>) turns the command line into the global settings and
  hands a table of callbacks to FUSE.  Each callback rewrites the path it gets (\<^verbatim>\<open>process_path\<close>), applies the
  policies in the settings, and makes system calls in the source directory, to which the process has
  changed.  Attributes pass through the permission rules (\<^verbatim>\<open>src/permchain.c\<close>), the user maps (\<^verbatim>\<open>src/usermap.c\<close>),
  id offsets and mirroring, which asks a cache of the user database (\<^verbatim>\<open>src/userinfo.c\<close>); reads and writes
  pass the rate limiters (\<^verbatim>\<open>src/rate_limiter.c\<close>); strings, paths, argument lists and growable memory come from
  \<^verbatim>\<open>src/misc.c\<close> and \<^verbatim>\<open>src/arena.c\<close>.

  Theories and sources.
  \<^item> \<open>Prelude\<close>: machine types, file modes, error numbers, and the C library functions the sources use on
    strings (\<^verbatim>\<open>strtol\<close>, \<^verbatim>\<open>strtok\<close>, \<^verbatim>\<open>strstr\<close>, \<^verbatim>\<open>strncmp\<close>), with shared lemmas.
  \<^item> \<open>Permchain\<close> (\<^verbatim>\<open>permchain.c\<close>): a chain is the list of its nodes.  The parser of chmod rules and octal rules
    and their application; the specification \<open>chmod_spec\<close> on sets of permissions.  Shown: the application
    refines the specification and changes only permission bits, the parser accepts exactly the stated
    language, leaves the chain alone on an error, and inverts printing.
  \<^item> \<open>Permheap\<close> (\<^verbatim>\<open>permchain.c\<close>): the same functions on nodes linked in a memory of allocated blocks, where reading,
    writing or freeing a block that is not allocated is an error.  Shown: they refine the functions on lists, leak
    nothing and never touch freed memory.
  \<^item> \<open>Usermap\<close> (\<^verbatim>\<open>usermap.c\<close>): parallel arrays with capacity.  Locales \<open>id_map\<close> and \<open>growing_id_map\<close> state what the users
    of a map rely on and are interpreted on the user half and the group half.  Shown: array bounds,
    duplicates, lookups after insertion (a target of -1 included), and that a map and the one built from the reversed pairs stay inverse.
  \<^item> \<open>Arena\<close> (\<^verbatim>\<open>arena.c\<close>): regions handed out lie within the memory of their blocks and do not overlap, unless the size of a block
    wraps around.
  \<^item> \<open>Misc\<close> (\<^verbatim>\<open>misc.c\<close>): counting, path functions, the filter of mount options, memory blocks at byte level
    (locale \<open>byte_store\<close>).  Shown: \<^verbatim>\<open>path_starts_with\<close> is the prefix relation on components, and what the filter,
    \<^verbatim>\<open>my_dirname\<close> and the memory block compute.
  \<^item> \<open>Ratelimiter\<close> (\<^verbatim>\<open>rate_limiter.c\<close>), over real numbers: lower and upper bounds on when requests are cleared, and
    that the time given to \<^verbatim>\<open>nanosleep\<close> is valid for every rounding within the error of \<^verbatim>\<open>double\<close> arithmetic.
  \<^item> \<open>Limiterlock\<close> (\<^verbatim>\<open>rate_limiter.c\<close>): many threads on one limiter as a step relation, with the mutex, the clock and the
    sleep, which a signal can interrupt.  Shown: calls are served one after the other, whatever the clock shows, and with a sane clock a bound on all
    bytes let through.
  \<^item> \<open>Userinfo\<close> (\<^verbatim>\<open>userinfo.c\<close>): the cache of users and groups down to the bytes in its memory block, with \<^verbatim>\<open>qsort\<close> and
    \<^verbatim>\<open>bsearch\<close> (locale \<open>ordered_search\<close>, interpreted for the three orders used).  Shown: membership answered from the
    cache is membership in the database.
  \<^item> \<open>Cachelock\<close> (\<^verbatim>\<open>userinfo.c\<close>): threads, the read-write lock, the signal handler and a changing database as a step
    relation (locale \<open>invariant_system\<close> of the prelude).  Shown: exclusion, and that answers are up to date.
  \<^item> \<open>Cacheprogress\<close> (\<^verbatim>\<open>userinfo.c\<close>): no deadlock, on the same step relation; every pending call can return.
  \<^item> \<open>Syscalls\<close>: a handler is a tree of system calls and what it does with each answer; \<open>run\<close> executes it on a
    kernel, which is a record of arbitrary functions, and \<open>safe\<close> is a program logic sound for every kernel.
  \<^item> \<open>Settings\<close> and \<open>Operations\<close> (\<^verbatim>\<open>bindfs.c\<close>): the settings, the shared helpers and every callback of the table, with
    one definition per C function; \<open>bindfs_oper\<close> dispatches a request to its handler.
  \<^item> \<open>Confinement\<close> and \<open>Policies\<close>: which paths and which effects system calls can have, for all requests, settings and
    kernels, with the calls that are not checked against the mount point (\<open>unguarded\<close>); exactly which attributes are reported, owners,
    modes, deletion of links and direct I/O.
  \<^item> \<open>Options\<close> and \<open>Startup\<close> (\<^verbatim>\<open>bindfs.c\<close>): the option callback, the parsers of \<^verbatim>\<open>--mirror\<close>, \<^verbatim>\<open>--map\<close> and map files, and
    \<^verbatim>\<open>main\<close> up to \<^verbatim>\<open>fuse_main\<close>.  Shown: the settings satisfy what the handlers assume, privileged options need root,
    the arguments ask the kernel to check permissions, the mirror parser stays within its arrays (and when not),
    and when the search for the working directory never ends.
  \<^item> \<open>Opttable\<close> (\<^verbatim>\<open>bindfs.c\<close>): the table of options given to \<^verbatim>\<open>fuse_opt_parse\<close> and the text of \<^verbatim>\<open>print_usage\<close>.  Shown: the
    table covers every option key and field once, that all options but four can be given in a mount form, and how the text and the
    table differ.
  \<^item> \<open>Mirroring\<close>: the handlers and the user cache put together.
  \<^item> \<open>Session\<close> (\<^verbatim>\<open>bindfs.c\<close>): filling the cache, \<^verbatim>\<open>bindfs_init\<close>, the requests, \<^verbatim>\<open>bindfs_destroy\<close> and the exit status, for whatever
    \<^verbatim>\<open>fuse_main\<close> does; and that the allocations of \<^verbatim>\<open>main\<close> are of the kind \<open>Teardown\<close> assumes.
  \<^item> \<open>Teardown\<close> (\<^verbatim>\<open>bindfs.c\<close>, \<^verbatim>\<open>usermap.c\<close>): the allocations of the set-up and \<^verbatim>\<open>atexit_func\<close>, in the memory of
    \<open>Permheap\<close>.  Shown: wherever the set-up stops, everything is freed, once.
  \<^item> \<open>Regression\<close>: the repository's unit tests, evaluated on the model.
  \<^item> This theory: properties from the command line to system calls.

  Conventions.  A pointer that may be null is an option, an error of a system call or a failed parse is the
  left of a sum, a failed assertion is \<open>Abort\<close> (\<open>None\<close> when run).  Integers whose width matters are words; sizes and
  counters that cannot wrap are naturals.  Code outside the repository (the kernel, the user database,
  \<^verbatim>\<open>realpath\<close>, \<^verbatim>\<open>strtod\<close>, the clock, what \<^verbatim>\<open>fuse_opt_parse\<close> makes of the command line, what \<^verbatim>\<open>fuse_main\<close> calls and returns) is an argument of the
  definitions, with what is assumed of it in the theorems.  No definition uses fuel: loops are recursions with
  termination proofs, and the retry loops of \<^verbatim>\<open>user_uid\<close> and \<^verbatim>\<open>get_working_dir\<close>, which end only if the C library does its
  part, and the walks along linked nodes are partial functions with theorems that say when they return.  A name lookup
  that never returns makes \<^verbatim>\<open>main\<close> hang (\<open>Hangs\<close>).

  Not modelled: failing allocations; floating-point rounding in the accounting of the rate limiter (only in
  \<open>sleep_seconds\<close>); the FUSE 2, macOS and BSD
  branches, which this configuration does not compile (nor \<^verbatim>\<open>maybe_stdout_stderr_to_file\<close>); warnings and error messages,
  and \<^verbatim>\<open>src/debug.c\<close>; \<^verbatim>\<open>rate_limiter_destroy\<close>, which only releases a mutex; the system call that installs the signal
  handler (what the handler does is \<open>signal_handler\<close>, and a step in \<open>Cachelock\<close>); interleavings of file handlers other
  than on the user cache and on the rate limiters; in \<open>Teardown\<close>, memory that libfuse allocates for option values.
\<close>

section \<open>From the command line to system calls\<close>

text \<open>
  C1. The whole program: whatever the command line, if \<^verbatim>\<open>main\<close> starts the file system, then in every sequence
  of requests and for every behaviour of the kernel no assertion of a file handler fails, and every
  path handed to the kernel is relative to the source directory, or, with \<^verbatim>\<open>--resolve-symlinks\<close>, either a
  resolved path outside the mount point given on the command line, or in one of the calls the code makes without comparing
  with the mount point: an unlink or rmdir for the target of a link, for a request to delete, and only with the deletion
  policies symlink-first and target-first and without \<^verbatim>\<open>--delete-deny\<close>, or a query while a directory is listed.
  Without \<^verbatim>\<open>--resolve-symlinks\<close> there is no exception.
\<close>

theorem bindfs_confined:
  assumes "main env argv0 od calls args = Inr (s, args')"
  shows "\<exists>d. mntdest s = Some d \<and> fst (run K (serve_all s reqs) st) \<noteq> None
    \<and> (\<forall>c \<in> set (fst (snd (run K (serve_all s reqs) st))). \<forall>p \<in> set (paths_of c).
         p \<noteq> [] \<and> hd p \<noteq> slash
         \<or> resolve_symlinks s \<and> (\<not> path_starts_with p d (length d) \<or> (\<exists>(fc, req) \<in> set reqs. unguarded s req c)))"
proof -
  have ok: "setup_ok s" using assms by (rule main_setup_ok)
  obtain d where d: "mntdest s = Some d" using main_mount_set [OF assms] by blast
  then have "dest_of s = d" "mntdest_len s = length d" "settings_ok s" using ok by (simp_all add: setup_ok_def dest_of_def)
  with serve_all_checked [of s K reqs st] d show ?thesis by simp
qed

theorem bindfs_confined_witness:
  "\<exists>s args'. main (example_env 0) ''bindfs'' no_options example_calls [] = Inr (s, args') \<and> \<not> resolve_symlinks s
     \<and> list_all (\<lambda>c. list_all (\<lambda>p. p \<noteq> [] \<and> hd p \<noteq> slash) (paths_of c))
         (fst (snd (run (example_kernel (example_stat 0 0) [])
            (serve_all s [(\<lparr>fc_uid = 1, fc_gid = 1\<rparr>, Mkdir_req (Some ''/a'') 0), (\<lparr>fc_uid = 1, fc_gid = 1\<rparr>, Readdir (Some ''/b'') True)]) ())))"
proof -
  have "case main (example_env 0) ''bindfs'' no_options example_calls [] of Inl _ \<Rightarrow> False | Inr (s, _) \<Rightarrow> \<not> resolve_symlinks s"
    by code_simp
  then obtain s args' where m: "main (example_env 0) ''bindfs'' no_options example_calls [] = Inr (s, args')" "\<not> resolve_symlinks s"
    by (auto split: sum.splits)
  show ?thesis unfolding list_all_iff
    using bindfs_confined [OF m(1), where K = "example_kernel (example_stat 0 0) []" and st = "()"] m by blast
qed

text \<open>
  C2. \<^verbatim>\<open>--delete-deny\<close> and \<^verbatim>\<open>--rename-deny\<close> do what they promise: when the option is given, anywhere on the
  command line and with whatever other options, no request ever leads to a call that deletes, or
  that renames, a file.
\<close>

theorem denied_on_command_line:
  assumes "main env argv0 od calls args = Inr (s, args')" and "c \<in> set (fst (snd (run K (serve_all s reqs) st)))"
  shows "(OPTKEY_DELETE_DENY \<in> snd ` set calls \<longrightarrow> effect_of c \<noteq> Delete_node)
    \<and> (OPTKEY_RENAME_DENY \<in> snd ` set calls \<longrightarrow> effect_of c \<noteq> Move_node)"
proof -
  have "settings_ok s" using main_setup_ok [OF assms(1)] by (simp add: setup_ok_def)
  with serve_all_limited [of s K reqs st] assms(2) obtain r where
    r: "effect_of c = Query \<or> effect_of c \<in> allowed s r" by blast
  have "delete_deny s \<Longrightarrow> Delete_node \<notin> allowed s r" "rename_deny s \<Longrightarrow> Move_node \<notin> allowed s r"
    by (auto simp: allowed_def split: request.split)
  then show ?thesis using r main_denials [OF assms(1)] by (auto simp: denials_def split: if_splits)
qed

theorem denied_on_command_line_witness:
  "\<exists>s args'. main (example_env 0) ''bindfs'' no_options example_calls [] = Inr (s, args')
     \<and> OPTKEY_DELETE_DENY \<in> snd ` set example_calls
     \<and> list_all (\<lambda>c. effect_of c \<noteq> Delete_node) (fst (snd (run (example_kernel (example_stat 0 0) [])
          (serve_all s [(\<lparr>fc_uid = 1, fc_gid = 1\<rparr>, Unlink_req (Some ''/a'')), (\<lparr>fc_uid = 1, fc_gid = 1\<rparr>, Mkdir_req (Some ''/b'') 0)]) ())))"
proof -
  have d: "OPTKEY_DELETE_DENY \<in> snd ` set example_calls" by (simp add: example_calls_def)
  have "case main (example_env 0) ''bindfs'' no_options example_calls [] of Inl _ \<Rightarrow> False | Inr _ \<Rightarrow> True" by code_simp
  then obtain s args' where m: "main (example_env 0) ''bindfs'' no_options example_calls [] = Inr (s, args')"
    by (auto split: sum.splits)
  show ?thesis unfolding list_all_iff using denied_on_command_line [OF m, where K = "example_kernel (example_stat 0 0) []" and st = "()"] d m by blast
qed

end
